(* ===== verification/Prelude.thy ===== *)
theory Prelude
  imports Main "HOL-Library.Word" "HOL-Library.List_Lexorder" "HOL-Library.AList"
begin

unbundle bit_operations_syntax

text \<open>
  Shared vocabulary of the development: the machine types of the Rust code, the outcome of
  a fallible operation (\<open>Ok\<close>, \<open>Err\<close>, or a panic), byte-string helpers, the models of the
  standard collections (\<open>BTreeMap\<close> as a sorted association list, \<open>HashMap\<close> as an
  association list with distinct keys), and a small theory of reachable states.
\<close>

section \<open>Machine types\<close>

type_synonym byte = "8 word"
type_synonym u16 = "16 word"
type_synonym u64 = "64 word"
type_synonym bytes = "byte list"

text \<open>
  A Rust call ends with a value, with an error value, or it unwinds: a failed \<open>unwrap\<close>,
  an index out of range and a violated \<open>assert!\<close> are the third case.
\<close>

datatype ('e, 'a) outcome = Ok 'a | Err 'e | Panic

fun bind_outcome :: "('e, 'a) outcome \<Rightarrow> ('a \<Rightarrow> ('e, 'b) outcome) \<Rightarrow> ('e, 'b) outcome" where
  "bind_outcome (Ok a) f = f a"
| "bind_outcome (Err e) f = Err e"
| "bind_outcome Panic f = Panic"

definition of_option :: "'e \<Rightarrow> 'a option \<Rightarrow> ('e, 'a) outcome" where
  "of_option e x = (case x of None \<Rightarrow> Err e | Some a \<Rightarrow> Ok a)"

lemma of_option_simps [simp]:
  "of_option e None = Err e" "of_option e (Some a) = Ok a"
  by (simp_all add: of_option_def)

lemma bind_outcome_Ok_iff:
  "bind_outcome x f = Ok b \<longleftrightarrow> (\<exists>a. x = Ok a \<and> f a = Ok b)"
  by (cases x) auto

text \<open>
  A method on \<open>&mut self\<close> that can fail: the state it leaves behind is there in every case,
  because a method that returns an error has already made the changes before it.
\<close>

type_synonym ('s, 'e, 'a) st = "'s \<Rightarrow> ('e, 'a) outcome \<times> 's"

definition st_ret :: "'a \<Rightarrow> ('s, 'e, 'a) st" where
  "st_ret a = (\<lambda>s. (Ok a, s))"

definition st_lift :: "('e, 'a) outcome \<Rightarrow> ('s, 'e, 'a) st" where
  "st_lift x = (\<lambda>s. (x, s))"

definition st_get :: "('s, 'e, 's) st" where
  "st_get = (\<lambda>s. (Ok s, s))"

definition st_modify :: "('s \<Rightarrow> 's) \<Rightarrow> ('s, 'e, unit) st" where
  "st_modify f = (\<lambda>s. (Ok (), f s))"

definition st_bind :: "('s, 'e, 'a) st \<Rightarrow> ('a \<Rightarrow> ('s, 'e, 'b) st) \<Rightarrow> ('s, 'e, 'b) st" where
  "st_bind m f = (\<lambda>s. case m s of
      (Ok a, s') \<Rightarrow> f a s'
    | (Err e, s') \<Rightarrow> (Err e, s')
    | (Panic, s') \<Rightarrow> (Panic, s'))"

text \<open>\<open>Option::unwrap\<close>.\<close>

definition unwrap :: "'a option \<Rightarrow> ('e, 'a) outcome" where
  "unwrap x = (case x of None \<Rightarrow> Panic | Some a \<Rightarrow> Ok a)"

lemma unwrap_simps [simp]: "unwrap None = Panic" "unwrap (Some a) = Ok a"
  by (simp_all add: unwrap_def)

lemma st_simps [simp]:
  "st_ret a s = (Ok a, s)" "st_lift x s = (x, s)" "st_get s = (Ok s, s)" "st_modify g s = (Ok (), g s)"
  by (simp_all add: st_ret_def st_lift_def st_get_def st_modify_def)

lemma st_bind_run [simp]:
  "m s = (Ok a, s') \<Longrightarrow> st_bind m f s = f a s'"
  "m s = (Err e, s') \<Longrightarrow> st_bind m f s = (Err e, s')"
  "m s = (Panic, s') \<Longrightarrow> st_bind m f s = (Panic, s')"
  by (simp_all add: st_bind_def)

section \<open>Byte strings\<close>

named_theorems byte_simps \<open>lengths and inverses of the byte-string helpers\<close>

definition xor_bytes :: "bytes \<Rightarrow> bytes \<Rightarrow> bytes" where
  "xor_bytes xs ys = map2 (XOR) xs ys"

lemma length_xor_bytes [byte_simps]: "length (xor_bytes xs ys) = min (length xs) (length ys)"
  by (simp add: xor_bytes_def)

lemma xor_bytes_nth: "i < length xs \<Longrightarrow> i < length ys \<Longrightarrow> xor_bytes xs ys ! i = xs ! i XOR ys ! i"
  by (simp add: xor_bytes_def)

lemma word_xor_eq_0_iff: "a XOR b = 0 \<longleftrightarrow> a = b" for a b :: "'a::len word"
  by (metis word_bw_assocs(3) word_bw_same(3) xor.left_neutral xor.right_neutral)

lemma xor_bytes_self: "xor_bytes (xor_bytes xs ys) ys = take (length ys) xs"
  by (rule nth_equalityI) (auto simp: xor_bytes_def xor.assoc)

text \<open>\<open>u16::to_be_bytes\<close> and \<open>u16::from_be_bytes\<close>, on the value as a natural number.\<close>

definition be16 :: "nat \<Rightarrow> bytes" where
  "be16 n = [word_of_nat (n div 256), word_of_nat n]"

definition of_be16 :: "byte \<Rightarrow> byte \<Rightarrow> nat" where
  "of_be16 hi lo = unat hi * 256 + unat lo"

lemma length_be16 [byte_simps]: "length (be16 n) = 2"
  by (simp add: be16_def)

lemma of_be16_be16:
  assumes "n < 65536"
  shows "of_be16 (be16 n ! 0) (be16 n ! 1) = n"
proof -
  have "unat (word_of_nat (n div 256) :: byte) = n div 256"
    using assms by (simp add: unat_of_nat take_bit_eq_mod)
  moreover have "unat (word_of_nat n :: byte) = n mod 256"
    by (simp add: unat_of_nat take_bit_eq_mod)
  ultimately show ?thesis by (simp add: of_be16_def be16_def)
qed

text \<open>The value of a big-endian byte string.\<close>

fun be_val :: "bytes \<Rightarrow> nat" where
  "be_val [] = 0"
| "be_val (b # bs) = unat b * 256 ^ length bs + be_val bs"

lemma be_val_less: "be_val bs < 256 ^ length bs"
proof (induction bs)
  case Nil
  then show ?case by simp
next
  case (Cons b bs)
  have "unat b < 256" using unsigned_less [where w = b and 'a = nat] by simp
  then have "unat b * 256 ^ length bs \<le> 255 * 256 ^ length bs"
    by (intro mult_right_mono) auto
  moreover have "be_val (b # bs) = unat b * 256 ^ length bs + be_val bs" by simp
  moreover have "(256::nat) ^ length (b # bs) = 255 * 256 ^ length bs + 256 ^ length bs" by simp
  ultimately show ?case using Cons.IH by linarith
qed

section \<open>Collections\<close>

text \<open>
  \<open>BTreeMap::insert\<close> on a sorted association list. \<open>BTreeMap\<close> iterates in key order,
  which is the order of the list.
\<close>

fun bt_insert :: "'k::linorder \<Rightarrow> 'v \<Rightarrow> ('k \<times> 'v) list \<Rightarrow> ('k \<times> 'v) list" where
  "bt_insert k v [] = [(k, v)]"
| "bt_insert k v (e # es) =
     (if fst e < k then e # bt_insert k v es
      else if fst e = k then (k, v) # es
      else (k, v) # e # es)"

abbreviation bt_sorted :: "('k::linorder \<times> 'v) list \<Rightarrow> bool" where
  "bt_sorted m \<equiv> sorted_wrt (<) (map fst m)"

lemma bt_insert_keys [simp]: "fst ` set (bt_insert k v m) = insert k (fst ` set m)"
  by (induction m) auto

lemma bt_insert_sorted: "bt_sorted m \<Longrightarrow> bt_sorted (bt_insert k v m)"
proof (induction m)
  case Nil
  then show ?case by simp
next
  case (Cons e es)
  then show ?case
    by (cases "fst e < k"; cases "fst e = k") (auto simp: image_iff Ball_def dest: order.strict_trans
        dest: bt_insert_keys [THEN equalityD1, THEN subsetD, OF imageI])
qed

lemma map_of_bt_insert: "bt_sorted m \<Longrightarrow> map_of (bt_insert k v m) = (map_of m)(k \<mapsto> v)"
  by (induction m) (auto simp: fun_eq_iff)

text \<open>Collecting an iterator of pairs into a \<open>BTreeMap\<close>: a later entry replaces an earlier one.\<close>

definition bt_collect :: "('k::linorder \<times> 'v) list \<Rightarrow> ('k \<times> 'v) list" where
  "bt_collect es = fold (\<lambda>(k, v). bt_insert k v) es []"

lemma fold_bt_insert_sorted:
  "bt_sorted m \<Longrightarrow> bt_sorted (fold (\<lambda>(k, v). bt_insert k v) es m)"
  by (induction es arbitrary: m) (auto simp: bt_insert_sorted)

lemma fold_bt_insert_keys:
  "fst ` set (fold (\<lambda>(k, v). bt_insert k v) es m) = fst ` set es \<union> fst ` set m"
proof (induction es arbitrary: m)
  case Nil
  then show ?case by simp
next
  case (Cons e es)
  show ?case by (simp add: Cons.IH split: prod.split)
qed

lemma set_bt_insert_subset: "set (bt_insert k v m) \<subseteq> insert (k, v) (set m)"
  by (induction m) auto

lemma fold_bt_insert_subset: "set (fold (\<lambda>(k, v). bt_insert k v) es m) \<subseteq> set es \<union> set m"
proof (induction es arbitrary: m)
  case Nil
  then show ?case by simp
next
  case (Cons e es)
  then show ?case
    using set_bt_insert_subset [of "fst e" "snd e" m] by (fastforce split: prod.splits)
qed

lemma bt_collect_sorted: "bt_sorted (bt_collect es)"
  by (simp add: bt_collect_def fold_bt_insert_sorted)

lemma bt_collect_keys: "fst ` set (bt_collect es) = fst ` set es"
  by (simp add: bt_collect_def fold_bt_insert_keys)

lemma bt_collect_subset: "set (bt_collect es) \<subseteq> set es"
  using fold_bt_insert_subset [of es "[]"] by (simp add: bt_collect_def)

text \<open>\<open>VecDeque::remove(i)\<close>: the element at \<open>i\<close> is taken out, the rest keep their order.\<close>

definition remove_at :: "nat \<Rightarrow> 'a list \<Rightarrow> 'a list" where
  "remove_at i xs = take i xs @ drop (Suc i) xs"

lemma length_remove_at: "i < length xs \<Longrightarrow> length (remove_at i xs) = length xs - 1"
  by (simp add: remove_at_def)

lemma set_remove_at_subset: "set (remove_at i xs) \<subseteq> set xs"
  by (auto simp: remove_at_def dest: in_set_takeD in_set_dropD)

lemma remove_at_split: "i < length xs \<Longrightarrow> set xs = insert (xs ! i) (set (remove_at i xs))"
  unfolding remove_at_def by (subst id_take_nth_drop [of i xs]) auto

text \<open>\<open>HashMap::insert\<close> makes the map longer by one at most.\<close>

lemma length_alist_update:
  "length (AList.update k v m) = (if k \<in> fst ` set m then length m else Suc (length m))"
  by (induction m) auto

section \<open>Reachable states\<close>

text \<open>
  The states a component can be in: those reached from an initial state by its steps. An
  interface law of the form ``every operation keeps \<open>inv\<close>'' lifts to all of them.
\<close>

inductive reach :: "('s \<Rightarrow> bool) \<Rightarrow> ('s \<Rightarrow> 's \<Rightarrow> bool) \<Rightarrow> 's \<Rightarrow> bool"
  for ini :: "'s \<Rightarrow> bool" and stp :: "'s \<Rightarrow> 's \<Rightarrow> bool" where
  reach_init: "ini s \<Longrightarrow> reach ini stp s"
| reach_step: "reach ini stp s \<Longrightarrow> stp s t \<Longrightarrow> reach ini stp t"

locale invariant_system =
  fixes ini :: "'s \<Rightarrow> bool"
    and stp :: "'s \<Rightarrow> 's \<Rightarrow> bool"
    and inv :: "'s \<Rightarrow> bool"
  assumes inv_init: "ini s \<Longrightarrow> inv s"
    and inv_step: "inv s \<Longrightarrow> stp s t \<Longrightarrow> inv t"
begin

lemma reach_inv: "reach ini stp s \<Longrightarrow> inv s"
  by (induction rule: reach.induct) (auto intro: inv_init inv_step)

lemma steps_inv: "stp\<^sup>*\<^sup>* s t \<Longrightarrow> inv s \<Longrightarrow> inv t"
  by (induction rule: rtranclp_induct) (auto intro: inv_step)

end

end
