(* ===== verification/Discv4_Records.thy ===== *)
theory Discv4_Records
  imports Prelude
begin

text \<open>
  The records of the discovery protocol (\<^verbatim>\<open>discv4/src/node.rs\<close>, \<^verbatim>\<open>discv4/src/message.rs\<close>)
  that the routing table and the packet handlers share. An address is its octets, four of
  them for IPv4 and sixteen for IPv6; a node id (\<open>H512\<close>) is a string of 64 bytes and a hash
  (\<open>H256\<close>) one of 32.
\<close>

type_synonym node_id = bytes
type_synonym h256 = bytes

datatype ip_addr = V4 bytes | V6 bytes

fun octets :: "ip_addr \<Rightarrow> bytes" where
  "octets (V4 v) = v"
| "octets (V6 v) = v"

fun is_ipv6 :: "ip_addr \<Rightarrow> bool" where
  "is_ipv6 (V4 _) = False"
| "is_ipv6 (V6 _) = True"

fun ip_wf :: "ip_addr \<Rightarrow> bool" where
  "ip_wf (V4 v) = (length v = 4)"
| "ip_wf (V6 v) = (length v = 16)"

record node_record =
  nr_address :: ip_addr
  nr_tcp_port :: u16
  nr_udp_port :: u16
  nr_id :: node_id

record endpoint =
  ep_address :: ip_addr
  ep_udp_port :: u16
  ep_tcp_port :: u16

text \<open>\<open>impl From<NodeRecord> for Endpoint\<close>, and the two socket addresses of a record.\<close>

definition endpoint_of :: "node_record \<Rightarrow> endpoint" where
  "endpoint_of n =
     \<lparr>ep_address = nr_address n, ep_udp_port = nr_udp_port n, ep_tcp_port = nr_tcp_port n\<rparr>"

type_synonym sock_addr = "ip_addr \<times> u16"

definition tcp_addr :: "node_record \<Rightarrow> sock_addr" where
  "tcp_addr n = (nr_address n, nr_tcp_port n)"

definition udp_addr :: "node_record \<Rightarrow> sock_addr" where
  "udp_addr n = (nr_address n, nr_udp_port n)"

end
