(* ===== verification/Kademlia.thy ===== *)
theory Kademlia
  imports Discv4_Records
begin

text \<open>
  The routing table of the discovery protocol, \<^verbatim>\<open>discv4/src/kad.rs\<close>: 256 buckets, one for
  each position of the highest bit in which the hash of a node id differs from the hash of
  our own. A bucket holds up to 16 nodes and up to 16 replacements. The hash function
  (Keccak-256, a library of the code) is the parameter \<open>kk\<close>; what is used of it is that it
  returns 32 bytes.

  Theorems: the logarithmic distance is the position of the highest set bit; the table
  invariant holds in every reachable table; what each operation does to the bucket it
  addresses; the list returned by \<open>nearest_node_entries\<close> is sorted by distance and complete.
\<close>

section \<open>State\<close>

definition BUCKET_SIZE :: nat where "BUCKET_SIZE = 16"
definition REPLACEMENTS_SIZE :: nat where "REPLACEMENTS_SIZE = 16"
definition ADDRESS_BYTES_SIZE :: nat where "ADDRESS_BYTES_SIZE = 32"
definition ADDRESS_BITS :: nat where "ADDRESS_BITS = 8 * ADDRESS_BYTES_SIZE"

lemmas kad_sizes = BUCKET_SIZE_def REPLACEMENTS_SIZE_def ADDRESS_BYTES_SIZE_def ADDRESS_BITS_def

definition distance :: "(bytes \<Rightarrow> h256) \<Rightarrow> node_id \<Rightarrow> node_id \<Rightarrow> h256" where
  "distance kk n1 n2 = xor_bytes (kk n1) (kk n2)"

record kbucket =
  kb_bucket :: "node_record list"
  kb_replacements :: "node_record list"

definition kbucket_default :: kbucket where
  "kbucket_default = \<lparr>kb_bucket = [], kb_replacements = []\<rparr>"

record table =
  id_hash :: h256
  kbuckets :: "kbucket list"

section \<open>Bucket operations\<close>

text \<open>The index loop of \<open>find_peer_pos\<close>: the first position whose record has the id.\<close>

fun find_pos :: "node_record list \<Rightarrow> node_id \<Rightarrow> nat option" where
  "find_pos [] peer = None"
| "find_pos (n # ns) peer = (if nr_id n = peer then Some 0 else map_option Suc (find_pos ns peer))"

definition find_peer_pos :: "kbucket \<Rightarrow> node_id \<Rightarrow> nat option" where
  "find_peer_pos b peer = find_pos (kb_bucket b) peer"

definition push_replacement :: "kbucket \<Rightarrow> node_record \<Rightarrow> kbucket" where
  "push_replacement b peer =
     (if length (kb_replacements b) < REPLACEMENTS_SIZE
      then b\<lparr>kb_replacements := kb_replacements b @ [peer]\<rparr> else b)"

section \<open>The table\<close>

definition new_table :: "(bytes \<Rightarrow> h256) \<Rightarrow> node_id \<Rightarrow> table" where
  "new_table kk i = \<lparr>id_hash = kk i, kbuckets = replicate ADDRESS_BITS kbucket_default\<rparr>"

text \<open>\<open>u8::leading_zeros\<close>.\<close>

definition leading_zeros :: "byte \<Rightarrow> nat" where
  "leading_zeros d = length (takeWhile (\<lambda>i. \<not> bit d i) [7, 6, 5, 4, 3, 2, 1, 0])"

text \<open>
  The loop of \<open>logdistance\<close>, \<open>for i in (0..32).rev()\<close>: the argument is the number of values
  of \<open>i\<close> still to come.
\<close>

fun logdist_loop :: "h256 \<Rightarrow> h256 \<Rightarrow> nat \<Rightarrow> nat option" where
  "logdist_loop a b 0 = None"
| "logdist_loop a b (Suc i) =
     (let byte_index = ADDRESS_BYTES_SIZE - i - 1;
          d = a ! byte_index XOR b ! byte_index
      in if d \<noteq> 0 then Some (i * 8 + (7 - leading_zeros d)) else logdist_loop a b i)"

definition logdistance :: "(bytes \<Rightarrow> h256) \<Rightarrow> table \<Rightarrow> node_id \<Rightarrow> nat option" where
  "logdistance kk t peer = logdist_loop (id_hash t) (kk peer) ADDRESS_BYTES_SIZE"

definition table_bucket :: "(bytes \<Rightarrow> h256) \<Rightarrow> table \<Rightarrow> node_id \<Rightarrow> kbucket option" where
  "table_bucket kk t peer = map_option (\<lambda>d. kbuckets t ! d) (logdistance kk t peer)"

text \<open>\<open>bucket_mut\<close>: the mutation of the addressed bucket, no change when there is none.\<close>

definition bucket_mut :: "(bytes \<Rightarrow> h256) \<Rightarrow> table \<Rightarrow> node_id \<Rightarrow> (kbucket \<Rightarrow> kbucket) \<Rightarrow> table" where
  "bucket_mut kk t peer f =
     (case logdistance kk t peer of
        None \<Rightarrow> t
      | Some d \<Rightarrow> t\<lparr>kbuckets := (kbuckets t)[d := f (kbuckets t ! d)]\<rparr>)"

definition table_get :: "(bytes \<Rightarrow> h256) \<Rightarrow> table \<Rightarrow> node_id \<Rightarrow> endpoint option" where
  "table_get kk t peer =
     (case table_bucket kk t peer of
        None \<Rightarrow> None
      | Some b \<Rightarrow> map_option endpoint_of (find (\<lambda>e. nr_id e = peer) (kb_bucket b)))"

definition filled_buckets :: "table \<Rightarrow> byte list" where
  "filled_buckets t =
     map (\<lambda>(i, b). word_of_nat i)
       (filter (\<lambda>(i, b). length (kb_bucket b) \<ge> BUCKET_SIZE) (enumerate 0 (kbuckets t)))"

definition oldest :: "table \<Rightarrow> byte \<Rightarrow> node_record option" where
  "oldest t bucket_no =
     (let b = kbuckets t ! unat bucket_no
      in if kb_bucket b \<noteq> [] then Some (kb_bucket b ! (length (kb_bucket b) - 1)) else None)"

definition bucket_add_verified :: "node_record \<Rightarrow> kbucket \<Rightarrow> kbucket" where
  "bucket_add_verified node b =
     (let b1 = (case find_peer_pos b (nr_id node) of
                  Some pos \<Rightarrow> b\<lparr>kb_bucket := remove_at pos (kb_bucket b)\<rparr>
                | None \<Rightarrow> b)
      in if length (kb_bucket b1) < BUCKET_SIZE
         then b1\<lparr>kb_bucket := node # kb_bucket b1\<rparr>
         else push_replacement b1 node)"

definition add_verified :: "(bytes \<Rightarrow> h256) \<Rightarrow> table \<Rightarrow> node_record \<Rightarrow> table" where
  "add_verified kk t node =
     (if is_ipv6 (nr_address node) then t
      else bucket_mut kk t (nr_id node) (bucket_add_verified node))"

definition bucket_add_seen :: "node_record \<Rightarrow> kbucket \<Rightarrow> kbucket" where
  "bucket_add_seen node b =
     (if find_peer_pos b (nr_id node) \<noteq> None then b
      else if length (kb_bucket b) < BUCKET_SIZE
      then b\<lparr>kb_bucket := kb_bucket b @ [node]\<rparr>
      else push_replacement b node)"

definition add_seen :: "(bytes \<Rightarrow> h256) \<Rightarrow> table \<Rightarrow> node_record \<Rightarrow> table" where
  "add_seen kk t node =
     (if is_ipv6 (nr_address node) then t
      else bucket_mut kk t (nr_id node) (bucket_add_seen node))"

text \<open>
  The search loop of \<open>remove\<close> stops at the first record with the id, which is the position
  \<open>find_peer_pos\<close> returns.
\<close>

definition bucket_remove :: "node_id \<Rightarrow> kbucket \<Rightarrow> kbucket" where
  "bucket_remove node b =
     (case kb_replacements b of
        [] \<Rightarrow> b
      | replacement # rest \<Rightarrow>
          (case find_peer_pos b node of
             None \<Rightarrow> b
           | Some i \<Rightarrow> b\<lparr>kb_bucket := remove_at i (kb_bucket b) @ [replacement],
                         kb_replacements := rest\<rparr>))"

definition table_remove :: "(bytes \<Rightarrow> h256) \<Rightarrow> table \<Rightarrow> node_id \<Rightarrow> table" where
  "table_remove kk t node = bucket_mut kk t node (bucket_remove node)"

text \<open>Collecting into an \<open>ArrayVec\<close> of capacity \<open>n\<close> panics when the iterator is longer.\<close>

definition collect_array_vec :: "nat \<Rightarrow> 'a list \<Rightarrow> ('e, 'a list) outcome" where
  "collect_array_vec n xs = (if length xs \<le> n then Ok xs else Panic)"

definition neighbours ::
    "(bytes \<Rightarrow> h256) \<Rightarrow> table \<Rightarrow> node_id \<Rightarrow> ('e, node_record list) outcome option" where
  "neighbours kk t peer =
     map_option (\<lambda>b. collect_array_vec BUCKET_SIZE (filter (\<lambda>n. peer \<noteq> nr_id n) (kb_bucket b)))
       (table_bucket kk t peer)"

definition table_nodes :: "table \<Rightarrow> node_record list" where
  "table_nodes t = concat (map kb_bucket (kbuckets t))"

definition nearest_node_entries ::
    "(bytes \<Rightarrow> h256) \<Rightarrow> table \<Rightarrow> node_id \<Rightarrow> (h256 \<times> node_record) list" where
  "nearest_node_entries kk t target =
     bt_collect (map (\<lambda>n. (distance kk (nr_id n) target, n)) (table_nodes t))"

definition table_len :: "table \<Rightarrow> nat" where
  "table_len t = fold (\<lambda>b total. total + length (kb_bucket b)) (kbuckets t) 0"

section \<open>The logarithmic distance\<close>

definition keccak_ok :: "(bytes \<Rightarrow> h256) \<Rightarrow> bool" where
  "keccak_ok kk \<longleftrightarrow> (\<forall>x. length (kk x) = 32)"

lemma leading_zeros_table:
  "list_all (\<lambda>n. 2 ^ (7 - leading_zeros (word_of_nat n)) \<le> n \<and> n < 2 ^ Suc (7 - leading_zeros (word_of_nat n)))
     [1..<256]"
  by code_simp

lemma leading_zeros_bounds:
  assumes "d \<noteq> 0"
  shows "2 ^ (7 - leading_zeros d) \<le> unat d" "unat d < 2 ^ Suc (7 - leading_zeros d)"
proof -
  have "unat d \<in> set [1..<256]"
    using assms unsigned_less [where w = d and 'a = nat] unat_gt_0 [of d] by auto
  then show "2 ^ (7 - leading_zeros d) \<le> unat d" "unat d < 2 ^ Suc (7 - leading_zeros d)"
    using leading_zeros_table by (auto simp: list_all_iff dest!: bspec)
qed

lemma logdist_loop_spec:
  assumes "length a = 32" "length b = 32" "n \<le> 32"
  shows "case logdist_loop a b n of
           None \<Rightarrow> be_val (drop (32 - n) (xor_bytes a b)) = 0 \<and> drop (32 - n) a = drop (32 - n) b
         | Some d \<Rightarrow> d < 8 * n \<and> 2 ^ d \<le> be_val (drop (32 - n) (xor_bytes a b))
                   \<and> be_val (drop (32 - n) (xor_bytes a b)) < 2 ^ Suc d"
  using \<open>n \<le> 32\<close>
proof (induction n)
  case 0
  then show ?case using assms by (simp add: byte_simps)
next
  case (Suc i)
  define k where "k = 32 - Suc i"
  define d where "d = a ! k XOR b ! k"
  have k: "k < 32" "32 - i = Suc k" using Suc.prems by (auto simp: k_def)
  have sp: "drop k (xor_bytes a b) = d # drop (Suc k) (xor_bytes a b)"
    using assms k by (simp add: Cons_nth_drop_Suc [symmetric] byte_simps xor_bytes_nth d_def)
  have len: "length (drop (Suc k) (xor_bytes a b)) = i"
    using assms k by (simp add: byte_simps k_def)
  have val: "be_val (drop k (xor_bytes a b)) = unat d * 256 ^ i + be_val (drop (Suc k) (xor_bytes a b))"
    unfolding sp be_val.simps len ..
  have small: "be_val (drop (Suc k) (xor_bytes a b)) < 256 ^ i"
    using be_val_less [of "drop (Suc k) (xor_bytes a b)"] len by simp
  show ?case
  proof (cases "d = 0")
    case True
    then have "a ! k = b ! k" by (simp add: d_def word_xor_eq_0_iff)
    moreover have "logdist_loop a b (Suc i) = logdist_loop a b i"
      using True k by (simp add: Let_def ADDRESS_BYTES_SIZE_def d_def k_def)
    moreover have "drop k a = a ! k # drop (Suc k) a" "drop k b = b ! k # drop (Suc k) b"
      using assms k by (simp_all add: Cons_nth_drop_Suc)
    moreover have "be_val (drop k (xor_bytes a b)) = be_val (drop (Suc k) (xor_bytes a b))"
      using True val by simp
    ultimately show ?thesis using Suc unfolding k_def [symmetric] k(2)
      by (simp split: option.splits del: logdist_loop.simps)
  next
    case False
    let ?h = "7 - leading_zeros d"
    have "logdist_loop a b (Suc i) = Some (i * 8 + ?h)"
      using False by (simp add: Let_def ADDRESS_BYTES_SIZE_def d_def k_def)
    moreover have "(2::nat) ^ (i * 8 + ?h) = 2 ^ ?h * 256 ^ i"
      by (simp add: power_add power_mult mult.commute [of i])
    moreover have "2 ^ ?h * 256 ^ i \<le> unat d * 256 ^ i" and "?h < 8"
      using leading_zeros_bounds(1) [OF False] by simp_all
    moreover have "Suc (unat d) * 256 ^ i \<le> 2 ^ Suc ?h * 256 ^ i"
      using leading_zeros_bounds(2) [OF False] by (intro mult_right_mono) auto
    ultimately show ?thesis using val small unfolding k_def [symmetric]
      by (simp del: logdist_loop.simps add: trans_le_add1)
  qed
qed


lemma logdistance_msb:
  assumes "keccak_ok kk" "length (id_hash t) = 32"
  shows "case logdistance kk t p of
           None \<Rightarrow> kk p = id_hash t
         | Some d \<Rightarrow> d < ADDRESS_BITS \<and> kk p \<noteq> id_hash t
             \<and> 2 ^ d \<le> be_val (xor_bytes (id_hash t) (kk p))
             \<and> be_val (xor_bytes (id_hash t) (kk p)) < 2 ^ Suc d"
proof -
  have l: "length (kk p) = 32" using assms(1) by (simp add: keccak_ok_def)
  note spec = logdist_loop_spec [OF assms(2) l order_refl]
  have "be_val (xor_bytes (id_hash t) (kk p)) = 0" if "kk p = id_hash t"
  proof -
    have "xor_bytes (id_hash t) (id_hash t) = replicate 32 0"
      using assms(2) by (auto simp: xor_bytes_def zip_same_conv_map comp_def map_replicate_const)
    moreover have "be_val (replicate n 0) = 0" for n by (induction n) auto
    ultimately show ?thesis using that by simp
  qed
  then show ?thesis using spec
    by (force simp: logdistance_def ADDRESS_BITS_def ADDRESS_BYTES_SIZE_def split: option.splits)
qed

text \<open>
  C29. The distance of two hashes is the position of the highest bit in which they differ:
  with \<open>x\<close> the exclusive or of the two hashes read as a 256-bit number, \<open>logdistance\<close>
  returns the \<open>d < 256\<close> with \<open>2 ^ d \<le> x < 2 ^ (d + 1)\<close>, and no distance exactly when the
  hashes are equal.
\<close>

theorem logdistance_correct:
  assumes "keccak_ok kk" "length (id_hash t) = 32"
  shows "case logdistance kk t p of
           None \<Rightarrow> kk p = id_hash t
         | Some d \<Rightarrow> d < ADDRESS_BITS \<and> kk p \<noteq> id_hash t
             \<and> 2 ^ d \<le> be_val (xor_bytes (id_hash t) (kk p))
             \<and> be_val (xor_bytes (id_hash t) (kk p)) < 2 ^ Suc d"
  using assms by (rule logdistance_msb)

section \<open>The table invariant\<close>

definition bucket_ok :: "(bytes \<Rightarrow> h256) \<Rightarrow> table \<Rightarrow> nat \<Rightarrow> kbucket \<Rightarrow> bool" where
  "bucket_ok kk t d b \<longleftrightarrow>
     length (kb_bucket b) \<le> BUCKET_SIZE \<and> length (kb_replacements b) \<le> REPLACEMENTS_SIZE \<and>
     (\<forall>n \<in> set (kb_bucket b) \<union> set (kb_replacements b).
        \<not> is_ipv6 (nr_address n) \<and> logdistance kk t (nr_id n) = Some d)"

definition table_inv :: "(bytes \<Rightarrow> h256) \<Rightarrow> table \<Rightarrow> bool" where
  "table_inv kk t \<longleftrightarrow>
     length (id_hash t) = 32 \<and> length (kbuckets t) = ADDRESS_BITS \<and>
     (\<forall>d < ADDRESS_BITS. bucket_ok kk t d (kbuckets t ! d))"

inductive table_step :: "(bytes \<Rightarrow> h256) \<Rightarrow> table \<Rightarrow> table \<Rightarrow> bool" for kk where
  step_verified: "table_step kk t (add_verified kk t n)"
| step_seen: "table_step kk t (add_seen kk t n)"
| step_remove: "table_step kk t (table_remove kk t p)"

definition table_reach :: "(bytes \<Rightarrow> h256) \<Rightarrow> table \<Rightarrow> bool" where
  "table_reach kk = reach (\<lambda>t. \<exists>i. t = new_table kk i) (table_step kk)"

lemma find_pos_Some: "find_pos ns p = Some i \<Longrightarrow> i < length ns \<and> nr_id (ns ! i) = p"
  by (induction ns p arbitrary: i rule: find_pos.induct) (auto split: if_splits)

lemma find_pos_None: "find_pos ns p = None \<longleftrightarrow> p \<notin> nr_id ` set ns"
  by (induction ns) auto

lemma find_peer_pos_Some:
  "find_peer_pos b p = Some i \<Longrightarrow> i < length (kb_bucket b) \<and> nr_id (kb_bucket b ! i) = p"
  by (simp add: find_peer_pos_def find_pos_Some)

lemma id_hash_bucket_mut [simp]: "id_hash (bucket_mut kk t p f) = id_hash t"
  by (simp add: bucket_mut_def split: option.split)

lemma length_kbuckets_bucket_mut [simp]:
  "length (kbuckets (bucket_mut kk t p f)) = length (kbuckets t)"
  by (simp add: bucket_mut_def split: option.split)

lemma logdistance_bucket_mut [simp]: "logdistance kk (bucket_mut kk t p f) = logdistance kk t"
  by (simp add: logdistance_def fun_eq_iff)

lemma kbuckets_bucket_mut:
  assumes "d < length (kbuckets t)"
  shows "kbuckets (bucket_mut kk t p f) ! d =
           (if logdistance kk t p = Some d then f (kbuckets t ! d) else kbuckets t ! d)"
  using assms by (auto simp: bucket_mut_def split: option.split)

lemma bucket_ok_bucket_mut [simp]: "bucket_ok kk (bucket_mut kk t p f) = bucket_ok kk t"
  by (simp add: bucket_ok_def fun_eq_iff)

lemma bucket_mut_inv:
  assumes "table_inv kk t"
    and "\<And>d. logdistance kk t p = Some d \<Longrightarrow> bucket_ok kk t d (kbuckets t ! d)
              \<Longrightarrow> bucket_ok kk t d (f (kbuckets t ! d))"
  shows "table_inv kk (bucket_mut kk t p f)"
  using assms by (auto simp: table_inv_def kbuckets_bucket_mut)

lemma push_replacement_ok:
  assumes "bucket_ok kk t d b" "\<not> is_ipv6 (nr_address n)" "logdistance kk t (nr_id n) = Some d"
  shows "bucket_ok kk t d (push_replacement b n)"
  using assms by (auto simp: bucket_ok_def push_replacement_def)

lemma bucket_add_verified_ok:
  assumes "bucket_ok kk t d b" "\<not> is_ipv6 (nr_address n)" "logdistance kk t (nr_id n) = Some d"
  shows "bucket_ok kk t d (bucket_add_verified n b)"
proof (cases "find_peer_pos b (nr_id n)")
  case None
  then show ?thesis using assms push_replacement_ok [OF assms]
    by (auto simp: bucket_add_verified_def bucket_ok_def)
next
  case (Some i)
  then have "length (remove_at i (kb_bucket b)) < BUCKET_SIZE"
    using assms(1) find_peer_pos_Some [OF Some] by (auto simp: length_remove_at bucket_ok_def)
  then show ?thesis using assms Some set_remove_at_subset [of i "kb_bucket b"]
    by (fastforce simp: bucket_add_verified_def bucket_ok_def)
qed

lemma bucket_add_seen_ok:
  assumes "bucket_ok kk t d b" "\<not> is_ipv6 (nr_address n)" "logdistance kk t (nr_id n) = Some d"
  shows "bucket_ok kk t d (bucket_add_seen n b)"
  using assms push_replacement_ok [OF assms] by (auto simp: bucket_add_seen_def bucket_ok_def)

lemma bucket_remove_ok:
  assumes "bucket_ok kk t d b"
  shows "bucket_ok kk t d (bucket_remove p b)"
proof (cases "kb_replacements b")
  case Nil
  then show ?thesis using assms by (simp add: bucket_remove_def)
next
  case (Cons r rs)
  show ?thesis
  proof (cases "find_peer_pos b p")
    case None
    then show ?thesis using assms Cons by (simp add: bucket_remove_def)
  next
    case (Some i)
    then show ?thesis
      using assms Cons find_peer_pos_Some [OF Some] set_remove_at_subset [of i "kb_bucket b"]
      by (fastforce simp: bucket_remove_def bucket_ok_def length_remove_at)
  qed
qed

lemma new_table_inv: "keccak_ok kk \<Longrightarrow> table_inv kk (new_table kk i)"
  by (simp add: table_inv_def new_table_def keccak_ok_def bucket_ok_def kbucket_default_def)

lemma table_step_inv: "table_step kk t t' \<Longrightarrow> table_inv kk t \<Longrightarrow> table_inv kk t'"
  by (induction rule: table_step.induct)
     (auto simp: add_verified_def add_seen_def table_remove_def
           intro!: bucket_mut_inv bucket_add_verified_ok bucket_add_seen_ok bucket_remove_ok)

interpretation kad: invariant_system
  "\<lambda>t. \<exists>i. t = new_table kk i" "table_step kk" "\<lambda>t. keccak_ok kk \<longrightarrow> table_inv kk t" for kk
  by unfold_locales (auto intro: new_table_inv table_step_inv)

lemma table_reach_inv: "keccak_ok kk \<Longrightarrow> table_reach kk t \<Longrightarrow> table_inv kk t"
  using kad.reach_inv by (auto simp: table_reach_def)

lemma table_inv_bucketD:
  "table_inv kk t \<Longrightarrow> d < ADDRESS_BITS \<Longrightarrow> bucket_ok kk t d (kbuckets t ! d)"
  by (simp add: table_inv_def)

lemma logdistance_less:
  "keccak_ok kk \<Longrightarrow> table_inv kk t \<Longrightarrow> logdistance kk t p = Some d \<Longrightarrow> d < ADDRESS_BITS"
  using logdist_loop_spec [of "id_hash t" "kk p" 32]
  by (simp add: table_inv_def keccak_ok_def logdistance_def kad_sizes)

section \<open>What the operations do\<close>

lemma table_len_eq: "table_len t = length (table_nodes t)"
proof -
  have "fold (\<lambda>b total. total + length (kb_bucket b)) bs k =
          k + length (concat (map kb_bucket bs))" for bs :: "kbucket list" and k
    by (induction bs arbitrary: k) auto
  then show ?thesis by (simp only: table_len_def table_nodes_def add_0)
qed

lemma length_concat_list_update_mono:
  assumes "length (kb_bucket (xs ! d)) \<le> length (kb_bucket b)" "d < length xs"
  shows "length (concat (map kb_bucket xs)) \<le> length (concat (map kb_bucket (xs[d := b])))"
  using assms by (induction xs arbitrary: d) (auto simp: nth_Cons split: nat.splits)

lemma bucket_op_len:
  "length (kb_bucket b) \<le> length (kb_bucket (bucket_add_seen n b))"
  "length (kb_bucket b) \<le> length (kb_bucket (bucket_remove p b))"
  "length (kb_bucket b) \<le> length (kb_bucket (push_replacement b n))"
  by (auto simp: bucket_add_seen_def push_replacement_def bucket_remove_def length_remove_at
           dest: find_peer_pos_Some split: list.split option.split)

lemma bucket_add_verified_len:
  "length (kb_bucket b) \<le> BUCKET_SIZE \<Longrightarrow>
   length (kb_bucket b) \<le> length (kb_bucket (bucket_add_verified n b))"
  using find_peer_pos_Some [of b "nr_id n"]
  by (cases "find_peer_pos b (nr_id n)")
     (auto simp: bucket_add_verified_def length_remove_at push_replacement_def Let_def)

lemma bucket_mut_len_mono:
  assumes "table_inv kk t" "keccak_ok kk"
    and "\<And>b. length (kb_bucket b) \<le> BUCKET_SIZE \<Longrightarrow> length (kb_bucket b) \<le> length (kb_bucket (f b))"
  shows "table_len t \<le> table_len (bucket_mut kk t p f)"
proof (cases "logdistance kk t p")
  case None
  then show ?thesis by (simp add: bucket_mut_def)
next
  case (Some d)
  have d: "d < length (kbuckets t)" "length (kb_bucket (kbuckets t ! d)) \<le> BUCKET_SIZE"
    using logdistance_less [OF assms(2,1) Some] assms(1) by (auto simp: table_inv_def bucket_ok_def)
  show ?thesis using Some d assms(3)
    by (simp add: table_len_eq table_nodes_def bucket_mut_def length_concat_list_update_mono)
qed

text \<open>
  C16. Every table the node can have (it starts empty and is changed by \<open>add_verified\<close>,
  \<open>add_seen\<close> and \<open>remove\<close>) has 256 buckets of at most 16 nodes and 16 replacements, every
  record is in the bucket of its own logarithmic distance, and none has an IPv6 address.
\<close>

theorem table_invariant:
  assumes "keccak_ok kk" "table_reach kk t"
  shows "length (kbuckets t) = ADDRESS_BITS \<and>
     (\<forall>d < ADDRESS_BITS. length (kb_bucket (kbuckets t ! d)) \<le> BUCKET_SIZE \<and>
        length (kb_replacements (kbuckets t ! d)) \<le> REPLACEMENTS_SIZE \<and>
        (\<forall>n \<in> set (kb_bucket (kbuckets t ! d)) \<union> set (kb_replacements (kbuckets t ! d)).
           \<not> is_ipv6 (nr_address n) \<and> logdistance kk t (nr_id n) = Some d \<and>
           kk (nr_id n) \<noteq> id_hash t))"
proof -
  have inv: "table_inv kk t" by (rule table_reach_inv) fact+
  have "kk p \<noteq> id_hash t" if "logdistance kk t p = Some d" for p d
    using logdistance_msb [OF assms(1), of t p] inv that by (simp add: table_inv_def)
  then show ?thesis using inv by (auto simp: table_inv_def bucket_ok_def)
qed

text \<open>
  C3. The table never loses a node: no step makes the number of nodes smaller, because
  \<open>remove\<close> takes a node out only when a replacement can take its place.
\<close>

theorem table_len_monotone:
  assumes "keccak_ok kk" "table_reach kk t" "(table_step kk)\<^sup>*\<^sup>* t t'"
  shows "table_len t \<le> table_len t'"
proof -
  have step: "table_len s \<le> table_len s'" if "table_step kk s s'" "table_inv kk s" for s s'
    using that
    by (induction rule: table_step.induct)
       (auto simp: add_verified_def add_seen_def table_remove_def bucket_op_len bucket_add_verified_len
             intro!: bucket_mut_len_mono assms(1))
  have "table_inv kk t" using assms by (intro table_reach_inv)
  from assms(3) this have "table_inv kk t' \<and> table_len t \<le> table_len t'"
    by (induction rule: rtranclp_induct) (auto intro: table_step_inv dest: step)
  then show ?thesis ..
qed

lemma find_append: "find P (xs @ ys) = (case find P xs of None \<Rightarrow> find P ys | Some x \<Rightarrow> Some x)"
  by (induction xs) auto

lemma find_remove_at:
  assumes "i < length xs" "\<not> P (xs ! i)"
  shows "find P (remove_at i xs) = find P xs"
proof -
  have "find P xs = find P (take i xs @ xs ! i # drop (Suc i) xs)"
    using assms(1) by (simp add: id_take_nth_drop [symmetric])
  then show ?thesis using assms(2) by (simp add: remove_at_def find_append split: option.split)
qed

lemma table_get_bucket_mut:
  assumes "keccak_ok kk" "table_inv kk t"
  shows "table_get kk (bucket_mut kk t p f) q =
     (case logdistance kk t q of
        None \<Rightarrow> None
      | Some d \<Rightarrow> map_option endpoint_of (find (\<lambda>e. nr_id e = q)
          (kb_bucket (if logdistance kk t p = Some d then f (kbuckets t ! d) else kbuckets t ! d))))"
  using assms logdistance_less [OF assms]
  by (auto simp: table_get_def table_bucket_def kbuckets_bucket_mut table_inv_def split: option.split)

lemma find_pos_first: "nr_id n = p \<Longrightarrow> p \<notin> nr_id ` set xs \<Longrightarrow> find_pos (xs @ n # ys) p = Some (length xs)"
  by (induction xs) auto

text \<open>What \<open>remove\<close> does to the bucket of a node, and to the others.\<close>

lemma bucket_remove_first:
  assumes "kb_bucket b = xs @ n # ys" "nr_id n = p" "p \<notin> nr_id ` set xs" "kb_replacements b = r # rest"
  shows "bucket_remove p b = b\<lparr>kb_bucket := xs @ ys @ [r], kb_replacements := rest\<rparr>"
  using assms find_pos_first [OF assms(2,3), of ys] by (simp add: bucket_remove_def find_peer_pos_def remove_at_def)

lemma bucket_remove_absent: "p \<notin> nr_id ` set (kb_bucket b) \<Longrightarrow> bucket_remove p b = b"
  by (simp add: bucket_remove_def find_peer_pos_def find_pos_None [THEN iffD2] split: list.split)

lemma table_remove_effect:
  assumes "keccak_ok kk" "table_inv kk t" "table_bucket kk t p = Some b"
  shows "table_bucket kk (table_remove kk t p) p = Some (bucket_remove p b)"
    and "bucket_remove p b = b \<Longrightarrow> table_remove kk t p = t"
    and "logdistance kk t q \<noteq> logdistance kk t p \<Longrightarrow> table_bucket kk (table_remove kk t p) q = table_bucket kk t q"
proof -
  obtain d where d: "logdistance kk t p = Some d" "b = kbuckets t ! d" "d < length (kbuckets t)"
    using assms logdistance_less [OF assms(1,2)] by (auto simp: table_bucket_def table_inv_def)
  show "table_bucket kk (table_remove kk t p) p = Some (bucket_remove p b)"
    using d by (simp add: table_remove_def table_bucket_def kbuckets_bucket_mut)
  show "table_remove kk t p = t" if "bucket_remove p b = b"
    using d that by (simp add: table_remove_def bucket_mut_def)
  show "table_bucket kk (table_remove kk t p) q = table_bucket kk t q" if "logdistance kk t q \<noteq> logdistance kk t p"
    using d that logdistance_less [OF assms(1,2), of q] assms(2)
    by (cases "logdistance kk t q") (auto simp: table_remove_def table_bucket_def kbuckets_bucket_mut table_inv_def)
qed

lemma table_remove_no_bucket: "table_bucket kk t p = None \<Longrightarrow> table_remove kk t p = t"
  by (simp add: table_remove_def table_bucket_def bucket_mut_def)

lemma find_bucket_add_verified_other:
  "nr_id n \<noteq> q \<Longrightarrow> find (\<lambda>e. nr_id e = q) (kb_bucket (bucket_add_verified n b)) =
     find (\<lambda>e. nr_id e = q) (kb_bucket b)"
  using find_peer_pos_Some [of b "nr_id n"]
  by (auto simp: bucket_add_verified_def Let_def push_replacement_def find_remove_at
           split: option.split)

lemma bucket_add_verified_front:
  assumes "length (kb_bucket b) \<le> BUCKET_SIZE"
    and "nr_id n \<in> nr_id ` set (kb_bucket b) \<or> length (kb_bucket b) < BUCKET_SIZE"
  shows "\<exists>ns. kb_bucket (bucket_add_verified n b) = n # ns"
proof (cases "find_peer_pos b (nr_id n)")
  case None
  then show ?thesis using assms find_pos_None [of "kb_bucket b" "nr_id n"]
    by (simp add: bucket_add_verified_def find_peer_pos_def)
next
  case (Some i)
  then have "length (remove_at i (kb_bucket b)) < BUCKET_SIZE"
    using assms(1) find_peer_pos_Some [OF Some] by (auto simp: length_remove_at)
  then show ?thesis using Some by (simp add: bucket_add_verified_def)
qed

lemma verified_get:
  assumes "keccak_ok kk" "table_inv kk t" "\<not> is_ipv6 (nr_address n)"
    and "table_bucket kk t (nr_id n) = Some b"
    and "nr_id n \<in> nr_id ` set (kb_bucket b) \<or> length (kb_bucket b) < BUCKET_SIZE"
  shows "table_get kk (add_verified kk t n) q =
           (if q = nr_id n then Some (endpoint_of n) else table_get kk t q) \<and>
         map_option (\<lambda>b'. take 1 (kb_bucket b')) (table_bucket kk (add_verified kk t n) (nr_id n)) =
           Some [n]"
proof -
  have inv: "table_inv kk t" by (rule assms(2))
  obtain d where d: "logdistance kk t (nr_id n) = Some d" "b = kbuckets t ! d" "d < ADDRESS_BITS"
    using assms(4) logdistance_less [OF assms(1) inv] by (auto simp: table_bucket_def)
  have "length (kb_bucket b) \<le> BUCKET_SIZE"
    using table_inv_bucketD [OF inv d(3)] d(2) by (simp add: bucket_ok_def)
  then have fst: "\<exists>ns. kb_bucket (bucket_add_verified n b) = n # ns"
    using assms(5) by (rule bucket_add_verified_front)
  have "table_get kk (add_verified kk t n) q =
           (if q = nr_id n then Some (endpoint_of n) else table_get kk t q)"
    using fst d assms(3) find_bucket_add_verified_other [of n q b]
    by (auto simp: add_verified_def table_get_bucket_mut [OF assms(1) inv] table_get_def [of kk t]
             table_bucket_def split: option.split)
  moreover have "map_option (\<lambda>b'. take 1 (kb_bucket b')) (table_bucket kk (add_verified kk t n) (nr_id n)) =
           Some [n]"
    using fst d assms(3) inv
    by (auto simp: add_verified_def table_bucket_def kbuckets_bucket_mut table_inv_def)
  ultimately show ?thesis ..
qed

text \<open>
  C28. A verified node can be looked up: after \<open>add_verified\<close> of an IPv4 node whose bucket
  already has it or has room, \<open>get\<close> returns its endpoint and it is the first of its bucket;
  every other id has the endpoint it had.
\<close>

theorem add_verified_get:
  assumes "keccak_ok kk" "table_reach kk t" "\<not> is_ipv6 (nr_address n)"
    and "table_bucket kk t (nr_id n) = Some b"
    and "nr_id n \<in> nr_id ` set (kb_bucket b) \<or> length (kb_bucket b) < BUCKET_SIZE"
  shows "table_get kk (add_verified kk t n) q =
           (if q = nr_id n then Some (endpoint_of n) else table_get kk t q) \<and>
         map_option (\<lambda>b'. take 1 (kb_bucket b')) (table_bucket kk (add_verified kk t n) (nr_id n)) =
           Some [n]"
  by (rule verified_get [OF assms(1) table_reach_inv [OF assms(1,2)] assms(3-5)])

text \<open>
  C30. \<open>nearest_node_entries\<close> is a sorted map: its keys are strictly increasing, they are
  exactly the distances of the stored nodes from the target, and every entry is a stored node
  under its own distance.
\<close>

theorem nearest_node_entries_sorted:
  "bt_sorted (nearest_node_entries kk t target) \<and>
   fst ` set (nearest_node_entries kk t target) =
     (\<lambda>n. distance kk (nr_id n) target) ` set (table_nodes t) \<and>
   set (nearest_node_entries kk t target) \<subseteq>
     (\<lambda>n. (distance kk (nr_id n) target, n)) ` set (table_nodes t)"
  using bt_collect_subset
  by (fastforce simp: nearest_node_entries_def bt_collect_sorted bt_collect_keys image_image)

text \<open>
  C6. The neighbours sent to a peer fit their \<open>ArrayVec\<close>: in every reachable table
  \<open>neighbours\<close> does not panic, and it returns the records of the peer's bucket, in order,
  other than the peer's own.
\<close>

theorem neighbours_total:
  assumes "keccak_ok kk" "table_reach kk t"
  shows "neighbours kk t peer =
           map_option (\<lambda>b. Ok (filter (\<lambda>n. nr_id n \<noteq> peer) (kb_bucket b))) (table_bucket kk t peer)"
proof (cases "logdistance kk t peer")
  case None
  then show ?thesis by (simp add: neighbours_def table_bucket_def)
next
  case (Some d)
  have inv: "table_inv kk t" using assms by (intro table_reach_inv)
  have "bucket_ok kk t d (kbuckets t ! d)"
    using inv logdistance_less [OF assms(1) inv Some] by (rule table_inv_bucketD)
  then have "length (filter (\<lambda>n. peer \<noteq> nr_id n) (kb_bucket (kbuckets t ! d))) \<le> BUCKET_SIZE"
    by (auto simp: bucket_ok_def intro: order_trans [OF length_filter_le])
  then show ?thesis using Some
    by (simp add: neighbours_def table_bucket_def collect_array_vec_def neq_commute)
qed

text \<open>
  C7. The bucket numbers the pinger picks from are those of the full buckets, each below 256
  (the conversion to \<open>u8\<close> does not fail), and each has an oldest node, its last.
\<close>

theorem filled_buckets_oldest:
  assumes "keccak_ok kk" "table_reach kk t"
  shows "set (map unat (filled_buckets t)) =
           {d. d < ADDRESS_BITS \<and> length (kb_bucket (kbuckets t ! d)) = BUCKET_SIZE} \<and>
         (\<forall>bno \<in> set (filled_buckets t). oldest t bno = Some (last (kb_bucket (kbuckets t ! unat bno))))"
proof -
  have inv: "table_inv kk t" using assms by (intro table_reach_inv)
  then have len: "length (kbuckets t) = 256"
    and le: "\<And>d. d < 256 \<Longrightarrow> length (kb_bucket (kbuckets t ! d)) \<le> 16"
    by (auto simp: table_inv_def bucket_ok_def kad_sizes)
  have u: "unat (word_of_nat d :: byte) = d" if "d < 256" for d
    using that by (simp add: unat_of_nat take_bit_eq_mod)
  have mem: "unat ` set (filled_buckets t) = {d. d < 256 \<and> length (kb_bucket (kbuckets t ! d)) = 16}"
    using len le u
    by (force simp: filled_buckets_def in_set_enumerate_eq image_iff kad_sizes dest: le_antisym)
  then have "set (map unat (filled_buckets t)) =
           {d. d < ADDRESS_BITS \<and> length (kb_bucket (kbuckets t ! d)) = BUCKET_SIZE}"
    by (simp add: kad_sizes)
  moreover have "\<forall>bno \<in> set (filled_buckets t). oldest t bno = Some (last (kb_bucket (kbuckets t ! unat bno)))"
  proof
    fix bno assume "bno \<in> set (filled_buckets t)"
    then have "unat bno \<in> unat ` set (filled_buckets t)" by (rule imageI)
    then have "kb_bucket (kbuckets t ! unat bno) \<noteq> []" unfolding mem by auto
    then show "oldest t bno = Some (last (kb_bucket (kbuckets t ! unat bno)))"
      by (simp add: oldest_def last_conv_nth Let_def)
  qed
  ultimately show ?thesis ..
qed

lemma table_reach_new: "table_reach kk (new_table kk i)"
  by (auto simp: table_reach_def intro: reach_init)

lemma table_reach_ops:
  assumes "table_reach kk t"
  shows "table_reach kk (add_verified kk t n)" "table_reach kk (add_seen kk t n)"
    "table_reach kk (table_remove kk t p)"
  using assms by (auto simp: table_reach_def intro: reach_step table_step.intros)

section \<open>Witnesses\<close>

text \<open>
  A concrete hash function for the closed instances below: the first 32 bytes, padded with
  zeros.
\<close>

definition demo_hash :: "bytes \<Rightarrow> h256" where
  "demo_hash x = take 32 (x @ replicate 32 0)"

lemma demo_hash_ok: "keccak_ok demo_hash"
  by (auto simp: keccak_ok_def demo_hash_def)

definition demo_node :: "byte \<Rightarrow> node_record" where
  "demo_node i = \<lparr>nr_address = V4 [10, 0, 0, i], nr_tcp_port = 30303, nr_udp_port = 30303,
                  nr_id = [128, i]\<rparr>"

definition demo_table :: "bytes \<Rightarrow> table" where
  "demo_table is = fold (\<lambda>i t. add_seen demo_hash t (demo_node i)) is (new_table demo_hash [])"

lemma demo_table_reach: "table_reach demo_hash (demo_table vs)"
proof -
  have "table_reach demo_hash t \<Longrightarrow>
      table_reach demo_hash (fold (\<lambda>i t. add_seen demo_hash t (demo_node i)) vs t)" for t
    by (induction vs arbitrary: t) (auto intro: table_reach_ops)
  then show ?thesis by (simp add: demo_table_def table_reach_new)
qed

lemma demo_logdistance: "id_hash t = demo_hash [] \<Longrightarrow> logdistance demo_hash t [128, i] = Some 255"
proof -
  have "leading_zeros 128 = 0" by code_simp
  moreover have "logdist_loop a b 32 = Some 255"
    if "a ! 0 XOR b ! 0 = 128" "leading_zeros 128 = 0" for a b
    using logdist_loop.simps(2) [of a b 31] that by (simp add: Let_def ADDRESS_BYTES_SIZE_def)
  ultimately show "id_hash t = demo_hash [] \<Longrightarrow> logdistance demo_hash t [128, i] = Some 255"
    by (simp add: logdistance_def ADDRESS_BYTES_SIZE_def demo_hash_def)
qed

lemma demo_table_props:
  "id_hash (demo_table vs) = demo_hash []" "length (kbuckets (demo_table vs)) = 256"
  "kbuckets (demo_table vs) ! 255 = fold (\<lambda>i. bucket_add_seen (demo_node i)) vs kbucket_default"
proof -
  have "id_hash t' = demo_hash [] \<and> length (kbuckets t') = 256 \<and>
      kbuckets t' ! 255 = fold (\<lambda>i. bucket_add_seen (demo_node i)) vs (kbuckets t ! 255)"
    if "id_hash t = demo_hash []" "length (kbuckets t) = 256"
      and "t' = fold (\<lambda>i t. add_seen demo_hash t (demo_node i)) vs t" for t t'
    using that
  proof (induction vs arbitrary: t)
    case Nil
    then show ?case by simp
  next
    case (Cons v vs)
    have "add_seen demo_hash t (demo_node v) = bucket_mut demo_hash t [128, v] (bucket_add_seen (demo_node v))"
      by (simp add: add_seen_def demo_node_def)
    moreover have "kbuckets (bucket_mut demo_hash t [128, v] (bucket_add_seen (demo_node v))) ! 255 =
        bucket_add_seen (demo_node v) (kbuckets t ! 255)"
      using Cons.prems by (simp add: kbuckets_bucket_mut demo_logdistance)
    ultimately show ?case
      using Cons.IH [of "add_seen demo_hash t (demo_node v)"] Cons.prems by simp
  qed
  from this [OF _ _ refl, of "new_table demo_hash []"]
  show "id_hash (demo_table vs) = demo_hash []" "length (kbuckets (demo_table vs)) = 256"
    "kbuckets (demo_table vs) ! 255 = fold (\<lambda>i. bucket_add_seen (demo_node i)) vs kbucket_default"
    by (simp_all add: demo_table_def new_table_def kad_sizes)
qed

theorem logdistance_correct_witness:
  "logdistance demo_hash (new_table demo_hash []) [1] = Some 248 \<and>
   2 ^ 248 \<le> be_val (xor_bytes (demo_hash []) (demo_hash [1]))"
proof -
  have d: "logdistance demo_hash (new_table demo_hash []) [1] = Some 248" by code_simp
  have "length (id_hash (new_table demo_hash [])) = 32" by code_simp
  from logdistance_correct [OF demo_hash_ok this, of "[1]"] d show ?thesis
    by (simp add: new_table_def)
qed

theorem table_invariant_witness: "length (kbuckets (demo_table [1, 2])) = ADDRESS_BITS"
  using table_invariant [OF demo_hash_ok demo_table_reach] by blast

theorem table_len_monotone_witness:
  "table_len (demo_table [1]) \<le> table_len (table_remove demo_hash (demo_table [1]) [128, 1])"
  by (rule table_len_monotone [OF demo_hash_ok demo_table_reach]) (blast intro: step_remove)

theorem add_verified_get_witness:
  "table_get demo_hash (add_verified demo_hash (demo_table [1]) (demo_node 2)) [128, 2] =
     Some (endpoint_of (demo_node 2))"
proof -
  have b: "table_bucket demo_hash (demo_table [1]) (nr_id (demo_node 2)) =
             Some \<lparr>kb_bucket = [demo_node 1], kb_replacements = []\<rparr>"
    by code_simp
  show ?thesis
    using add_verified_get [OF demo_hash_ok demo_table_reach _ b]
    by (simp add: demo_node_def kad_sizes)
qed

theorem neighbours_total_witness:
  "neighbours demo_hash (demo_table [1, 2]) [128, 1] = Some (Ok [demo_node 2])"
proof -
  have b: "table_bucket demo_hash (demo_table [1, 2]) [128, 1] =
             Some \<lparr>kb_bucket = [demo_node 1, demo_node 2], kb_replacements = []\<rparr>"
    by code_simp
  show ?thesis
    by (subst neighbours_total [OF demo_hash_ok demo_table_reach]) (simp add: b demo_node_def)
qed

theorem filled_buckets_oldest_witness:
  "set (map unat (filled_buckets (demo_table [1]))) =
     {d. d < ADDRESS_BITS \<and> length (kb_bucket (kbuckets (demo_table [1]) ! d)) = BUCKET_SIZE}"
  using filled_buckets_oldest [OF demo_hash_ok demo_table_reach] by blast

lemma fold_add_seen:
  "distinct (map nr_id (kb_bucket b @ ns)) \<Longrightarrow> length (kb_bucket b @ ns) \<le> BUCKET_SIZE \<Longrightarrow>
   fold bucket_add_seen ns b = b\<lparr>kb_bucket := kb_bucket b @ ns\<rparr>"
proof (induction ns arbitrary: b)
  case Nil
  then show ?case by simp
next
  case (Cons n ns)
  then have "find_peer_pos b (nr_id n) = None"
    by (auto simp: find_peer_pos_def find_pos_None)
  then have "bucket_add_seen n b = b\<lparr>kb_bucket := kb_bucket b @ [n]\<rparr>"
    using Cons.prems(2) by (simp add: bucket_add_seen_def)
  then show ?case using Cons.IH [of "bucket_add_seen n b"] Cons.prems by simp
qed

lemma add_seen_full:
  "nr_id n \<notin> nr_id ` set (kb_bucket b) \<Longrightarrow> length (kb_bucket b) = BUCKET_SIZE \<Longrightarrow>
   length (kb_replacements b) < REPLACEMENTS_SIZE \<Longrightarrow>
   bucket_add_seen n b = b\<lparr>kb_replacements := kb_replacements b @ [n]\<rparr>"
  using find_pos_None [of "kb_bucket b" "nr_id n"]
  by (simp add: bucket_add_seen_def push_replacement_def find_peer_pos_def)

lemma remove_first_two:
  "kb_bucket b = a # c # ns \<Longrightarrow> kb_replacements b = [n, n] \<Longrightarrow>
   kb_bucket (bucket_remove (nr_id c) (bucket_remove (nr_id a) b)) = ns @ [n, n]"
  by (simp add: bucket_remove_def find_peer_pos_def remove_at_def)

text \<open>
  C8. The ids of a bucket need not be distinct: \<open>push_replacement\<close> does not look whether the
  node is a replacement already, so a node seen twice while its bucket is full takes the
  place of two removed nodes. In the table reached here the last bucket has the node
  \<open>17\<close> twice.
\<close>

theorem bucket_duplicates:
  "\<exists>t. table_reach demo_hash t \<and> \<not> distinct (map nr_id (kb_bucket (kbuckets t ! 255)))"
proof -
  define vs where "vs = [1, 2, 3, 4, 5, 6, 7, 8, 9, 10, 11, 12, 13, 14, 15, 16 :: byte]"
  define t where "t = table_remove demo_hash (table_remove demo_hash (demo_table (vs @ [17, 17])) [128, 1]) [128, 2]"
  have "table_reach demo_hash t"
    unfolding t_def by (intro table_reach_ops demo_table_reach)
  moreover have "\<not> distinct (map nr_id (kb_bucket (kbuckets t ! 255)))"
  proof -
    let ?b = "\<lparr>kb_bucket = map demo_node vs, kb_replacements = []\<rparr>"
    have id: "nr_id (demo_node i) = [128, i]" for i by (simp add: demo_node_def)
    have "fold bucket_add_seen (map demo_node vs) kbucket_default = ?b"
      by (subst fold_add_seen) (simp_all add: kbucket_default_def demo_node_def vs_def kad_sizes)
    moreover have "bucket_add_seen (demo_node 17) (bucket_add_seen (demo_node 17) ?b) =
        ?b\<lparr>kb_replacements := [demo_node 17, demo_node 17]\<rparr>"
      by (subst (1 2) add_seen_full) (simp_all add: id vs_def kad_sizes)
    ultimately have "kbuckets t ! 255 = bucket_remove (nr_id (demo_node 2)) (bucket_remove (nr_id (demo_node 1))
        (?b\<lparr>kb_replacements := [demo_node 17, demo_node 17]\<rparr>))"
      by (simp only: t_def table_remove_def kbuckets_bucket_mut demo_logdistance demo_table_props
            id_hash_bucket_mut length_kbuckets_bucket_mut fold_append comp_def fold_Cons fold_Nil id id_apply
            fold_map [symmetric]) (simp add: fold_map comp_def)
    then have "kb_bucket (kbuckets t ! 255) = map demo_node (drop 2 vs) @ [demo_node 17, demo_node 17]"
      by (simp only:) (rule remove_first_two, simp_all add: vs_def)
    then show ?thesis by simp
  qed
  ultimately show ?thesis by blast
qed

end
