(* ===== verification/Rlp_Api.thy ===== *)
theory Rlp_Api
  imports Prelude
begin

text \<open>
  The interface of the \<^verbatim>\<open>rlp\<close> crate, a library the code uses and whose source is not part
  of the repository: a parameter of every definition that encodes or decodes. A
  \<open>RlpStream\<close> is what has been appended to it, an item of type \<open>rlp\<close>; \<open>rl_out\<close> gives its
  bytes. An \<open>Rlp\<close> value is a view of a byte string that starts with an item and may go on
  after it, so the readers take the byte string.

  \<open>rlp_ok\<close> is what the code relies on: reading back what was written gives the same value,
  whatever follows the item; a number below 128 is one byte; a short string or list has a
  header of at most nine bytes; a string or a number is not a list, so it has no items.
\<close>

datatype rlp = RData bytes | RUint nat | RList "rlp list"

record rlp_api =
  rl_out :: "rlp \<Rightarrow> bytes"                     \<comment> \<open>\<open>RlpStream::out\<close>\<close>
  rl_at :: "bytes \<Rightarrow> nat \<Rightarrow> bytes option"       \<comment> \<open>\<open>Rlp::at\<close>, and the iterator's \<open>next\<close>\<close>
  rl_list :: "bytes \<Rightarrow> bytes list option"       \<comment> \<open>\<open>Rlp::as_list\<close>: the items of a list\<close>
  rl_data :: "bytes \<Rightarrow> bytes option"            \<comment> \<open>\<open>Rlp::data\<close>\<close>
  rl_uint :: "nat \<Rightarrow> bytes \<Rightarrow> nat option"       \<comment> \<open>\<open>as_val\<close> of an unsigned integer of that many bits\<close>
  rl_hash :: "nat \<Rightarrow> bytes \<Rightarrow> bytes option"     \<comment> \<open>\<open>as_val\<close> of a fixed hash of that many bytes\<close>
  rl_bool :: "bytes \<Rightarrow> bool option"            \<comment> \<open>\<open>as_val\<close> of a \<open>bool\<close>, written as the number 0 or 1\<close>
  rl_size :: "bytes \<Rightarrow> nat"                     \<comment> \<open>\<open>Rlp::size\<close>: bytes of the payload of a string\<close>

definition rlp_ok :: "rlp_api \<Rightarrow> bool" where
  "rlp_ok R \<longleftrightarrow>
     (\<forall>xs r i. rl_at R (rl_out R (RList xs) @ r) i =
                 (if i < length xs then Some (rl_out R (xs ! i)) else None)) \<and>
     (\<forall>xs r. rl_list R (rl_out R (RList xs) @ r) = Some (map (rl_out R) xs)) \<and>
     (\<forall>d r. rl_data R (rl_out R (RData d) @ r) = Some d) \<and>
     (\<forall>w n r. n < 2 ^ w \<longrightarrow> rl_uint R w (rl_out R (RUint n) @ r) = Some n) \<and>
     (\<forall>d r. rl_hash R (length d) (rl_out R (RData d) @ r) = Some d) \<and>
     (\<forall>d r. rl_size R (rl_out R (RData d) @ r) = length d) \<and>
     (\<forall>n < 2 ^ 64. \<forall>r. rl_size R (rl_out R (RUint n) @ r) < 32) \<and>
     (\<forall>n < 128. length (rl_out R (RUint n)) = 1) \<and>
     (\<forall>d. length d < 2 ^ 16 \<longrightarrow> length (rl_out R (RData d)) \<le> length d + 9) \<and>
     (\<forall>xs. length (concat (map (rl_out R) xs)) < 2 ^ 16 \<longrightarrow>
              length (rl_out R (RList xs)) \<le> length (concat (map (rl_out R) xs)) + 9) \<and>
     (\<forall>n r i. rl_at R (rl_out R (RUint n) @ r) i = None) \<and>
     (\<forall>d r i. rl_at R (rl_out R (RData d) @ r) i = None) \<and>
     (\<forall>b r. rl_bool R (rl_out R (RUint (of_bool b)) @ r) = Some b)"

lemma rlp_okD:
  assumes "rlp_ok R"
  shows "rl_at R (rl_out R (RList xs) @ r) i = (if i < length xs then Some (rl_out R (xs ! i)) else None)"
    and "rl_list R (rl_out R (RList xs) @ r) = Some (map (rl_out R) xs)"
    and "rl_data R (rl_out R (RData d) @ r) = Some d"
    and "n < 2 ^ w \<Longrightarrow> rl_uint R w (rl_out R (RUint n) @ r) = Some n"
    and "length d = k \<Longrightarrow> rl_hash R k (rl_out R (RData d) @ r) = Some d"
    and "rl_size R (rl_out R (RData d) @ r) = length d"
    and "n < 2 ^ 64 \<Longrightarrow> rl_size R (rl_out R (RUint n) @ r) < 32"
    and "n < 128 \<Longrightarrow> length (rl_out R (RUint n)) = 1"
    and "length d < 2 ^ 16 \<Longrightarrow> length (rl_out R (RData d)) \<le> length d + 9"
    and "length (concat (map (rl_out R) xs)) < 2 ^ 16 \<Longrightarrow>
           length (rl_out R (RList xs)) \<le> length (concat (map (rl_out R) xs)) + 9"
    and "rl_at R (rl_out R (RUint n) @ r) i = None"
    and "rl_at R (rl_out R (RData d) @ r) i = None"
    and "rl_bool R (rl_out R (RUint (of_bool b)) @ r) = Some b"
  using assms unfolding rlp_ok_def by auto

text \<open>The same without a rest.\<close>

lemma rlp_okD_whole:
  assumes "rlp_ok R"
  shows "rl_at R (rl_out R (RList xs)) i = (if i < length xs then Some (rl_out R (xs ! i)) else None)"
    and "rl_list R (rl_out R (RList xs)) = Some (map (rl_out R) xs)"
    and "rl_data R (rl_out R (RData d)) = Some d"
    and "n < 2 ^ w \<Longrightarrow> rl_uint R w (rl_out R (RUint n)) = Some n"
    and "length d = k \<Longrightarrow> rl_hash R k (rl_out R (RData d)) = Some d"
    and "rl_size R (rl_out R (RData d)) = length d"
    and "n < 2 ^ 64 \<Longrightarrow> rl_size R (rl_out R (RUint n)) < 32"
    and "rl_at R (rl_out R (RUint n)) i = None"
    and "rl_at R (rl_out R (RData d)) i = None"
    and "rl_bool R (rl_out R (RUint (of_bool b))) = Some b"
  using rlp_okD(1-7,11-13) [OF assms, where r = "[]"] by auto

text \<open>\<open>Rlp::val_at\<close> and \<open>Rlp::list_at\<close>, given the decoder of the items.\<close>

definition val_at :: "rlp_api \<Rightarrow> (bytes \<Rightarrow> 'a option) \<Rightarrow> bytes \<Rightarrow> nat \<Rightarrow> 'a option" where
  "val_at R dec d i = Option.bind (rl_at R d i) dec"

definition list_at :: "rlp_api \<Rightarrow> (bytes \<Rightarrow> 'a option) \<Rightarrow> bytes \<Rightarrow> nat \<Rightarrow> 'a list option" where
  "list_at R dec d i = Option.bind (rl_at R d i) (\<lambda>l. Option.bind (rl_list R l) (\<lambda>xs. those (map dec xs)))"

text \<open>
  The contract of \<open>Encodable\<close> and \<open>Decodable\<close> on a type of the code: decoding a buffer that
  starts with an encoded well-formed value gives the value. \<open>ok\<close> is the hypothesis on the
  library. Sequences of values inherit it.
\<close>

locale rlp_codec =
  fixes ok :: bool
    and out :: "rlp \<Rightarrow> bytes"
    and items :: "bytes \<Rightarrow> bytes list option"
    and enc :: "'a \<Rightarrow> rlp"
    and dec :: "bytes \<Rightarrow> 'a option"
    and wf :: "'a \<Rightarrow> bool"
  assumes dec_enc: "ok \<Longrightarrow> wf a \<Longrightarrow> dec (out (enc a) @ r) = Some a"
    and items_out: "ok \<Longrightarrow> items (out (RList xs) @ r) = Some (map out xs)"
begin

lemma dec_enc_whole: "ok \<Longrightarrow> wf a \<Longrightarrow> dec (out (enc a)) = Some a"
  using dec_enc [of a "[]"] by simp

lemma those_map_dec: "ok \<Longrightarrow> \<forall>a \<in> set as. wf a \<Longrightarrow> those (map dec (map out (map enc as))) = Some as"
  by (induction as) (simp_all add: dec_enc_whole)

lemma list_dec_enc:
  "ok \<Longrightarrow> \<forall>a \<in> set as. wf a \<Longrightarrow>
   Option.bind (items (out (RList (map enc as)) @ r)) (\<lambda>xs. those (map dec xs)) = Some as"
  using those_map_dec [of as] by (simp add: items_out)

end

end
