(* ===== verification/Discv4_Msg.thy ===== *)
theory Discv4_Msg
  imports Discv4_Records Rlp_Api
begin

text \<open>
  The messages of the discovery protocol and their encodings, \<^verbatim>\<open>discv4/src/message.rs\<close> and
  \<^verbatim>\<open>discv4/src/proto.rs\<close>, over the interface of the \<^verbatim>\<open>rlp\<close> crate.
\<close>

section \<open>Records and endpoints\<close>

text \<open>The two lengths an address can have; \<open>RlpStream::append\<close> of the octets.\<close>

definition address_of :: "bytes \<Rightarrow> ip_addr option" where
  "address_of address_raw =
     (if length address_raw = 4 then Some (V4 address_raw)
      else if length address_raw = 16 then Some (V6 address_raw)
      else None)"

definition address_decode :: "rlp_api \<Rightarrow> bytes \<Rightarrow> ip_addr option" where
  "address_decode R d = Option.bind (val_at R (rl_data R) d 0) address_of"

definition u16_decode :: "rlp_api \<Rightarrow> bytes \<Rightarrow> u16 option" where
  "u16_decode R d = map_option word_of_nat (rl_uint R 16 d)"

definition u64_decode :: "rlp_api \<Rightarrow> bytes \<Rightarrow> u64 option" where
  "u64_decode R d = map_option word_of_nat (rl_uint R 64 d)"

definition node_record_rlp :: "node_record \<Rightarrow> rlp" where
  "node_record_rlp n = RList [RData (octets (nr_address n)), RUint (unat (nr_udp_port n)),
     RUint (unat (nr_tcp_port n)), RData (nr_id n)]"

definition node_record_decode :: "rlp_api \<Rightarrow> bytes \<Rightarrow> node_record option" where
  "node_record_decode R d =
     Option.bind (address_decode R d) (\<lambda>address.
     Option.bind (val_at R (u16_decode R) d 1) (\<lambda>udp_port.
     Option.bind (val_at R (u16_decode R) d 2) (\<lambda>tcp_port.
     Option.bind (val_at R (rl_hash R 64) d 3) (\<lambda>i.
     Some \<lparr>nr_address = address, nr_tcp_port = tcp_port, nr_udp_port = udp_port, nr_id = i\<rparr>))))"

definition endpoint_rlp :: "endpoint \<Rightarrow> rlp" where
  "endpoint_rlp e = RList [RData (octets (ep_address e)), RUint (unat (ep_udp_port e)), RUint (unat (ep_tcp_port e))]"

definition endpoint_decode :: "rlp_api \<Rightarrow> bytes \<Rightarrow> endpoint option" where
  "endpoint_decode R d =
     Option.bind (address_decode R d) (\<lambda>address.
     Option.bind (val_at R (u16_decode R) d 1) (\<lambda>udp_port.
     Option.bind (val_at R (u16_decode R) d 2) (\<lambda>tcp_port.
     Some \<lparr>ep_address = address, ep_udp_port = udp_port, ep_tcp_port = tcp_port\<rparr>)))"

section \<open>Messages\<close>

record find_node_message =
  fn_id :: node_id
  fn_expire :: u64

record neighbours_message =
  nb_nodes :: "node_record list"
  nb_expire :: u64

record ping_message =
  pi_from :: endpoint
  pi_to :: endpoint
  pi_expire :: u64

record pong_message =
  po_to :: endpoint
  po_echo :: h256
  po_expire :: u64

definition find_node_rlp :: "find_node_message \<Rightarrow> rlp" where
  "find_node_rlp m = RList [RData (fn_id m), RUint (unat (fn_expire m))]"

definition find_node_decode :: "rlp_api \<Rightarrow> bytes \<Rightarrow> find_node_message option" where
  "find_node_decode R d =
     Option.bind (val_at R (rl_hash R 64) d 0) (\<lambda>i.
     Option.bind (val_at R (u64_decode R) d 1) (\<lambda>expire.
     Some \<lparr>fn_id = i, fn_expire = expire\<rparr>))"

definition neighbours_rlp :: "neighbours_message \<Rightarrow> rlp" where
  "neighbours_rlp m = RList [RList (map node_record_rlp (nb_nodes m)), RUint (unat (nb_expire m))]"

definition neighbours_decode :: "rlp_api \<Rightarrow> bytes \<Rightarrow> neighbours_message option" where
  "neighbours_decode R d =
     Option.bind (list_at R (node_record_decode R) d 0) (\<lambda>nodes.
     Option.bind (val_at R (u64_decode R) d 1) (\<lambda>expire.
     Some \<lparr>nb_nodes = nodes, nb_expire = expire\<rparr>))"

text \<open>A ping starts with the version of the protocol, which the reader skips.\<close>

definition ping_rlp :: "ping_message \<Rightarrow> rlp" where
  "ping_rlp m = RList [RUint 4, endpoint_rlp (pi_from m), endpoint_rlp (pi_to m), RUint (unat (pi_expire m))]"

definition ping_decode :: "rlp_api \<Rightarrow> bytes \<Rightarrow> ping_message option" where
  "ping_decode R d =
     Option.bind (val_at R (endpoint_decode R) d 1) (\<lambda>from.
     Option.bind (val_at R (endpoint_decode R) d 2) (\<lambda>to.
     Option.bind (val_at R (u64_decode R) d 3) (\<lambda>expire.
     Some \<lparr>pi_from = from, pi_to = to, pi_expire = expire\<rparr>)))"

definition pong_rlp :: "pong_message \<Rightarrow> rlp" where
  "pong_rlp m = RList [endpoint_rlp (po_to m), RData (po_echo m), RUint (unat (po_expire m))]"

definition pong_decode :: "rlp_api \<Rightarrow> bytes \<Rightarrow> pong_message option" where
  "pong_decode R d =
     Option.bind (val_at R (endpoint_decode R) d 0) (\<lambda>to.
     Option.bind (val_at R (rl_hash R 32) d 1) (\<lambda>echo.
     Option.bind (val_at R (u64_decode R) d 2) (\<lambda>expire.
     Some \<lparr>po_to = to, po_echo = echo, po_expire = expire\<rparr>)))"

text \<open>\<open>MessageId\<close> and \<open>EgressMessage\<close>; a ping goes out with the channel that waits for its pong, or none.\<close>

datatype disc_message_id = PingId | PongId | FindNodeId | NeighboursId

definition disc_message_id_from_u8 :: "byte \<Rightarrow> disc_message_id option" where
  "disc_message_id_from_u8 b =
     (if b = 1 then Some PingId else if b = 2 then Some PongId else if b = 3 then Some FindNodeId
      else if b = 4 then Some NeighboursId else None)"

datatype 'cb egress_message =
    EPing ping_message "'cb option" | EPong pong_message | EFindNode find_node_message | ENeighbours neighbours_message

section \<open>Round trips\<close>

definition node_ok :: "node_record \<Rightarrow> bool" where
  "node_ok n \<longleftrightarrow> ip_wf (nr_address n) \<and> length (nr_id n) = 64"

lemma address_of_octets: "ip_wf a \<Longrightarrow> address_of (octets a) = Some a"
  by (cases a) (simp_all add: address_of_def)

lemma u16_dec_enc:
  assumes "rlp_ok R"
  shows "u16_decode R (rl_out R (RUint (unat (p :: u16)))) = Some p"
proof -
  have "unat p < 2 ^ 16" using unsigned_less [where w = p and 'a = nat] by simp
  then show ?thesis by (simp add: u16_decode_def rlp_okD_whole(4) [OF assms])
qed

lemma u64_dec_enc:
  assumes "rlp_ok R"
  shows "u64_decode R (rl_out R (RUint (unat (n :: u64)))) = Some n"
proof -
  have "unat n < 2 ^ 64" using unsigned_less [where w = n and 'a = nat] by simp
  then show ?thesis by (simp add: u64_decode_def rlp_okD_whole(4) [OF assms])
qed

lemma address_dec_enc:
  assumes "rlp_ok R" "ip_wf a"
  shows "address_decode R (rl_out R (RList (RData (octets a) # xs)) @ r) = Some a"
  by (simp add: address_decode_def val_at_def rlp_okD(1) [OF assms(1)] rlp_okD_whole(3) [OF assms(1)] address_of_octets assms(2))

lemmas disc_dec_enc = val_at_def list_at_def rlp_okD(1) rlp_okD_whole(5) u16_dec_enc u64_dec_enc address_dec_enc

interpretation node_codec: rlp_codec "rlp_ok R" "rl_out R" "rl_list R" node_record_rlp "node_record_decode R" node_ok for R
  by unfold_locales (simp_all add: node_record_rlp_def node_record_decode_def node_ok_def disc_dec_enc rlp_okD(2))

interpretation endpoint_codec: rlp_codec "rlp_ok R" "rl_out R" "rl_list R" endpoint_rlp "endpoint_decode R"
  "\<lambda>e. ip_wf (ep_address e)" for R
  by unfold_locales (simp_all add: endpoint_rlp_def endpoint_decode_def disc_dec_enc rlp_okD(2))

interpretation find_node_codec: rlp_codec "rlp_ok R" "rl_out R" "rl_list R" find_node_rlp "find_node_decode R"
  "\<lambda>m. length (fn_id m) = 64" for R
  by unfold_locales (simp_all add: find_node_rlp_def find_node_decode_def disc_dec_enc rlp_okD(2))

interpretation neighbours_codec: rlp_codec "rlp_ok R" "rl_out R" "rl_list R" neighbours_rlp "neighbours_decode R"
  "\<lambda>m. \<forall>n \<in> set (nb_nodes m). node_ok n" for R
proof
  fix m :: neighbours_message and r
  assume R: "rlp_ok R" and m: "\<forall>n \<in> set (nb_nodes m). node_ok n"
  have "Option.bind (rl_list R (rl_out R (RList (map node_record_rlp (nb_nodes m))))) (\<lambda>xs. those (map (node_record_decode R) xs)) =
      Some (nb_nodes m)"
    using node_codec.list_dec_enc [OF R m, of "[]"] by simp
  then show "neighbours_decode R (rl_out R (neighbours_rlp m) @ r) = Some m"
    by (simp add: neighbours_rlp_def neighbours_decode_def disc_dec_enc R)
qed (simp add: rlp_okD(2))

interpretation ping_codec: rlp_codec "rlp_ok R" "rl_out R" "rl_list R" ping_rlp "ping_decode R"
  "\<lambda>m. ip_wf (ep_address (pi_from m)) \<and> ip_wf (ep_address (pi_to m))" for R
  by unfold_locales (simp_all add: ping_rlp_def ping_decode_def disc_dec_enc endpoint_codec.dec_enc_whole rlp_okD(2))

interpretation pong_codec: rlp_codec "rlp_ok R" "rl_out R" "rl_list R" pong_rlp "pong_decode R"
  "\<lambda>m. ip_wf (ep_address (po_to m)) \<and> length (po_echo m) = 32" for R
  by unfold_locales (simp_all add: pong_rlp_def pong_decode_def disc_dec_enc endpoint_codec.dec_enc_whole rlp_okD(2))

end
