(* ===== verification/Crypto_Api.thy ===== *)
theory Crypto_Api
  imports Prelude
begin

text \<open>
  The cryptographic libraries the code calls (\<^verbatim>\<open>secp256k1\<close>, \<^verbatim>\<open>sha2\<close>, \<^verbatim>\<open>sha3\<close>, \<^verbatim>\<open>hmac\<close>,
  \<^verbatim>\<open>aes\<close>, \<^verbatim>\<open>aes-ctr\<close>), as a parameter: secret keys \<open>'sk\<close>, public keys \<open>'pk\<close> and the state of
  a stream cipher \<open>'c\<close> are opaque. A hasher is the string of the bytes it was fed, since
  \<open>update\<close> appends and \<open>finalize\<close> hashes the whole.

  \<open>crypto_ok\<close> is what the code relies on: serialised keys parse back, the key agreement is
  symmetric, a recoverable signature recovers the signer's key, decrypting with the state the
  encryptor had gives the plain text and the same next state, and the lengths are fixed.
\<close>

record ('sk, 'pk, 'c) crypto =
  cr_public :: "'sk \<Rightarrow> 'pk"                           \<comment> \<open>\<open>PublicKey::from_secret_key\<close>\<close>
  cr_serialize :: "'pk \<Rightarrow> bytes"                      \<comment> \<open>\<open>serialize_uncompressed\<close>\<close>
  cr_parse :: "bytes \<Rightarrow> 'pk option"                   \<comment> \<open>\<open>PublicKey::from_slice\<close>\<close>
  cr_shared :: "'pk \<Rightarrow> 'sk \<Rightarrow> bytes"                  \<comment> \<open>\<open>SharedSecret::new_with_hash\<close>, the x coordinate\<close>
  cr_sign :: "bytes \<Rightarrow> 'sk \<Rightarrow> byte \<times> bytes"           \<comment> \<open>\<open>sign_recoverable\<close>, \<open>serialize_compact\<close>\<close>
  cr_signature :: "bytes \<Rightarrow> byte \<Rightarrow> (byte \<times> bytes) option"
    \<comment> \<open>\<open>RecoveryId::from_i32\<close>, \<open>RecoverableSignature::from_compact\<close>\<close>
  cr_recover :: "bytes \<Rightarrow> byte \<times> bytes \<Rightarrow> 'pk option" \<comment> \<open>\<open>recover\<close>\<close>
  cr_sha256 :: "bytes \<Rightarrow> bytes"
  cr_keccak :: "bytes \<Rightarrow> bytes"
  cr_hmac :: "bytes \<Rightarrow> bytes \<Rightarrow> bytes"
  cr_ecb256 :: "bytes \<Rightarrow> bytes \<Rightarrow> bytes"             \<comment> \<open>one block of AES-256 in ECB mode\<close>
  cr_ctr128 :: "bytes \<Rightarrow> bytes \<Rightarrow> 'c"                \<comment> \<open>\<open>Aes128Ctr::new\<close>\<close>
  cr_ctr256 :: "bytes \<Rightarrow> bytes \<Rightarrow> 'c"                \<comment> \<open>\<open>Aes256Ctr::new\<close>\<close>
  cr_encrypt :: "'c \<Rightarrow> bytes \<Rightarrow> bytes \<times> 'c"
  cr_decrypt :: "'c \<Rightarrow> bytes \<Rightarrow> bytes \<times> 'c"

definition crypto_ok :: "('sk, 'pk, 'c) crypto \<Rightarrow> bool" where
  "crypto_ok C \<longleftrightarrow>
     (\<forall>k. length (cr_serialize C (cr_public C k)) = 65 \<and> cr_serialize C (cr_public C k) ! 0 = 4 \<and>
          cr_parse C (cr_serialize C (cr_public C k)) = Some (cr_public C k)) \<and>
     (\<forall>a b. cr_shared C (cr_public C a) b = cr_shared C (cr_public C b) a \<and>
            length (cr_shared C (cr_public C a) b) = 32) \<and>
     (\<forall>m k. length m = 32 \<longrightarrow>
        length (snd (cr_sign C m k)) = 64 \<and>
        Option.bind (cr_signature C (snd (cr_sign C m k)) (fst (cr_sign C m k))) (cr_recover C m) =
          Some (cr_public C k)) \<and>
     (\<forall>x. length (cr_sha256 C x) = 32) \<and> (\<forall>x. length (cr_keccak C x) = 32) \<and>
     (\<forall>k x. length (cr_hmac C k x) = 32) \<and>
     (\<forall>k x. length x = 16 \<longrightarrow> length (cr_ecb256 C k x) = 16) \<and>
     (\<forall>c x. length (fst (cr_encrypt C c x)) = length x) \<and>
     (\<forall>c x. length (fst (cr_decrypt C c x)) = length x) \<and>
     (\<forall>c x. cr_decrypt C c (fst (cr_encrypt C c x)) = (x, snd (cr_encrypt C c x)))"

lemma crypto_okD:
  assumes "crypto_ok C"
  shows "length (cr_serialize C (cr_public C k)) = 65" "cr_serialize C (cr_public C k) ! 0 = 4"
    "cr_parse C (cr_serialize C (cr_public C k)) = Some (cr_public C k)"
    "length (cr_shared C (cr_public C a) b) = 32"
    "length m = 32 \<Longrightarrow> length (snd (cr_sign C m k)) = 64"
    "length m = 32 \<Longrightarrow>
       Option.bind (cr_signature C (snd (cr_sign C m k)) (fst (cr_sign C m k))) (cr_recover C m) =
         Some (cr_public C k)"
    "length (cr_sha256 C x) = 32" "length (cr_keccak C x) = 32" "length (cr_hmac C key x) = 32"
    "length x = 16 \<Longrightarrow> length (cr_ecb256 C key x) = 16"
    "length (fst (cr_encrypt C c x)) = length x" "length (fst (cr_decrypt C c x)) = length x"
    "cr_decrypt C c (fst (cr_encrypt C c x)) = (x, snd (cr_encrypt C c x))"
  using assms unfolding crypto_ok_def by auto

lemma cr_shared_sym:
  "crypto_ok C \<Longrightarrow> cr_shared C (cr_public C a) b = cr_shared C (cr_public C b) a"
  unfolding crypto_ok_def by blast

text \<open>
  \<^verbatim>\<open>devp2p/src/util.rs\<close> and \<^verbatim>\<open>discv4/src/util.rs\<close>: the node id of a public key is its
  uncompressed form without the first byte, and back.
\<close>

definition pk2id :: "('sk, 'pk, 'c) crypto \<Rightarrow> 'pk \<Rightarrow> bytes" where
  "pk2id C pk = drop 1 (cr_serialize C pk)"

definition id2pk :: "('sk, 'pk, 'c) crypto \<Rightarrow> bytes \<Rightarrow> 'pk option" where
  "id2pk C i = cr_parse C (4 # i)"

definition hmac_sha256 :: "('sk, 'pk, 'c) crypto \<Rightarrow> bytes \<Rightarrow> bytes list \<Rightarrow> bytes \<Rightarrow> bytes" where
  "hmac_sha256 C key input auth_data = cr_hmac C key (concat input @ auth_data)"

lemma length_pk2id: "crypto_ok C \<Longrightarrow> length (pk2id C (cr_public C k)) = 64"
  by (simp add: pk2id_def crypto_okD)

lemma id2pk_pk2id: "crypto_ok C \<Longrightarrow> id2pk C (pk2id C (cr_public C k)) = Some (cr_public C k)"
proof -
  assume ok: "crypto_ok C"
  have "4 # drop 1 (cr_serialize C (cr_public C k)) = cr_serialize C (cr_public C k)"
    using crypto_okD(1,2) [OF ok, of k] by (cases "cr_serialize C (cr_public C k)") auto
  then show ?thesis by (simp add: id2pk_def pk2id_def crypto_okD(3) [OF ok])
qed

end
