(* ===== verification/Api_Instances.thy ===== *)
theory Api_Instances
  imports Rlp_Api Crypto_Api
begin

text \<open>
  Concrete instances of the library interfaces, for the witnesses: they show that the hypotheses
  \<open>rlp_ok\<close> and \<open>crypto_ok\<close> can hold, and the witnesses of the properties use them. The item
  format is a tag, the number of length bytes in unary, the length and the payload, with a number
  below 128 as its own byte; the cryptography is a toy.
\<close>

section \<open>A format of items\<close>

fun digits256 :: "nat \<Rightarrow> bytes" where
  "digits256 n = (if n = 0 then [] else digits256 (n div 256) @ [word_of_nat n])"

declare digits256.simps [simp del]

lemma be_val_snoc: "be_val (xs @ [b]) = be_val xs * 256 + unat b"
  by (induction xs) (simp_all add: algebra_simps)

lemma be_val_digits256 [simp]: "be_val (digits256 n) = n"
proof (induction n rule: digits256.induct)
  case (1 n)
  have "unat (word_of_nat n :: byte) = n mod 256" by (simp add: unat_of_nat take_bit_eq_mod)
  then show ?case using 1 by (subst digits256.simps) (simp add: be_val_snoc)
qed

lemma length_digits256: "n < 256 ^ k \<Longrightarrow> length (digits256 n) \<le> k"
proof (induction k arbitrary: n)
  case 0
  then show ?case by (simp add: digits256.simps)
next
  case (Suc k)
  then show ?case by (subst digits256.simps) (simp add: less_mult_imp_div_less mult.commute)
qed

definition tagged :: "byte \<Rightarrow> bytes \<Rightarrow> bytes" where
  "tagged t p = (let ds = digits256 (length p) in t # replicate (length ds) 1 @ 0 # ds @ p)"

lemma length_tagged: "length p < 256 ^ k \<Longrightarrow> length (tagged t p) \<le> length p + 2 + 2 * k"
  using length_digits256 [of "length p" k] by (simp add: tagged_def Let_def)

text \<open>Reading: the tag, the payload and what follows the first item.\<close>

definition untag :: "bytes \<Rightarrow> byte \<times> bytes \<times> bytes" where
  "untag bs = (case bs of
     [] \<Rightarrow> (0, [], [])
   | t # r \<Rightarrow>
       if t < 128 then (t, [t], r)
       else let k = length (takeWhile (\<lambda>b. b = 1) r);
                n = be_val (take k (drop (k + 1) r))
            in (t, take n (drop (2 * k + 1) r), drop n (drop (2 * k + 1) r)))"

lemma length_ones: "length (takeWhile (\<lambda>b. b = 1) (replicate n (1 :: byte) @ 0 # z)) = n"
  by (induction n) auto

lemma untag_tagged [simp]:
  assumes "128 \<le> t"
  shows "untag (tagged t p @ r) = (t, p, r)"
proof -
  define ds where "ds = digits256 (length p)"
  define y where "y = replicate (length ds) (1 :: byte) @ 0 # ds @ p @ r"
  have k: "length (takeWhile (\<lambda>b. b = 1) y) = length ds"
    unfolding y_def by (rule length_ones)
  have "take (length ds) (drop (length ds + 1) y) = ds" "drop (2 * length ds + 1) y = p @ r"
    by (simp_all add: y_def)
  moreover have "tagged t p @ r = t # y" by (simp add: tagged_def Let_def ds_def y_def)
  moreover have "be_val ds = length p" by (simp add: ds_def)
  moreover have "\<not> t < 128" using assms by (simp add: not_less)
  ultimately show ?thesis using k by (simp add: untag_def Let_def del: drop_drop)
qed

lemma untag_tagged_whole [simp]: "128 \<le> t \<Longrightarrow> untag (tagged t p) = (t, p, [])"
  using untag_tagged [of t p "[]"] by simp

lemma length_untag: "length (snd (snd (untag (b # bs)))) \<le> length bs"
  by (simp add: untag_def Let_def)

fun demo_out :: "rlp \<Rightarrow> bytes" where
  "demo_out (RData d) = tagged 130 d"
| "demo_out (RUint n) = (if n < 128 then [word_of_nat n] else tagged 129 (digits256 n))"
| "demo_out (RList xs) = tagged 131 (concat (map demo_out xs))"

function items_of :: "bytes \<Rightarrow> bytes list" where
  "items_of [] = []"
| "items_of (b # bs) =
     (let r = snd (snd (untag (b # bs)))
      in take (length (b # bs) - length r) (b # bs) # items_of r)"
  by pat_completeness auto
termination
  by (relation "measure length") (auto simp: length_untag less_Suc_eq_le)

lemma small_byte: "n < 128 \<Longrightarrow> (word_of_nat n :: byte) < 128"
  by (simp add: word_less_nat_alt unat_of_nat take_bit_eq_mod)

lemma untag_small: "n < 128 \<Longrightarrow> untag (word_of_nat n # r) = (word_of_nat n, [word_of_nat n], r)"
  by (simp add: untag_def small_byte)

lemma untag_out: "snd (snd (untag (demo_out x @ r))) = r"
  by (cases x) (auto simp: untag_small)

lemma demo_out_Cons: "\<exists>b bs. demo_out x = b # bs"
  by (cases x) (auto simp: tagged_def Let_def)

lemma items_of_out: "items_of (concat (map demo_out xs)) = map demo_out xs"
proof (induction xs)
  case Nil
  then show ?case by simp
next
  case (Cons x xs)
  obtain b bs where x: "demo_out x = b # bs" using demo_out_Cons [of x] by blast
  have "snd (snd (untag (b # bs @ concat (map demo_out xs)))) = concat (map demo_out xs)"
    using untag_out [of x] x by simp
  then show ?case using Cons x by (simp add: Let_def)
qed

definition demo_rlp :: rlp_api where
  "demo_rlp =
     \<lparr>rl_out = demo_out,
      rl_at = (\<lambda>b i. case untag b of (t, p, _) \<Rightarrow>
         if t = 131 \<and> i < length (items_of p) then Some (items_of p ! i) else None),
      rl_list = (\<lambda>b. case untag b of (t, p, _) \<Rightarrow> if t = 131 then Some (items_of p) else None),
      rl_data = (\<lambda>b. case untag b of (t, p, _) \<Rightarrow> if t = 130 then Some p else None),
      rl_uint = (\<lambda>w b. case untag b of (t, p, _) \<Rightarrow>
         if (t < 128 \<or> t = 129) \<and> be_val p < 2 ^ w then Some (be_val p) else None),
      rl_hash = (\<lambda>k b. case untag b of (t, p, _) \<Rightarrow> if t = 130 \<and> length p = k then Some p else None),
      rl_bool = (\<lambda>b. case untag b of (t, p, _) \<Rightarrow> if t < 128 then Some (t \<noteq> 0) else None),
      rl_size = (\<lambda>b. case untag b of (t, p, _) \<Rightarrow> length p)\<rparr>"

lemma be_val_one [simp]: "be_val [b] = unat b"
  by simp

lemma unat_small: "n < 128 \<Longrightarrow> unat (word_of_nat n :: byte) = n"
  by (simp add: unat_of_nat take_bit_eq_mod)

lemma small_not_list: "n < 128 \<Longrightarrow> (word_of_nat n :: byte) \<noteq> 131"
  using small_byte [of n] by auto

lemma small_bool: "untag (1 # r) = (1, [1], r)" "untag (0 # r) = (0, [0], r)"
  by (simp_all add: untag_def)

lemma demo_uint: "n < 2 ^ w \<Longrightarrow> rl_uint demo_rlp w (demo_out (RUint n) @ r) = Some n"
  by (simp add: demo_rlp_def untag_small small_byte unat_small)

lemma demo_uint_size: "n < 2 ^ 64 \<Longrightarrow> rl_size demo_rlp (demo_out (RUint n) @ r) < 32"
  using length_digits256 [of n 8] by (simp add: demo_rlp_def untag_small)

lemma demo_rlp_ok: "rlp_ok demo_rlp"
  unfolding rlp_ok_def
proof (intro conjI allI impI)
  show "rl_uint demo_rlp w (rl_out demo_rlp (RUint n) @ r) = Some n" if "n < 2 ^ w" for w n r
    using demo_uint [OF that] by (simp add: demo_rlp_def)
  show "rl_size demo_rlp (rl_out demo_rlp (RUint n) @ r) < 32" if "n < 2 ^ 64" for n r
    using demo_uint_size [OF that] by (simp add: demo_rlp_def)
  show "length (rl_out demo_rlp (RData d)) \<le> length d + 9" if "length d < 2 ^ 16" for d
    using length_tagged [of d 2 130] that by (simp add: demo_rlp_def)
  show "length (rl_out demo_rlp (RList xs)) \<le> length (concat (map (rl_out demo_rlp) xs)) + 9"
    if "length (concat (map (rl_out demo_rlp) xs)) < 2 ^ 16" for xs
    using length_tagged [of "concat (map demo_out xs)" 2 131] that by (simp add: demo_rlp_def)
qed (simp_all add: demo_rlp_def items_of_out untag_small small_not_list small_bool)

section \<open>A toy cryptography\<close>

definition demo_crypto :: "(byte, byte, unit) crypto" where
  "demo_crypto =
     \<lparr>cr_public = id,
      cr_serialize = (\<lambda>k. 4 # k # replicate 63 0),
      cr_parse = (\<lambda>b. if length b = 65 then Some (b ! 1) else None),
      cr_shared = (\<lambda>a b. replicate 32 (a XOR b)),
      cr_sign = (\<lambda>m k. (0, k # replicate 63 0)),
      cr_signature = (\<lambda>s r. Some (r, s)),
      cr_recover = (\<lambda>m (r, s). Some (s ! 0)),
      cr_sha256 = (\<lambda>x. replicate 32 (sum_list x)),
      cr_keccak = (\<lambda>x. replicate 32 (sum_list x)),
      cr_hmac = (\<lambda>k x. replicate 32 (sum_list k + sum_list x)),
      cr_ecb256 = (\<lambda>k x. x),
      cr_ctr128 = (\<lambda>k iv. ()),
      cr_ctr256 = (\<lambda>k iv. ()),
      cr_encrypt = (\<lambda>c x. (map (\<lambda>b. b XOR 90) x, c)),
      cr_decrypt = (\<lambda>c x. (map (\<lambda>b. b XOR 90) x, c))\<rparr>"

lemma toy_cipher: "map (\<lambda>b. b XOR 90) (map (\<lambda>b. b XOR 90) x) = x" for x :: bytes
  by (induction x) (simp_all add: xor.assoc)

lemma demo_crypto_ok: "crypto_ok demo_crypto"
  unfolding crypto_ok_def demo_crypto_def
  by (simp add: toy_cipher del: map_map) (simp add: xor.commute)

end
