(* ===== verification/Discv4_Node.thy ===== *)
theory Discv4_Node
  imports Kademlia Discv4_Msg Api_Instances
begin

text \<open>
  The node of the discovery protocol, \<^verbatim>\<open>discv4/src/node.rs\<close>: the datagrams, the egress router, the
  ingress router, the timeout of a ping and the pending requests for neighbours. The tasks share the
  state below under locks; a step of the model is what a task does between two waits. What a handler
  hands to other tasks or to the socket is the list of its effects, in order; \<open>'cb\<close> stands for the
  sending end of a channel.
\<close>

definition MAX_PACKET_SIZE :: nat where "MAX_PACKET_SIZE = 1280"
definition ALPHA :: nat where "ALPHA = 3"

text \<open>When a message expires; the clock counts seconds in 64 bits with a sign.\<close>

definition PING_TIMEOUT :: u64 where "PING_TIMEOUT = 5"
definition FIND_NODE_TIMEOUT :: u64 where "FIND_NODE_TIMEOUT = 10"

definition expiry :: "int \<Rightarrow> u64 \<Rightarrow> (unit, u64) outcome" where
  "expiry now timeout = (if now < 0 then Panic else Ok (word_of_int now + timeout))"

definition ping_expiry :: "int \<Rightarrow> (unit, u64) outcome" where "ping_expiry now = expiry now PING_TIMEOUT"
definition find_node_expiry :: "int \<Rightarrow> (unit, u64) outcome" where "find_node_expiry now = expiry now FIND_NODE_TIMEOUT"

lemma expiry_exact:
  assumes "0 \<le> now" "now < 2 ^ 63" "uint timeout < 2 ^ 63"
  shows "\<exists>e. expiry now timeout = Ok e \<and> uint e = now + uint timeout"
proof -
  have "uint (word_of_int now :: u64) = now" using assms(1,2) by (simp add: uint_word_of_int)
  then have "uint (word_of_int now + timeout) = now + uint timeout"
    using assms(2,3) by (subst uint_plus_simple_iff [THEN iffD1]) (simp_all add: no_olen_add)
  then show ?thesis using assms(1) by (simp add: expiry_def)
qed

section \<open>Datagrams\<close>

text \<open>The payload of a message: its number and its encoding.\<close>

fun egress_payload :: "rlp_api \<Rightarrow> 'cb egress_message \<Rightarrow> bytes" where
  "egress_payload R (EPing m _) = 1 # rl_out R (ping_rlp m)"
| "egress_payload R (EPong m) = 2 # rl_out R (pong_rlp m)"
| "egress_payload R (EFindNode m) = 3 # rl_out R (find_node_rlp m)"
| "egress_payload R (ENeighbours m) = 4 # rl_out R (neighbours_rlp m)"

text \<open>The hash of a datagram, and the datagram: hash, signature, recovery id, payload.\<close>

definition seal :: "('sk, 'pk, 'c) crypto \<Rightarrow> 'sk \<Rightarrow> bytes \<Rightarrow> h256 \<times> bytes" where
  "seal C secret_key payload =
     (let (rec, sig) = cr_sign C (cr_keccak C payload) secret_key;
          sig_bytes = sig @ [rec] @ payload;
          hash = cr_keccak C sig_bytes
      in (hash, hash @ sig_bytes))"

datatype ingress_error = Ipv6Unsupported | TooShort | HashMismatch | BadSignature | BadRlp | BadType

text \<open>\<open>recv_from\<close> cuts a datagram at the size of its buffer. The checks of the ingress router, in order.\<close>

definition open_datagram :: "('sk, 'pk, 'c) crypto \<Rightarrow> sock_addr \<Rightarrow> bytes
    \<Rightarrow> (ingress_error, h256 \<times> node_id \<times> byte \<times> bytes) outcome" where
  "open_datagram C addr datagram =
     (let buf = take MAX_PACKET_SIZE datagram
      in if is_ipv6 (fst addr) then Err Ipv6Unsupported
         else if length buf < 32 + 65 + 1 then Err TooShort
         else let hash = cr_keccak C (drop 32 buf)
              in if take 32 buf \<noteq> hash then Err HashMismatch
                 else bind_outcome (of_option BadSignature
                        (Option.bind (cr_signature C (take 64 (drop 32 buf)) (buf ! 96))
                          (cr_recover C (cr_keccak C (drop 97 buf))))) (\<lambda>public_key.
                      Ok (hash, pk2id C public_key, buf ! 97, drop 98 buf)))"

section \<open>State and effects\<close>

record 'cb disc_node =
  dn_connected :: table
  dn_endpoint :: endpoint
  dn_inflight_pings :: "(h256 \<times> 'cb list) list"
  dn_expected_pings :: "(sock_addr \<times> (u64 \<times> 'cb) list) list"
  dn_inflight_find :: "(node_id \<times> (u64 \<times> 'cb) list) list"
  dn_timers :: "(h256 \<times> node_id) list"

datatype 'cb effect =
    Request sock_addr node_id "'cb egress_message"  \<comment> \<open>to the egress router\<close>
  | Datagram sock_addr bytes
  | Fire 'cb                                        \<comment> \<open>\<open>cb.send(())\<close>\<close>
  | Deliver 'cb neighbours_message                  \<comment> \<open>\<open>cb.send(message)\<close>\<close>
  | Forget 'cb                                      \<comment> \<open>the sender is dropped, its receiver fails\<close>

text \<open>\<open>Table::new\<close>, and the bootstrap nodes added to it.\<close>

definition new_node :: "(bytes \<Rightarrow> h256) \<Rightarrow> node_id \<Rightarrow> endpoint \<Rightarrow> node_record list \<Rightarrow> 'cb disc_node" where
  "new_node kk i e bootstrap_nodes =
     \<lparr>dn_connected = fold (\<lambda>n t. add_verified kk t n) bootstrap_nodes (new_table kk i), dn_endpoint = e,
      dn_inflight_pings = [], dn_expected_pings = [], dn_inflight_find = [], dn_timers = []\<rparr>"

text \<open>
  The endpoint a node starts with: a public address that was given, else the address it listens on. The
  UPnP task asks the gateway for the external address from time to time; it may fail.
\<close>

definition start_endpoint :: "sock_addr \<Rightarrow> ip_addr option \<Rightarrow> u16 \<Rightarrow> endpoint" where
  "start_endpoint addr public_address tcp_port =
     \<lparr>ep_address = (case public_address of Some a \<Rightarrow> a | None \<Rightarrow> fst addr), ep_udp_port = snd addr, ep_tcp_port = tcp_port\<rparr>"

definition upnp_round :: "ip_addr option \<Rightarrow> 'cb disc_node \<Rightarrow> 'cb disc_node" where
  "upnp_round external_ip s =
     (case external_ip of Some v \<Rightarrow> s\<lparr>dn_endpoint := (dn_endpoint s)\<lparr>ep_address := v\<rparr>\<rparr> | None \<Rightarrow> s)"

section \<open>The egress router\<close>

text \<open>
  \<open>sent\<close> says whether the socket takes the datagram. A ping whose hash is already in flight joins the
  ones that wait for it and is not sent again.
\<close>

definition dropped :: "'cb egress_message \<Rightarrow> 'cb effect list" where
  "dropped m = (case m of EPing _ (Some cb) \<Rightarrow> [Forget cb] | _ \<Rightarrow> [])"

definition egress_route :: "('sk, 'pk, 'c) crypto \<Rightarrow> rlp_api \<Rightarrow> 'sk \<Rightarrow> node_id \<Rightarrow> bool
    \<Rightarrow> sock_addr \<times> node_id \<times> 'cb egress_message \<Rightarrow> 'cb disc_node \<Rightarrow> 'cb effect list \<times> 'cb disc_node" where
  "egress_route C R secret_key own sent request s =
     (case request of (addr, peer, m) \<Rightarrow>
        if peer = own then (dropped m, s)
        else let (hash, datagram) = seal C secret_key (egress_payload R m)
             in case m of
                  EPing _ sender \<Rightarrow>
                    let old = map_of (dn_inflight_pings s) hash;
                        cbs = (case old of None \<Rightarrow> [] | Some cbs \<Rightarrow> cbs) @ (case sender of None \<Rightarrow> [] | Some cb \<Rightarrow> [cb]);
                        s1 = s\<lparr>dn_inflight_pings := AList.update hash cbs (dn_inflight_pings s)\<rparr>
                    in if old \<noteq> None then ([], s1)
                       else if sent then ([Datagram addr datagram], s1\<lparr>dn_timers := (hash, peer) # dn_timers s1\<rparr>)
                       else ([], s1)
                | _ \<Rightarrow> (if sent then [Datagram addr datagram] else [], s))"

text \<open>The task that wakes up \<open>PING_TIMEOUT\<close> after a ping has been sent.\<close>

definition ping_timeout :: "(bytes \<Rightarrow> h256) \<Rightarrow> h256 \<Rightarrow> node_id \<Rightarrow> 'cb disc_node \<Rightarrow> 'cb effect list \<times> 'cb disc_node" where
  "ping_timeout kk hash peer s =
     (let s1 = s\<lparr>dn_timers := remove1 (hash, peer) (dn_timers s)\<rparr>
      in case map_of (dn_inflight_pings s) hash of
           None \<Rightarrow> ([], s1)
         | Some cbs \<Rightarrow> (map Forget cbs,
             s1\<lparr>dn_inflight_pings := AList.delete hash (dn_inflight_pings s),
                dn_connected := table_remove kk (dn_connected s) peer\<rparr>))"

section \<open>Pending requests for neighbours\<close>

text \<open>
  \<open>InflightFindNode::add\<close> draws request ids until one is free: the argument is the ids it draws.
  \<open>None\<close>: none of them is free, the loop goes on.
\<close>

definition inflight_add :: "u64 list \<Rightarrow> node_id \<Rightarrow> 'cb \<Rightarrow> (node_id \<times> (u64 \<times> 'cb) list) list
    \<Rightarrow> (u64 \<times> (node_id \<times> (u64 \<times> 'cb) list) list) option" where
  "inflight_add ids node_id sender inner =
     (let node_data = (case map_of inner node_id of None \<Rightarrow> [] | Some d \<Rightarrow> d)
      in map_option (\<lambda>request_id. (request_id, AList.update node_id ((request_id, sender) # node_data) inner))
           (find (\<lambda>i. map_of node_data i = None) ids))"

definition inflight_get :: "node_id \<Rightarrow> (node_id \<times> (u64 \<times> 'cb) list) list \<Rightarrow> 'cb list" where
  "inflight_get node_id inner = (case map_of inner node_id of None \<Rightarrow> [] | Some cbs \<Rightarrow> map snd cbs)"

text \<open>\<open>InflightFindNodeRequestGuard::drop\<close>.\<close>

definition inflight_drop :: "node_id \<Rightarrow> u64 \<Rightarrow> (node_id \<times> (u64 \<times> 'cb) list) list
    \<Rightarrow> (unit, (node_id \<times> (u64 \<times> 'cb) list) list) outcome" where
  "inflight_drop node_id request_id inner =
     (case map_of inner node_id of
        None \<Rightarrow> Panic
      | Some cbs \<Rightarrow>
          if map_of cbs request_id = None then Panic
          else let cbs' = AList.delete request_id cbs
               in Ok (if cbs' = [] then AList.delete node_id inner else AList.update node_id cbs' inner))"

section \<open>The ingress router\<close>

type_synonym 'cb reaction = "(ingress_error, 'cb effect list) outcome \<times> 'cb disc_node"

text \<open>
  A ping: the table takes its sender and a pong is asked for; once the egress router has taken it, those
  who expect a ping from the address are told. Other tasks may run between the two.
\<close>

definition ping_received :: "(bytes \<Rightarrow> h256) \<Rightarrow> node_id \<Rightarrow> ping_message \<Rightarrow> 'cb disc_node \<Rightarrow> 'cb disc_node" where
  "ping_received kk remote_id ping_data s =
     (let from = pi_from ping_data;
          node = \<lparr>nr_address = ep_address from, nr_tcp_port = ep_udp_port from, nr_udp_port = ep_udp_port from, nr_id = remote_id\<rparr>
      in s\<lparr>dn_connected := add_verified kk (dn_connected s) node\<rparr>)"

definition ping_expected :: "sock_addr \<Rightarrow> 'cb disc_node \<Rightarrow> 'cb effect list \<times> 'cb disc_node" where
  "ping_expected addr s =
     (case map_of (dn_expected_pings s) addr of
        None \<Rightarrow> ([], s)
      | Some cbs \<Rightarrow> (map (\<lambda>(_, cb). Fire cb) cbs, s\<lparr>dn_expected_pings := AList.delete addr (dn_expected_pings s)\<rparr>))"

definition on_ping :: "(bytes \<Rightarrow> h256) \<Rightarrow> sock_addr \<Rightarrow> node_id \<Rightarrow> h256 \<Rightarrow> ping_message \<Rightarrow> 'cb disc_node \<Rightarrow> 'cb reaction" where
  "on_ping kk addr remote_id hash ping_data s =
     (let pong = \<lparr>po_to = pi_from ping_data, po_echo = hash, po_expire = pi_expire ping_data\<rparr>;
          (fired, s) = ping_expected addr (ping_received kk remote_id ping_data s)
      in (Ok (Request addr remote_id (EPong pong) # fired), s))"

lemma on_ping_effect:
  "on_ping kk addr remote_id hash ping_data s =
     (Ok (Request addr remote_id (EPong \<lparr>po_to = pi_from ping_data, po_echo = hash, po_expire = pi_expire ping_data\<rparr>) #
        map (\<lambda>(_, cb). Fire cb) (case map_of (dn_expected_pings s) addr of None \<Rightarrow> [] | Some cbs \<Rightarrow> cbs)),
      (ping_received kk remote_id ping_data s)\<lparr>dn_expected_pings := AList.delete addr (dn_expected_pings s)\<rparr>)"
proof (cases "map_of (dn_expected_pings s) addr")
  case None
  then have "AList.delete addr (dn_expected_pings s) = dn_expected_pings s" by (simp add: map_of_eq_None_iff delete_idem)
  then show ?thesis using None by (simp add: on_ping_def ping_expected_def ping_received_def Let_def)
next
  case (Some cbs)
  then show ?thesis by (simp add: on_ping_def ping_expected_def ping_received_def Let_def)
qed

definition on_pong :: "pong_message \<Rightarrow> 'cb disc_node \<Rightarrow> 'cb reaction" where
  "on_pong message s =
     (case map_of (dn_inflight_pings s) (po_echo message) of
        None \<Rightarrow> (Ok [], s)
      | Some cbs \<Rightarrow>
          (Ok (map Fire cbs),
           s\<lparr>dn_inflight_pings := AList.delete (po_echo message) (dn_inflight_pings s),
             dn_endpoint := (dn_endpoint s)\<lparr>ep_address := ep_address (po_to message), ep_udp_port := ep_udp_port (po_to message)\<rparr>\<rparr>))"

definition on_find_node :: "(bytes \<Rightarrow> h256) \<Rightarrow> sock_addr \<Rightarrow> node_id \<Rightarrow> find_node_message \<Rightarrow> 'cb disc_node \<Rightarrow> 'cb reaction" where
  "on_find_node kk addr remote_id message s =
     (if table_get kk (dn_connected s) remote_id \<noteq> None
      then (case neighbours kk (dn_connected s) remote_id of
              None \<Rightarrow> (Ok [], s)
            | Some r \<Rightarrow>
                (bind_outcome r (\<lambda>nodes.
                 Ok [Request addr remote_id (ENeighbours \<lparr>nb_nodes = nodes, nb_expire = fn_expire message\<rparr>)]), s))
      else (Ok [], s))"

definition on_neighbours :: "(bytes \<Rightarrow> h256) \<Rightarrow> node_id \<Rightarrow> neighbours_message option \<Rightarrow> 'cb disc_node \<Rightarrow> 'cb reaction" where
  "on_neighbours kk remote_id decoded s =
     (let cbs = inflight_get remote_id (dn_inflight_find s)
      in if cbs = [] then (Ok [], s)
         else case decoded of
                None \<Rightarrow> (Err BadRlp, s)
              | Some message \<Rightarrow>
                  (Ok (map (\<lambda>cb. Deliver cb message) cbs),
                   s\<lparr>dn_connected := fold (\<lambda>peer t. add_seen kk t peer) (nb_nodes message) (dn_connected s)\<rparr>))"

definition on_data :: "(bytes \<Rightarrow> h256) \<Rightarrow> rlp_api \<Rightarrow> sock_addr \<Rightarrow> node_id \<Rightarrow> h256 \<Rightarrow> byte \<Rightarrow> bytes \<Rightarrow> 'cb disc_node \<Rightarrow> 'cb reaction" where
  "on_data kk R addr remote_id hash typ data s =
     (case disc_message_id_from_u8 typ of
        None \<Rightarrow> (Err BadType, s)
      | Some PingId \<Rightarrow> (case ping_decode R data of None \<Rightarrow> (Err BadRlp, s) | Some m \<Rightarrow> on_ping kk addr remote_id hash m s)
      | Some PongId \<Rightarrow> (case pong_decode R data of None \<Rightarrow> (Err BadRlp, s) | Some m \<Rightarrow> on_pong m s)
      | Some FindNodeId \<Rightarrow> (case find_node_decode R data of None \<Rightarrow> (Err BadRlp, s) | Some m \<Rightarrow> on_find_node kk addr remote_id m s)
      | Some NeighboursId \<Rightarrow> on_neighbours kk remote_id (neighbours_decode R data) s)"

definition ingress_route :: "('sk, 'pk, 'c) crypto \<Rightarrow> rlp_api \<Rightarrow> node_id \<Rightarrow> sock_addr \<Rightarrow> bytes \<Rightarrow> 'cb disc_node \<Rightarrow> 'cb reaction" where
  "ingress_route C R own addr datagram s =
     (case open_datagram C addr datagram of
        Err e \<Rightarrow> (Err e, s)
      | Panic \<Rightarrow> (Panic, s)
      | Ok (hash, remote_id, typ, data) \<Rightarrow>
          if remote_id = own then (Ok [], s)
          else on_data (cr_keccak C) R addr remote_id hash typ data s)"

section \<open>The oldest node pinger\<close>

text \<open>What it asks the egress router to send when its choice falls on a bucket, with the channel it waits on.\<close>

definition oldest_ping :: "node_id \<Rightarrow> u64 \<Rightarrow> 'cb \<Rightarrow> byte \<Rightarrow> 'cb disc_node \<Rightarrow> (sock_addr \<times> node_id \<times> 'cb egress_message) option" where
  "oldest_ping own expire tx bucket_no s =
     (if bucket_no \<in> set (filled_buckets (dn_connected s))
      then map_option (\<lambda>node.
             (udp_addr node, own, EPing \<lparr>pi_from = dn_endpoint s, pi_to = endpoint_of node, pi_expire = expire\<rparr> (Some tx)))
             (oldest (dn_connected s) bucket_no)
      else None)"

section \<open>From one node to the other\<close>

fun egress_ok :: "'cb egress_message \<Rightarrow> bool" where
  "egress_ok (EPing m _) = (ip_wf (ep_address (pi_from m)) \<and> ip_wf (ep_address (pi_to m)))"
| "egress_ok (EPong m) = (ip_wf (ep_address (po_to m)) \<and> length (po_echo m) = 32)"
| "egress_ok (EFindNode m) = (length (fn_id m) = 64)"
| "egress_ok (ENeighbours m) = (\<forall>n \<in> set (nb_nodes m). node_ok n)"

text \<open>How a node reacts to a message it has decoded.\<close>

fun reaction_to :: "(bytes \<Rightarrow> h256) \<Rightarrow> sock_addr \<Rightarrow> node_id \<Rightarrow> h256 \<Rightarrow> 'cb egress_message \<Rightarrow> 'cb disc_node \<Rightarrow> 'cb reaction" where
  "reaction_to kk addr remote_id hash (EPing m _) s = on_ping kk addr remote_id hash m s"
| "reaction_to kk addr remote_id hash (EPong m) s = on_pong m s"
| "reaction_to kk addr remote_id hash (EFindNode m) s = on_find_node kk addr remote_id m s"
| "reaction_to kk addr remote_id hash (ENeighbours m) s = on_neighbours kk remote_id (Some m) s"

lemma egress_payload_Cons: "\<exists>t d. egress_payload R m = t # d"
  by (cases m) auto

lemma length_seal:
  assumes "crypto_ok C"
  shows "length (snd (seal C k payload)) = 97 + length payload"
  using crypto_okD(5) [OF assms crypto_okD(8) [OF assms]]
  by (simp add: seal_def Let_def crypto_okD(8) [OF assms] split: prod.split) (metis snd_conv)

lemma open_seal:
  assumes C: "crypto_ok C" and addr: "\<not> is_ipv6 (fst addr)"
    and len: "length (snd (seal C k (kind # data))) \<le> MAX_PACKET_SIZE"
  shows "open_datagram C addr (snd (seal C k (kind # data))) =
    Ok (fst (seal C k (kind # data)), pk2id C (cr_public C k), kind, data)"
proof -
  let ?m = "cr_keccak C (kind # data)"
  obtain rec sig where sign: "cr_sign C ?m k = (rec, sig)" by (cases "cr_sign C ?m k")
  have sig: "length sig = 64" using crypto_okD(5) [OF C crypto_okD(8) [OF C], of "kind # data" k] sign by simp
  let ?b = "sig @ [rec] @ kind # data"
  let ?h = "cr_keccak C ?b"
  have h: "length ?h = 32" by (rule crypto_okD(8) [OF C])
  have seal: "seal C k (kind # data) = (?h, ?h @ ?b)" by (simp add: seal_def sign Let_def)
  have buf: "take MAX_PACKET_SIZE (?h @ ?b) = ?h @ ?b" using len by (simp only: seal snd_conv take_all_iff)
  have parts: "drop 32 (?h @ ?b) = ?b" "take 32 (?h @ ?b) = ?h" "take 64 ?b = sig" "(?h @ ?b) ! 96 = rec"
    "drop 97 (?h @ ?b) = kind # data" "(?h @ ?b) ! 97 = kind" "drop 98 (?h @ ?b) = data" "\<not> length (?h @ ?b) < 32 + 65 + 1"
    using h sig by (simp_all add: nth_append)
  have "Option.bind (cr_signature C sig rec) (cr_recover C ?m) = Some (cr_public C k)"
    using crypto_okD(6) [OF C crypto_okD(8) [OF C], of "kind # data" k] sign by simp
  then show ?thesis
    unfolding open_datagram_def seal snd_conv fst_conv Let_def buf parts using addr parts(8) by simp
qed

text \<open>
  What one node sends, the other understands. A message that the egress router puts into a datagram
  of at most 1280 bytes reaches the handlers of any other node as it was, with the hash that a pong has
  to echo, and is attributed to the id of the sender's key.
\<close>

theorem datagram_understood:
  assumes "crypto_ok C" "rlp_ok R" "egress_ok m" "\<not> is_ipv6 (fst addr)" "pk2id C (cr_public C k) \<noteq> own"
    and "length (egress_payload R m) \<le> MAX_PACKET_SIZE - 97"
  shows "ingress_route C R own addr (snd (seal C k (egress_payload R m))) s =
    reaction_to (cr_keccak C) addr (pk2id C (cr_public C k)) (fst (seal C k (egress_payload R m))) m s"
proof -
  obtain kind data where p: "egress_payload R m = kind # data" using egress_payload_Cons by blast
  have "length (snd (seal C k (kind # data))) \<le> MAX_PACKET_SIZE"
    using assms(6) by (simp add: p length_seal [OF assms(1)] MAX_PACKET_SIZE_def)
  then have "open_datagram C addr (snd (seal C k (kind # data))) = Ok (fst (seal C k (kind # data)), pk2id C (cr_public C k), kind, data)"
    by (rule open_seal [OF assms(1,4)])
  then have "ingress_route C R own addr (snd (seal C k (kind # data))) s =
      on_data (cr_keccak C) R addr (pk2id C (cr_public C k)) (fst (seal C k (kind # data))) kind data s"
    using assms(5) by (simp add: ingress_route_def)
  also have "\<dots> = reaction_to (cr_keccak C) addr (pk2id C (cr_public C k)) (fst (seal C k (kind # data))) m s"
    using p assms(3)
    by (cases m) (auto simp: on_data_def disc_message_id_from_u8_def ping_codec.dec_enc_whole [OF assms(2)]
        pong_codec.dec_enc_whole [OF assms(2)] find_node_codec.dec_enc_whole [OF assms(2)] neighbours_codec.dec_enc_whole [OF assms(2)])
  finally show ?thesis by (simp add: p)
qed

section \<open>What changes a node\<close>

lemma reply_guarded:
  assumes "ingress_route C R own addr datagram s = (Ok effs, s')" "Request a i (ENeighbours m) \<in> set effs"
  shows "table_get (cr_keccak C) (dn_connected s) i \<noteq> None \<and> a = addr \<and>
    neighbours (cr_keccak C) (dn_connected s) i = Some (Ok (nb_nodes m) :: (ingress_error, node_record list) outcome)"
proof -
  obtain hash remote_id kind data where d: "on_data (cr_keccak C) R addr remote_id hash kind data s = (Ok effs, s')"
    using assms by (auto simp: ingress_route_def split: outcome.splits prod.splits if_splits)
  then show ?thesis
    using assms(2)
    by (cases "disc_message_id_from_u8 kind" rule: option.exhaust [case_names None Some])
       (auto simp: on_data_def on_ping_effect ping_received_def on_pong_def on_find_node_def on_neighbours_def Let_def bind_outcome_Ok_iff
         split: option.splits if_splits disc_message_id.splits)
qed

lemma changes_guarded:
  assumes "ingress_route C R own addr datagram s = (r, s')" "s' \<noteq> s"
  shows "\<exists>hash remote_id kind data. open_datagram C addr datagram = Ok (hash, remote_id, kind, data) \<and> remote_id \<noteq> own \<and>
     (kind = 1 \<or>
      kind = 2 \<and> (\<exists>m. pong_decode R data = Some m \<and> map_of (dn_inflight_pings s) (po_echo m) \<noteq> None) \<or>
      kind = 4 \<and> inflight_get remote_id (dn_inflight_find s) \<noteq> [])"
proof -
  obtain hash remote_id kind data where d: "open_datagram C addr datagram = Ok (hash, remote_id, kind, data)"
    "remote_id \<noteq> own" "on_data (cr_keccak C) R addr remote_id hash kind data s = (r, s')"
    using assms by (auto simp: ingress_route_def split: outcome.splits prod.splits if_splits)
  then show ?thesis
    using assms(2)
    by (auto simp: on_data_def on_ping_effect ping_received_def on_pong_def on_find_node_def on_neighbours_def Let_def disc_message_id_from_u8_def
         split: option.splits if_splits)
qed

text \<open>
  C21. Only what was asked for, or a ping, changes a node. When a datagram changes the state, it carries
  its own hash and a valid signature of another node, and it is a ping, the pong of a ping in flight, or
  neighbours from a node that has been asked for them; and neighbours are sent only to a node that is in
  the table, and they are nodes of its own bucket without itself.
\<close>

theorem ingress_guarded:
  assumes "ingress_route C R own addr datagram s = (r, s')"
  shows "(s' \<noteq> s \<longrightarrow> (\<exists>hash remote_id kind data. open_datagram C addr datagram = Ok (hash, remote_id, kind, data) \<and> remote_id \<noteq> own \<and>
       (kind = 1 \<or>
        kind = 2 \<and> (\<exists>m. pong_decode R data = Some m \<and> map_of (dn_inflight_pings s) (po_echo m) \<noteq> None) \<or>
        kind = 4 \<and> inflight_get remote_id (dn_inflight_find s) \<noteq> []))) \<and>
    (\<forall>effs a i m. r = Ok effs \<and> Request a i (ENeighbours m) \<in> set effs \<longrightarrow>
       table_get (cr_keccak C) (dn_connected s) i \<noteq> None \<and> a = addr \<and>
       neighbours (cr_keccak C) (dn_connected s) i = Some (Ok (nb_nodes m) :: (ingress_error, node_record list) outcome))"
  using changes_guarded [OF assms] reply_guarded assms by blast

section \<open>The node as a transition system\<close>

text \<open>
  The state of the node with the guards that lookups hold: whatever arrives at the socket, whatever is
  asked of the egress router, the timeouts, and what a lookup does to the maps it shares. The two halves
  of a ping are also steps of their own, with anything between them.
\<close>

inductive disc_step :: "('sk, 'pk, 'c) crypto \<Rightarrow> rlp_api \<Rightarrow> 'sk \<Rightarrow> node_id
    \<Rightarrow> 'cb disc_node \<times> (node_id \<times> u64) set \<Rightarrow> 'cb disc_node \<times> (node_id \<times> u64) set \<Rightarrow> bool"
  for C :: "('sk, 'pk, 'c) crypto" and R :: rlp_api and sk :: 'sk and own :: node_id where
  step_ingress: "ingress_route C R own addr datagram s = (r, s') \<Longrightarrow> disc_step C R sk own (s, G) (s', G)"
| step_ping_received: "open_datagram C addr datagram = Ok (hash, remote_id, 1, data) \<Longrightarrow> remote_id \<noteq> own \<Longrightarrow>
    ping_decode R data = Some m \<Longrightarrow> disc_step C R sk own (s, G) (ping_received (cr_keccak C) remote_id m s, G)"
| step_ping_expected: "disc_step C R sk own (s, G) (snd (ping_expected addr s), G)"
| step_egress: "egress_route C R sk own sent request s = (effs, s') \<Longrightarrow> disc_step C R sk own (s, G) (s', G)"
| step_timeout: "(hash, peer) \<in> set (dn_timers s) \<Longrightarrow> ping_timeout (cr_keccak C) hash peer s = (effs, s') \<Longrightarrow>
    disc_step C R sk own (s, G) (s', G)"
| step_upnp: "disc_step C R sk own (s, G) (upnp_round external_ip s, G)"
| step_expect: "disc_step C R sk own (s, G) (s\<lparr>dn_expected_pings := pings\<rparr>, G)"
| step_add: "inflight_add ids n sender (dn_inflight_find s) = Some (i, m) \<Longrightarrow>
    disc_step C R sk own (s, G) (s\<lparr>dn_inflight_find := m\<rparr>, insert (n, i) G)"
| step_drop: "(n, i) \<in> G \<Longrightarrow> inflight_drop n i (dn_inflight_find s) = Ok m \<Longrightarrow>
    disc_step C R sk own (s, G) (s\<lparr>dn_inflight_find := m\<rparr>, G - {(n, i)})"

definition disc_start :: "(bytes \<Rightarrow> h256) \<Rightarrow> node_id \<Rightarrow> 'cb disc_node \<times> (node_id \<times> u64) set \<Rightarrow> bool" where
  "disc_start kk own x \<longleftrightarrow> (\<exists>e ns. x = (new_node kk own e ns, {}))"

definition disc_reach :: "('sk, 'pk, 'c) crypto \<Rightarrow> rlp_api \<Rightarrow> 'sk \<Rightarrow> node_id
    \<Rightarrow> 'cb disc_node \<times> (node_id \<times> u64) set \<Rightarrow> bool" where
  "disc_reach C R sk own = reach (disc_start (cr_keccak C) own) (disc_step C R sk own)"

text \<open>The pending requests are exactly those that are guarded, and no entry is empty.\<close>

definition guarded :: "(node_id \<times> (u64 \<times> 'cb) list) list \<Rightarrow> (node_id \<times> u64) set \<Rightarrow> bool" where
  "guarded m G \<longleftrightarrow>
     distinct (map fst m) \<and>
     (\<forall>n cbs. map_of m n = Some cbs \<longrightarrow> cbs \<noteq> [] \<and> distinct (map fst cbs)) \<and>
     (\<forall>n i. (n, i) \<in> G \<longleftrightarrow> (\<exists>cbs. map_of m n = Some cbs \<and> map_of cbs i \<noteq> None))"

fun disc_inv :: "(bytes \<Rightarrow> h256) \<Rightarrow> 'cb disc_node \<times> (node_id \<times> u64) set \<Rightarrow> bool" where
  "disc_inv kk (s, G) \<longleftrightarrow> table_inv kk (dn_connected s) \<and> guarded (dn_inflight_find s) G"

lemma map_of_update: "map_of (AList.update k v m) = (map_of m)(k \<mapsto> v)"
  by (rule update_conv')

lemma map_of_delete: "map_of (AList.delete k m) = (map_of m)(k := None)"
  by (rule delete_conv')

lemma guarded_add:
  assumes "guarded m G" "inflight_add ids n sender m = Some (i, m')"
  shows "guarded m' (insert (n, i) G)"
proof -
  let ?d = "case map_of m n of None \<Rightarrow> [] | Some d \<Rightarrow> d"
  have i: "map_of ?d i = None" "m' = AList.update n ((i, sender) # ?d) m"
    using assms(2) by (auto simp: inflight_add_def Let_def find_Some_iff)
  have "distinct (map fst ?d)" using assms(1) by (auto simp: guarded_def split: option.split)
  moreover have "i \<notin> fst ` set ?d" using i(1) by (simp add: map_of_eq_None_iff)
  ultimately show ?thesis
    using assms(1) unfolding i(2) guarded_def map_of_update
    by (auto simp: distinct_update split: option.splits)
qed

lemma guarded_drop:
  assumes "guarded m G" "(n, i) \<in> G"
  shows "\<exists>m'. inflight_drop n i m = Ok m' \<and> guarded m' (G - {(n, i)})"
proof -
  obtain cbs where cbs: "map_of m n = Some cbs" "map_of cbs i \<noteq> None"
    using assms unfolding guarded_def by blast
  let ?c = "AList.delete i cbs"
  have c: "distinct (map fst ?c)" using assms(1) cbs(1) by (auto simp: guarded_def distinct_delete)
  have same: "map_of ?c j = map_of cbs j" if "j \<noteq> i" for j using that by (simp add: map_of_delete)
  show ?thesis
  proof (cases "?c = []")
    case True
    then have "\<forall>j. j \<noteq> i \<longrightarrow> map_of cbs j = None" using same by fastforce
    then have "guarded (AList.delete n m) (G - {(n, i)})"
      using assms(1) cbs unfolding guarded_def map_of_delete
      by (auto simp: distinct_delete simp del: map_of_eq_Some_iff Some_eq_map_of_iff)
    then show ?thesis using True cbs by (simp add: inflight_drop_def Let_def)
  next
    case False
    then have "guarded (AList.update n ?c m) (G - {(n, i)})"
      using assms(1) cbs c unfolding guarded_def map_of_update
      by (auto simp: distinct_update map_of_delete simp del: map_of_eq_Some_iff Some_eq_map_of_iff)
    then show ?thesis using False cbs by (simp add: inflight_drop_def Let_def)
  qed
qed

lemma table_ops_inv:
  assumes "table_inv kk t"
  shows "table_inv kk (add_verified kk t n)" "table_inv kk (add_seen kk t n)" "table_inv kk (table_remove kk t p)"
  using table_step_inv [OF step_verified assms] table_step_inv [OF step_seen assms] table_step_inv [OF step_remove assms] by auto

lemma fold_seen_inv: "table_inv kk t \<Longrightarrow> table_inv kk (fold (\<lambda>n t. add_seen kk t n) ns t)"
  by (induction ns arbitrary: t) (auto simp: table_ops_inv)

lemma fold_verified_inv: "table_inv kk t \<Longrightarrow> table_inv kk (fold (\<lambda>n t. add_verified kk t n) ns t)"
  by (induction ns arbitrary: t) (auto simp: table_ops_inv)

lemma on_data_inv:
  assumes "table_inv kk (dn_connected s)" "on_data kk R addr remote_id hash k data s = (r, s')"
  shows "table_inv kk (dn_connected s') \<and> dn_inflight_find s' = dn_inflight_find s"
  using assms
  by (auto simp: on_data_def on_ping_effect ping_received_def on_pong_def on_find_node_def on_neighbours_def Let_def table_ops_inv fold_seen_inv
      split: option.splits disc_message_id.splits if_splits)

lemma ingress_inv:
  assumes "table_inv (cr_keccak C) (dn_connected s)" "ingress_route C R own addr datagram s = (r, s')"
  shows "table_inv (cr_keccak C) (dn_connected s') \<and> dn_inflight_find s' = dn_inflight_find s"
  using assms on_data_inv [OF assms(1)]
  by (auto simp: ingress_route_def split: outcome.splits prod.splits if_splits)

lemma egress_keeps:
  "egress_route C R sk own sent request s = (effs, s') \<Longrightarrow>
   dn_connected s' = dn_connected s \<and> dn_inflight_find s' = dn_inflight_find s"
  by (auto simp: egress_route_def Let_def split: prod.splits egress_message.splits if_splits)

lemma disc_step_inv: "disc_step C R sk own x y \<Longrightarrow> disc_inv (cr_keccak C) x \<Longrightarrow> disc_inv (cr_keccak C) y"
proof (induction rule: disc_step.induct)
  case (step_ingress addr datagram s r s' G)
  then show ?case using ingress_inv by fastforce
next
  case (step_ping_received addr datagram hash remote_id data m G s)
  then show ?case by (simp add: ping_received_def Let_def table_ops_inv)
next
  case (step_ping_expected s G addr)
  then show ?case by (simp add: ping_expected_def split: option.split)
next
  case (step_egress sent request s effs s' G)
  then show ?case using egress_keeps by fastforce
next
  case (step_timeout hash peer s effs s' G)
  then show ?case by (auto simp: ping_timeout_def Let_def table_ops_inv split: option.splits)
next
  case (step_upnp s G external_ip)
  then show ?case by (simp add: upnp_round_def split: option.split)
next
  case (step_add ids n sender s i m G)
  then show ?case using guarded_add by fastforce
next
  case (step_drop n i G s m)
  then show ?case using guarded_drop [of "dn_inflight_find s" G n i] by auto
qed simp

interpretation disc: invariant_system "disc_start (cr_keccak C) own" "disc_step C R sk own"
  "\<lambda>x. keccak_ok (cr_keccak C) \<longrightarrow> disc_inv (cr_keccak C) x" for C :: "('sk, 'pk, 'c) crypto" and R sk own
proof
  fix x :: "'a disc_node \<times> (node_id \<times> u64) set"
  assume "disc_start (cr_keccak C) own x"
  then show "keccak_ok (cr_keccak C) \<longrightarrow> disc_inv (cr_keccak C) x"
    by (auto simp: disc_start_def new_node_def guarded_def fold_verified_inv new_table_inv)
qed (auto intro: disc_step_inv)

lemma crypto_keccak_ok: "crypto_ok C \<Longrightarrow> keccak_ok (cr_keccak C)"
  by (simp add: keccak_ok_def crypto_okD)

lemma disc_reach_inv: "crypto_ok C \<Longrightarrow> disc_reach C R sk own x \<Longrightarrow> disc_inv (cr_keccak C) x"
  unfolding disc_reach_def using crypto_keccak_ok by (intro disc.reach_inv [rule_format])

lemma find_filter_less: "find (\<lambda>e. nr_id e = p) ns \<noteq> None \<Longrightarrow> length (filter (\<lambda>n. p \<noteq> nr_id n) ns) < length ns"
  by (induction ns) (auto split: if_splits simp: le_imp_less_Suc)

lemma neighbours_short:
  assumes "keccak_ok kk" "table_inv kk t"
  shows "neighbours kk t p \<noteq> Some Panic"
    and "table_get kk t p \<noteq> None \<Longrightarrow> neighbours kk t p = Some (Ok ns) \<Longrightarrow> length ns < BUCKET_SIZE"
proof -
  have len: "length (kb_bucket (kbuckets t ! d)) \<le> BUCKET_SIZE" if "logdistance kk t p = Some d" for d
    using table_inv_bucketD [OF assms(2) logdistance_less [OF assms that]] by (simp add: bucket_ok_def)
  show "neighbours kk t p \<noteq> Some Panic"
  proof (cases "logdistance kk t p")
    case (Some d)
    have "length (filter (\<lambda>n. p \<noteq> nr_id n) (kb_bucket (kbuckets t ! d))) \<le> BUCKET_SIZE"
      by (rule order_trans [OF length_filter_le len [OF Some]])
    then show ?thesis using Some by (simp add: neighbours_def table_bucket_def collect_array_vec_def)
  qed (simp add: neighbours_def table_bucket_def)
  assume "table_get kk t p \<noteq> None" "neighbours kk t p = Some (Ok ns)"
  then obtain d where d: "logdistance kk t p = Some d" "find (\<lambda>e. nr_id e = p) (kb_bucket (kbuckets t ! d)) \<noteq> None"
    "ns = filter (\<lambda>n. p \<noteq> nr_id n) (kb_bucket (kbuckets t ! d))"
    by (auto simp: table_get_def neighbours_def table_bucket_def collect_array_vec_def split: option.splits if_splits)
  then show "length ns < BUCKET_SIZE" using find_filter_less [OF d(2)] len [OF d(1)] by simp
qed

lemma on_data_no_panic:
  assumes "keccak_ok kk" "table_inv kk (dn_connected s)"
  shows "fst (on_data kk R addr remote_id hash k data s) \<noteq> Panic"
proof -
  have "fst (on_find_node kk addr remote_id m s) \<noteq> Panic" for m
    using neighbours_short(1) [OF assms, of remote_id]
    by (auto simp: on_find_node_def split: option.split elim!: bind_outcome.elims)
  then show ?thesis
    by (auto simp: on_data_def on_ping_effect ping_received_def on_pong_def on_neighbours_def Let_def split: option.split disc_message_id.split)
qed

lemma open_no_panic: "open_datagram C addr datagram \<noteq> Panic"
  by (auto simp: open_datagram_def Let_def of_option_def split: option.split)

text \<open>
  C17. Nothing a peer sends makes the node panic, in any state it can reach: no datagram panics the
  ingress router, and every guard of a pending request can be dropped. A reply to a request for
  neighbours has at most 15 nodes, and when no lookup holds a guard no request is pending.
\<close>

theorem node_never_panics:
  assumes "crypto_ok C" "disc_reach C R sk own (s, G)"
  shows "fst (ingress_route C R own addr datagram s) \<noteq> Panic \<and>
     (\<forall>(n, i) \<in> G. inflight_drop n i (dn_inflight_find s) \<noteq> Panic) \<and>
     (\<forall>effs a i m. fst (ingress_route C R own addr datagram s) = Ok effs \<and> Request a i (ENeighbours m) \<in> set effs \<longrightarrow>
        length (nb_nodes m) < BUCKET_SIZE) \<and>
     (G = {} \<longrightarrow> dn_inflight_find s = [])"
proof (intro conjI)
  let ?kk = "cr_keccak C"
  have k: "keccak_ok ?kk" by (rule crypto_keccak_ok [OF assms(1)])
  have inv: "table_inv ?kk (dn_connected s)" "guarded (dn_inflight_find s) G"
    using disc_reach_inv [OF assms] by simp_all
  show "fst (ingress_route C R own addr datagram s) \<noteq> Panic"
    using open_no_panic [of C addr datagram] on_data_no_panic [OF k inv(1)]
    by (auto simp: ingress_route_def split: outcome.split)
  show "\<forall>(n, i) \<in> G. inflight_drop n i (dn_inflight_find s) \<noteq> Panic"
    using guarded_drop [OF inv(2)] by fastforce
  show "\<forall>effs a i m. fst (ingress_route C R own addr datagram s) = Ok effs \<and> Request a i (ENeighbours m) \<in> set effs \<longrightarrow>
        length (nb_nodes m) < BUCKET_SIZE"
  proof (intro allI impI)
    fix effs :: "'d effect list" and a i m
    assume r: "fst (ingress_route C R own addr datagram s) = Ok effs \<and> Request a i (ENeighbours m) \<in> set effs"
    obtain s' where "ingress_route C R own addr datagram s = (Ok effs, s')"
      using r by (cases "ingress_route C R own addr datagram s") simp
    then have "table_get ?kk (dn_connected s) i \<noteq> None"
      "neighbours ?kk (dn_connected s) i = Some (Ok (nb_nodes m) :: (ingress_error, node_record list) outcome)"
      using reply_guarded r by blast+
    then show "length (nb_nodes m) < BUCKET_SIZE" by (rule neighbours_short(2) [OF k inv(1)])
  qed
  show "G = {} \<longrightarrow> dn_inflight_find s = []"
  proof (rule impI, rule ccontr)
    assume none: "G = {}" and "dn_inflight_find s \<noteq> []"
    then obtain x xs where "dn_inflight_find s = x # xs" by (cases "dn_inflight_find s") auto
    then have "map_of (dn_inflight_find s) (fst x) = Some (snd x)" by simp
    then obtain n cbs where n: "map_of (dn_inflight_find s) n = Some cbs" by blast
    then have "cbs \<noteq> []" using inv(2) unfolding guarded_def by blast
    then have "map_of cbs (fst (hd cbs)) \<noteq> None" by (cases cbs) auto
    then obtain i where "map_of cbs i \<noteq> None" by blast
    then show False using inv(2) n none unfolding guarded_def by blast
  qed
qed

section \<open>The life of a ping\<close>

text \<open>
  C31. A ping is answered, or its node makes room for a replacement. A ping with a fresh hash goes out once
  and arms its timeout. A pong that echoes the hash tells the waiting lookup and disarms the timeout: when
  it fires, it does nothing. If none comes, the timeout fails the lookup; the table stays as it is when
  the node is not in it, or its bucket has no replacement to take its place; otherwise the record of
  the node goes, the first replacement takes the last place of the bucket, and no other bucket changes.
\<close>

theorem ping_answered_or_replaced:
  assumes "crypto_ok C" "disc_reach C R sk own (s, G)"
    and "seal C sk (egress_payload R (EPing m (Some cb))) = (hash, datagram)" "peer \<noteq> own"
    and "map_of (dn_inflight_pings s) hash = None"
    and "egress_route C R sk own True (addr, peer, EPing m (Some cb)) s = (effs, s1)"
    and "on_pong \<lparr>po_to = e, po_echo = hash, po_expire = x\<rparr> s1 = (answered, s2)"
    and "ping_timeout (cr_keccak C) hash peer s1 = (lost, s3)"
  shows "effs = [Datagram addr datagram] \<and> (hash, peer) \<in> set (dn_timers s1) \<and>
    answered = Ok [Fire cb] \<and> fst (ping_timeout (cr_keccak C) hash peer s2) = [] \<and>
    dn_connected (snd (ping_timeout (cr_keccak C) hash peer s2)) = dn_connected s \<and>
    lost = [Forget cb] \<and>
    (case table_bucket (cr_keccak C) (dn_connected s) peer of
       None \<Rightarrow> dn_connected s3 = dn_connected s
     | Some b \<Rightarrow>
         (kb_replacements b = [] \<or> peer \<notin> nr_id ` set (kb_bucket b) \<longrightarrow> dn_connected s3 = dn_connected s) \<and>
         (\<forall>before node after r rest. kb_bucket b = before @ node # after \<and> nr_id node = peer \<and>
            peer \<notin> nr_id ` set before \<and> kb_replacements b = r # rest \<longrightarrow>
            table_bucket (cr_keccak C) (dn_connected s3) peer =
              Some (b\<lparr>kb_bucket := before @ after @ [r], kb_replacements := rest\<rparr>))) \<and>
    (\<forall>q. logdistance (cr_keccak C) (dn_connected s) q \<noteq> logdistance (cr_keccak C) (dn_connected s) peer \<longrightarrow>
       table_bucket (cr_keccak C) (dn_connected s3) q = table_bucket (cr_keccak C) (dn_connected s) q)"
proof -
  let ?kk = "cr_keccak C" and ?t = "dn_connected s"
  have k: "keccak_ok ?kk" "table_inv ?kk ?t"
    using crypto_keccak_ok [OF assms(1)] disc_reach_inv [OF assms(1,2)] by simp_all
  have s1: "effs = [Datagram addr datagram]"
    "s1 = s\<lparr>dn_inflight_pings := AList.update hash [cb] (dn_inflight_pings s), dn_timers := (hash, peer) # dn_timers s\<rparr>"
    using assms(3-6) by (simp_all add: egress_route_def)
  have s2: "answered = Ok [Fire cb]" "dn_connected s2 = ?t" "map_of (dn_inflight_pings s2) hash = None"
    using assms(7) s1(2) by (auto simp: on_pong_def map_of_update map_of_delete simp del: map_of_eq_None_iff)
  have s3: "lost = [Forget cb]" "dn_connected s3 = table_remove ?kk ?t peer"
    using assms(8) s1(2) by (auto simp: ping_timeout_def map_of_update)
  have same: "table_remove ?kk ?t peer = ?t"
    if "table_bucket ?kk ?t peer = Some b" "kb_replacements b = [] \<or> peer \<notin> nr_id ` set (kb_bucket b)" for b
  proof -
    have "bucket_remove peer b = b" using that(2) bucket_remove_absent by (auto simp: bucket_remove_def)
    then show ?thesis by (rule table_remove_effect(2) [OF k that(1)])
  qed
  have other: "table_bucket ?kk (table_remove ?kk ?t peer) q = table_bucket ?kk ?t q"
    if "logdistance ?kk ?t q \<noteq> logdistance ?kk ?t peer" for q
    using that table_remove_effect(3) [OF k] table_remove_no_bucket [of ?kk ?t peer]
    by (cases "table_bucket ?kk ?t peer") auto
  show ?thesis
    using s1 s2 s3 same other table_remove_effect(1) [OF k] bucket_remove_first table_remove_no_bucket [of ?kk ?t peer]
    by (auto simp: ping_timeout_def split: option.split)
qed

text \<open>
  The oldest nodes are never pinged. The pinger addresses its ping to the id of the node itself, and
  the egress router drops everything that is addressed to it: nothing is sent, nothing changes, and the
  pinger is told at once that there is no answer.
\<close>

theorem oldest_never_pinged:
  assumes "oldest_ping own expire tx bucket_no s = Some request"
  shows "egress_route C R sk own sent request s = ([Forget tx], s)"
  using assms by (auto simp: oldest_ping_def egress_route_def dropped_def split: if_splits)

section \<open>The size of a reply\<close>

text \<open>
  The least sizes of the items of the format: a header byte for a short string, two for one of 56 bytes
  or more, two for a number of two bytes, and the length bytes of a long list.
\<close>

definition rlp_sizes :: "rlp_api \<Rightarrow> bool" where
  "rlp_sizes R \<longleftrightarrow>
     (\<forall>d. 2 \<le> length d \<longrightarrow> Suc (length d) \<le> length (rl_out R (RData d))) \<and>
     (\<forall>d. 56 \<le> length d \<longrightarrow> length d + 2 \<le> length (rl_out R (RData d))) \<and>
     (\<forall>n k. 128 \<le> n \<and> 256 ^ k \<le> n \<longrightarrow> k + 2 \<le> length (rl_out R (RUint n))) \<and>
     (\<forall>xs. 56 \<le> length (concat (map (rl_out R) xs)) \<longrightarrow>
        length (concat (map (rl_out R) xs)) + 2 \<le> length (rl_out R (RList xs))) \<and>
     (\<forall>xs. 256 \<le> length (concat (map (rl_out R) xs)) \<longrightarrow>
        length (concat (map (rl_out R) xs)) + 3 \<le> length (rl_out R (RList xs)))"

lemma rlp_sizesD:
  assumes "rlp_sizes R"
  shows "2 \<le> length d \<Longrightarrow> Suc (length d) \<le> length (rl_out R (RData d))"
    "56 \<le> length d \<Longrightarrow> length d + 2 \<le> length (rl_out R (RData d))"
    "128 \<le> n \<Longrightarrow> 256 ^ k \<le> n \<Longrightarrow> k + 2 \<le> length (rl_out R (RUint n))"
    "56 \<le> length (concat (map (rl_out R) xs)) \<Longrightarrow>
       length (concat (map (rl_out R) xs)) + 2 \<le> length (rl_out R (RList xs))"
    "256 \<le> length (concat (map (rl_out R) xs)) \<Longrightarrow>
       length (concat (map (rl_out R) xs)) + 3 \<le> length (rl_out R (RList xs))"
  using assms unfolding rlp_sizes_def by blast+

lemma node_record_size:
  assumes "rlp_sizes R" "node_ok n" "256 \<le> nr_udp_port n" "256 \<le> nr_tcp_port n"
  shows "79 \<le> length (rl_out R (node_record_rlp n))"
proof -
  have "4 \<le> length (octets (nr_address n))" using assms(2) by (cases "nr_address n") (simp_all add: node_ok_def)
  then have "5 \<le> length (rl_out R (RData (octets (nr_address n))))"
    using rlp_sizesD(1) [OF assms(1), of "octets (nr_address n)"] by linarith
  moreover have "66 \<le> length (rl_out R (RData (nr_id n)))"
    using rlp_sizesD(2) [OF assms(1), of "nr_id n"] assms(2) by (simp add: node_ok_def)
  moreover have port: "3 \<le> length (rl_out R (RUint (unat p)))" if "256 \<le> p" for p :: u16
  proof -
    have "256 \<le> unat p" using that by (simp add: word_le_nat_alt)
    then show ?thesis using rlp_sizesD(3) [OF assms(1), of "unat p" 1] by simp
  qed
  ultimately have "77 \<le> length (concat (map (rl_out R) [RData (octets (nr_address n)), RUint (unat (nr_udp_port n)),
     RUint (unat (nr_tcp_port n)), RData (nr_id n)]))"
    using port [OF assms(3)] port [OF assms(4)] by simp
  then show ?thesis
    using rlp_sizesD(4) [OF assms(1), of "[RData (octets (nr_address n)), RUint (unat (nr_udp_port n)),
     RUint (unat (nr_tcp_port n)), RData (nr_id n)]"] unfolding node_record_rlp_def by linarith
qed

lemma length_concat_ge: "\<forall>x \<in> set xs. k \<le> length (f x) \<Longrightarrow> k * length xs \<le> length (concat (map f xs))"
  by (induction xs) auto

text \<open>A message with 15 nodes or more, with ports and an expiry time of the usual size, is longer than a datagram may be.\<close>

lemma long_reply_size:
  assumes "crypto_ok C" "rlp_sizes R" "BUCKET_SIZE - 1 \<le> length (nb_nodes m)"
    and "\<forall>n \<in> set (nb_nodes m). node_ok n \<and> 256 \<le> nr_udp_port n \<and> 256 \<le> nr_tcp_port n"
    and "2 ^ 24 \<le> nb_expire m"
  shows "MAX_PACKET_SIZE < length (snd (seal C k (egress_payload R (ENeighbours m))))"
proof -
  let ?nodes = "map node_record_rlp (nb_nodes m)"
  have "79 * length (nb_nodes m) \<le> length (concat (map (\<lambda>n. rl_out R (node_record_rlp n)) (nb_nodes m)))"
    using assms(4) node_record_size [OF assms(2)] by (intro length_concat_ge) blast
  then have "1185 \<le> length (concat (map (rl_out R) ?nodes))" using assms(3) by (simp add: BUCKET_SIZE_def o_def)
  then have nodes: "1188 \<le> length (rl_out R (RList ?nodes))"
    using rlp_sizesD(5) [OF assms(2), of ?nodes] by linarith
  have "(2::nat) ^ 24 \<le> unat (nb_expire m)" using assms(5) by (simp add: word_le_nat_alt)
  then have "5 \<le> length (rl_out R (RUint (unat (nb_expire m))))"
    using rlp_sizesD(3) [OF assms(2), of "unat (nb_expire m)" 3] by simp
  then have "1196 \<le> length (rl_out R (neighbours_rlp m))"
    using nodes rlp_sizesD(5) [OF assms(2), of "[RList ?nodes, RUint (unat (nb_expire m))]"]
    unfolding neighbours_rlp_def by simp
  then show ?thesis by (simp add: length_seal [OF assms(1)] MAX_PACKET_SIZE_def)
qed

section \<open>Closed instances\<close>

lemma length_digits256_ge: "256 ^ k \<le> n \<Longrightarrow> Suc k \<le> length (digits256 n)"
proof (induction k arbitrary: n)
  case 0
  then show ?case by (subst digits256.simps) simp
next
  case (Suc k)
  have "256 ^ k \<le> n div 256" using Suc.prems by (simp add: less_eq_div_iff_mult_less_eq)
  moreover have "n \<noteq> 0" using Suc.prems by (cases n) simp_all
  ultimately show ?case using Suc.IH by (subst digits256.simps) simp
qed

lemma tagged_ge: "256 ^ k \<le> length p \<Longrightarrow> length p + 4 + 2 * k \<le> length (tagged t p)"
  using length_digits256_ge [of k "length p"] by (simp add: tagged_def Let_def)

lemma demo_rlp_sizes: "rlp_sizes demo_rlp"
proof -
  have num: "k + 2 \<le> length (tagged 129 (digits256 n))" if "256 ^ k \<le> n" for n k
    using length_digits256_ge [OF that] tagged_ge [of 0 "digits256 n" 129] by simp
  have str: "length p + 4 \<le> length (tagged t p)" if "2 \<le> length p" for p t
    using that tagged_ge [of 0 p t] by simp
  have "Suc (length d) \<le> length (tagged 130 d)" "length d + 2 \<le> length (tagged 130 d)" if "2 \<le> length d" for d
    using str [OF that, of 130] by simp_all
  moreover have "length p + 2 \<le> length (tagged 131 p)" "length p + 3 \<le> length (tagged 131 p)" if "2 \<le> length p" for p
    using str [OF that, of 131] by simp_all
  ultimately show ?thesis using num unfolding rlp_sizes_def by (simp add: demo_rlp_def)
qed

definition demo_addr :: sock_addr where "demo_addr = (V4 [10, 0, 0, 9], 30303)"

definition demo_endpoint :: endpoint where
  "demo_endpoint = \<lparr>ep_address = V4 [10, 0, 0, 9], ep_udp_port = 3, ep_tcp_port = 3\<rparr>"

definition demo_find :: "nat egress_message" where
  "demo_find = EFindNode \<lparr>fn_id = replicate 64 7, fn_expire = 9\<rparr>"

definition demo_state :: "nat disc_node" where
  "demo_state = new_node (cr_keccak demo_crypto) [] demo_endpoint []"

lemma demo_find_short: "length (egress_payload demo_rlp demo_find) \<le> MAX_PACKET_SIZE - 97"
proof -
  note len = rlp_okD(9,10) [OF demo_rlp_ok]
  have "length (rl_out demo_rlp (RData (replicate 64 7))) \<le> 73" using len(1) [of "replicate 64 7"] by simp
  moreover have "length (rl_out demo_rlp (RUint 9)) = 1" by (rule rlp_okD(8) [OF demo_rlp_ok]) simp
  ultimately show ?thesis
    using len(2) [of "[RData (replicate 64 7), RUint 9]"]
    by (simp add: demo_find_def find_node_rlp_def MAX_PACKET_SIZE_def)
qed

theorem datagram_understood_witness:
  "ingress_route demo_crypto demo_rlp [] demo_addr (snd (seal demo_crypto 5 (egress_payload demo_rlp demo_find))) demo_state =
   reaction_to (cr_keccak demo_crypto) demo_addr (pk2id demo_crypto 5)
     (fst (seal demo_crypto 5 (egress_payload demo_rlp demo_find))) demo_find demo_state"
proof -
  have "egress_ok demo_find" "\<not> is_ipv6 (fst demo_addr)" "pk2id demo_crypto (cr_public demo_crypto 5) \<noteq> []"
    by (simp_all add: demo_find_def demo_addr_def pk2id_def demo_crypto_def)
  from datagram_understood [OF demo_crypto_ok demo_rlp_ok this demo_find_short, of demo_state]
  show ?thesis by (simp add: demo_crypto_def)
qed

definition demo_ping :: ping_message where
  "demo_ping = \<lparr>pi_from = demo_endpoint, pi_to = demo_endpoint, pi_expire = 9\<rparr>"

definition demo_ping_request :: "nat egress_message" where "demo_ping_request = EPing demo_ping (Some 8)"

lemma demo_ping_short: "length (egress_payload demo_rlp demo_ping_request) \<le> MAX_PACKET_SIZE - 97"
proof -
  note len = rlp_okD(8-10) [OF demo_rlp_ok]
  have "length (rl_out demo_rlp (RData [10, 0, 0, 9])) \<le> 13" using len(2) [of "[10, 0, 0, 9]"] by simp
  then have "length (rl_out demo_rlp (endpoint_rlp demo_endpoint)) \<le> 24"
    using len(1) [of 3] len(3) [of "[RData [10, 0, 0, 9], RUint 3, RUint 3]"]
    by (simp add: endpoint_rlp_def demo_endpoint_def)
  then have "length (rl_out demo_rlp (ping_rlp demo_ping)) \<le> 59"
    using len(1) [of 9] len(1) [of 4]
      len(3) [of "[RUint 4, endpoint_rlp demo_endpoint, endpoint_rlp demo_endpoint, RUint 9]"]
    by (simp add: ping_rlp_def demo_ping_def)
  then show ?thesis by (simp add: MAX_PACKET_SIZE_def demo_ping_request_def)
qed

text \<open>A ping that somebody waits for.\<close>

definition demo_waiting :: "nat disc_node" where
  "demo_waiting = demo_state\<lparr>dn_expected_pings := [(demo_addr, [(1, 8)])]\<rparr>"

theorem ingress_guarded_witness:
  "\<exists>s' hash. ingress_route demo_crypto demo_rlp [] demo_addr (snd (seal demo_crypto 5 (egress_payload demo_rlp demo_ping_request)))
       demo_waiting = (Ok [Request demo_addr (pk2id demo_crypto 5) (EPong \<lparr>po_to = demo_endpoint, po_echo = hash, po_expire = 9\<rparr>), Fire 8], s') \<and>
     dn_expected_pings s' = [] \<and>
     (\<exists>hash remote_id kind data. open_datagram demo_crypto demo_addr
        (snd (seal demo_crypto 5 (egress_payload demo_rlp demo_ping_request))) = Ok (hash, remote_id, kind, data) \<and> remote_id \<noteq> [])"
proof -
  let ?data = "rl_out demo_rlp (ping_rlp demo_ping)"
  let ?g = "snd (seal demo_crypto 5 (egress_payload demo_rlp demo_ping_request))"
  let ?h = "fst (seal demo_crypto 5 (1 # ?data))"
  have "length (snd (seal demo_crypto 5 (1 # ?data))) \<le> MAX_PACKET_SIZE"
    using demo_ping_short by (simp add: length_seal [OF demo_crypto_ok] MAX_PACKET_SIZE_def demo_ping_request_def)
  then have opened: "open_datagram demo_crypto demo_addr ?g = Ok (?h, pk2id demo_crypto (cr_public demo_crypto 5), 1, ?data)"
    using open_seal [OF demo_crypto_ok, of demo_addr 5 1 ?data] by (simp add: demo_addr_def demo_ping_request_def)
  have "ping_decode demo_rlp ?data = Some demo_ping"
    by (rule ping_codec.dec_enc_whole [OF demo_rlp_ok]) (simp add: demo_ping_def demo_endpoint_def)
  then obtain s' where s': "ingress_route demo_crypto demo_rlp [] demo_addr ?g demo_waiting =
      (Ok [Request demo_addr (pk2id demo_crypto 5) (EPong \<lparr>po_to = demo_endpoint, po_echo = ?h, po_expire = 9\<rparr>), Fire 8], s')"
    "dn_expected_pings s' = []"
    using opened by (auto simp: ingress_route_def on_data_def disc_message_id_from_u8_def on_ping_effect ping_received_def Let_def pk2id_def
        demo_waiting_def demo_ping_def demo_crypto_def)
  then have "s' \<noteq> demo_waiting" by (auto simp: demo_waiting_def)
  then show ?thesis using ingress_guarded [OF s'(1)] s' by blast
qed

theorem node_never_panics_witness:
  "(\<forall>datagram. fst (ingress_route demo_crypto demo_rlp [] demo_addr datagram demo_state) \<noteq> Panic) \<and>
   dn_inflight_find demo_state = []"
proof -
  have "disc_reach demo_crypto demo_rlp 5 [] (demo_state, {})"
    unfolding disc_reach_def by (rule reach_init) (auto simp: disc_start_def demo_state_def)
  from node_never_panics [OF demo_crypto_ok this] show ?thesis by blast
qed

text \<open>A node whose bucket is full and has a replacement: node 16 does not answer, and node 17 takes its place.\<close>

definition near_node :: "byte \<Rightarrow> node_record" where
  "near_node k = \<lparr>nr_address = V4 [10, 0, 0, k], nr_tcp_port = 30303, nr_udp_port = 30303, nr_id = k # replicate 63 0\<rparr>"

definition crowded :: "nat disc_node" where
  "crowded = new_node (cr_keccak demo_crypto) (128 # replicate 63 0) demo_endpoint
     (map near_node [1, 2, 3, 4, 5, 6, 7, 8, 9, 10, 11, 12, 13, 14, 15, 16, 17])"

lemma crowded_replacement:
  "table_bucket (cr_keccak demo_crypto) (dn_connected crowded) (16 # replicate 63 0) =
    Some \<lparr>kb_bucket = map near_node [16, 15, 14, 13, 12, 11, 10, 9, 8, 7, 6, 5, 4, 3, 2, 1], kb_replacements = [near_node 17]\<rparr>"
  by code_simp

theorem ping_answered_or_replaced_witness:
  "\<exists>hash datagram s1 s3.
     egress_route demo_crypto demo_rlp 5 (128 # replicate 63 0) True (demo_addr, 16 # replicate 63 0, demo_ping_request) crowded =
       ([Datagram demo_addr datagram], s1) \<and>
     fst (on_pong \<lparr>po_to = demo_endpoint, po_echo = hash, po_expire = 0\<rparr> s1) = Ok [Fire 8] \<and>
     ping_timeout (cr_keccak demo_crypto) hash (16 # replicate 63 0) s1 = ([Forget 8], s3) \<and>
     table_bucket (cr_keccak demo_crypto) (dn_connected s3) (16 # replicate 63 0) =
       Some \<lparr>kb_bucket = map near_node [15, 14, 13, 12, 11, 10, 9, 8, 7, 6, 5, 4, 3, 2, 1, 17], kb_replacements = []\<rparr>"
proof -
  let ?i = "128 # replicate 63 0 :: byte list" and ?p = "16 # replicate 63 0 :: byte list"
  obtain hash datagram where seal: "seal demo_crypto 5 (egress_payload demo_rlp demo_ping_request) = (hash, datagram)" by fastforce
  obtain effs s1 where e: "egress_route demo_crypto demo_rlp 5 ?i True (demo_addr, ?p, demo_ping_request) crowded = (effs, s1)" by fastforce
  obtain answered s2 where a: "on_pong \<lparr>po_to = demo_endpoint, po_echo = hash, po_expire = 0\<rparr> s1 = (answered, s2)" by fastforce
  obtain lost s3 where l: "ping_timeout (cr_keccak demo_crypto) hash ?p s1 = (lost, s3)" by fastforce
  have reach: "disc_reach demo_crypto demo_rlp 5 ?i (crowded, {})"
    unfolding disc_reach_def by (rule reach_init) (auto simp: disc_start_def crowded_def)
  have fresh: "map_of (dn_inflight_pings crowded) hash = None" by (simp add: crowded_def new_node_def)
  have "?p \<noteq> ?i" by simp
  note r = ping_answered_or_replaced [OF demo_crypto_ok reach seal [unfolded demo_ping_request_def] this fresh
      e [unfolded demo_ping_request_def] a l, unfolded crowded_replacement option.case]
  have "table_bucket (cr_keccak demo_crypto) (dn_connected s3) ?p =
      Some \<lparr>kb_bucket = [] @ map near_node [15, 14, 13, 12, 11, 10, 9, 8, 7, 6, 5, 4, 3, 2, 1] @ [near_node 17], kb_replacements = []\<rparr>"
    using r [THEN conjunct2, THEN conjunct2, THEN conjunct2, THEN conjunct2, THEN conjunct2, THEN conjunct2, THEN conjunct1,
        THEN conjunct2, rule_format, of "[]" "near_node 16"] by (simp add: near_node_def)
  moreover have "effs = [Datagram demo_addr datagram]" "answered = Ok [Fire 8]" "lost = [Forget 8]" using r by blast+
  ultimately show ?thesis using e a l by (intro exI [of _ hash] exI [of _ datagram] exI [of _ s1] exI [of _ s3]) simp
qed

lemma demo_oldest:
  "length vs = 16 \<Longrightarrow> distinct vs \<Longrightarrow> kb_bucket (kbuckets (demo_table vs) ! 255) = map demo_node vs"
  using fold_add_seen [of kbucket_default "map demo_node vs"]
  by (simp add: demo_table_props fold_map comp_def kbucket_default_def demo_node_def kad_sizes distinct_map inj_on_def)

lemma filled_255:
  "length (kbuckets t) = 256 \<Longrightarrow> length (kb_bucket (kbuckets t ! 255)) = 16 \<Longrightarrow> 255 \<in> set (filled_buckets t)"
  by (force simp: filled_buckets_def in_set_enumerate_eq kad_sizes intro: image_eqI [of _ _ "(255, kbuckets t ! 255)"])

definition demo_ids :: bytes where "demo_ids = [1, 2, 3, 4, 5, 6, 7, 8, 9, 10, 11, 12, 13, 14, 15, 16]"

theorem oldest_never_pinged_witness:
  "oldest_ping [] 9 8 255 (demo_state\<lparr>dn_connected := demo_table demo_ids\<rparr>) =
     Some ((V4 [10, 0, 0, 16], 30303), [], EPing \<lparr>pi_from = demo_endpoint, pi_to = endpoint_of (demo_node 16), pi_expire = 9\<rparr> (Some 8)) \<and>
   egress_route demo_crypto demo_rlp 5 [] True
     ((V4 [10, 0, 0, 16], 30303), [], EPing \<lparr>pi_from = demo_endpoint, pi_to = endpoint_of (demo_node 16), pi_expire = 9\<rparr> (Some 8))
     (demo_state\<lparr>dn_connected := demo_table demo_ids\<rparr>) = ([Forget 8], demo_state\<lparr>dn_connected := demo_table demo_ids\<rparr>)"
proof -
  have b: "kb_bucket (kbuckets (demo_table demo_ids) ! 255) = map demo_node demo_ids"
    by (rule demo_oldest) (simp_all add: demo_ids_def)
  then have "255 \<in> set (filled_buckets (demo_table demo_ids))"
    by (intro filled_255) (simp_all add: demo_table_props demo_ids_def)
  moreover have "oldest (demo_table demo_ids) 255 = Some (demo_node 16)"
    by (simp add: oldest_def b Let_def) (simp add: demo_ids_def)
  ultimately have "oldest_ping [] 9 8 255 (demo_state\<lparr>dn_connected := demo_table demo_ids\<rparr>) =
     Some ((V4 [10, 0, 0, 16], 30303), [], EPing \<lparr>pi_from = demo_endpoint, pi_to = endpoint_of (demo_node 16), pi_expire = 9\<rparr> (Some 8))"
    by (simp add: oldest_ping_def udp_addr_def demo_node_def demo_state_def new_node_def)
  from oldest_never_pinged [OF this, of demo_crypto demo_rlp 5 True] this show ?thesis by blast
qed

end
