(* ===== verification/Discv4_Lookup.thy ===== *)
theory Discv4_Lookup
  imports Discv4_Node
begin

text \<open>
  The lookup of a node, \<open>lookup_inner\<close> of \<^verbatim>\<open>discv4/src/node.rs\<close>. What the nodes that are asked
  answer is a parameter: for each round and each node the messages that were collected, or nothing.
\<close>

section \<open>The query of one node\<close>

text \<open>What it puts into and takes out of the map of expected pings, and the two requests it makes.\<close>

definition expect_ping :: "sock_addr \<Rightarrow> u64 \<Rightarrow> 'cb \<Rightarrow> (sock_addr \<times> (u64 \<times> 'cb) list) list \<Rightarrow> (sock_addr \<times> (u64 \<times> 'cb) list) list" where
  "expect_ping addr i tx pings =
     AList.update addr (AList.update i tx (case map_of pings addr of None \<Rightarrow> [] | Some cbs \<Rightarrow> cbs)) pings"

definition unexpect_ping :: "sock_addr \<Rightarrow> u64 \<Rightarrow> (sock_addr \<times> (u64 \<times> 'cb) list) list \<Rightarrow> (sock_addr \<times> (u64 \<times> 'cb) list) list" where
  "unexpect_ping addr i pings =
     (case map_of pings addr of
        None \<Rightarrow> pings
      | Some cbs \<Rightarrow>
          (let cbs' = AList.delete i cbs
           in if cbs' = [] then AList.delete addr pings else AList.update addr cbs' pings))"

definition query_ping :: "endpoint \<Rightarrow> u64 \<Rightarrow> 'cb \<Rightarrow> node_record \<Rightarrow> sock_addr \<times> node_id \<times> 'cb egress_message" where
  "query_ping node_endpoint expire tx node =
     (udp_addr node, nr_id node, EPing \<lparr>pi_from = node_endpoint, pi_to = endpoint_of node, pi_expire = expire\<rparr> (Some tx))"

definition query_find_node :: "node_id \<Rightarrow> u64 \<Rightarrow> node_record \<Rightarrow> sock_addr \<times> node_id \<times> 'cb egress_message" where
  "query_find_node target expire node =
     (udp_addr node, nr_id node, EFindNode \<lparr>fn_id = target, fn_expire = expire\<rparr>)"

text \<open>How it ends: without a pong, at the overall timeout, or when no more neighbours come.\<close>

datatype query_end = PongLost | QueryTimeout | Collected "neighbours_message list"

fun query_result :: "query_end \<Rightarrow> neighbours_message list option" where
  "query_result PongLost = None"
| "query_result QueryTimeout = None"
| "query_result (Collected ms) = (if ms = [] then None else Some ms)"

section \<open>The rounds\<close>

record query_node =
  qn_record :: node_record
  qn_queried :: bool
  qn_responded :: bool

definition fresh_node :: "node_record \<Rightarrow> query_node" where
  "fresh_node r = \<lparr>qn_record = r, qn_queried = False, qn_responded = False\<rparr>"

type_synonym nearest_nodes = "(h256 \<times> query_node) list"

definition lookup_start :: "(bytes \<Rightarrow> h256) \<Rightarrow> table \<Rightarrow> node_id \<Rightarrow> nearest_nodes" where
  "lookup_start kk t target =
     bt_collect (take ALPHA (map (\<lambda>(d, r). (d, fresh_node r)) (nearest_node_entries kk t target)))"

definition picked_nodes :: "nearest_nodes \<Rightarrow> nearest_nodes" where
  "picked_nodes nearest = filter (\<lambda>(d, q). \<not> qn_queried q) (take ALPHA nearest)"

definition mark_queried :: "nearest_nodes \<Rightarrow> nearest_nodes" where
  "mark_queried nearest = map (\<lambda>(d, q). (d, q\<lparr>qn_queried := True\<rparr>)) (take ALPHA nearest) @ drop ALPHA nearest"

definition add_found :: "(bytes \<Rightarrow> h256) \<Rightarrow> node_id \<Rightarrow> node_record \<Rightarrow> nearest_nodes \<Rightarrow> nearest_nodes" where
  "add_found kk target r nearest =
     (let d = distance kk target (nr_id r)
      in if map_of nearest d = None then bt_insert d (fresh_node r) nearest else nearest)"

definition take_answer :: "(bytes \<Rightarrow> h256) \<Rightarrow> node_id \<Rightarrow> h256 \<times> neighbours_message list \<Rightarrow> nearest_nodes
    \<Rightarrow> (unit, nearest_nodes) outcome" where
  "take_answer kk target answer nearest =
     (case answer of (d, messages) \<Rightarrow>
        (case map_of nearest d of
           None \<Rightarrow> Panic
         | Some q \<Rightarrow> Ok (fold (add_found kk target) (concat (map nb_nodes messages))
                           (bt_insert d (q\<lparr>qn_responded := True\<rparr>) nearest))))"

fun take_answers :: "(bytes \<Rightarrow> h256) \<Rightarrow> node_id \<Rightarrow> (h256 \<times> neighbours_message list) list \<Rightarrow> nearest_nodes
    \<Rightarrow> (unit, nearest_nodes) outcome" where
  "take_answers kk target [] nearest = Ok nearest"
| "take_answers kk target (a # as) nearest = bind_outcome (take_answer kk target a nearest) (take_answers kk target as)"

definition lookup_round :: "(bytes \<Rightarrow> h256) \<Rightarrow> node_id \<Rightarrow> (node_record \<Rightarrow> neighbours_message list option)
    \<Rightarrow> nearest_nodes \<Rightarrow> (unit, nearest_nodes) outcome" where
  "lookup_round kk target answer nearest =
     take_answers kk target
       (List.map_filter (\<lambda>(d, q). map_option (Pair d) (answer (qn_record q))) (picked_nodes nearest))
       (mark_queried nearest)"

text \<open>The loop: \<open>None\<close> if it does not end.\<close>

partial_function (option) lookup_loop :: "(bytes \<Rightarrow> h256) \<Rightarrow> node_id \<Rightarrow> (nat \<Rightarrow> node_record \<Rightarrow> neighbours_message list option)
    \<Rightarrow> nat \<Rightarrow> nearest_nodes \<Rightarrow> (unit, nearest_nodes) outcome option" where
  "lookup_loop kk target answer round_no nearest =
     (if picked_nodes nearest = [] then Some (Ok nearest)
      else (case lookup_round kk target (answer round_no) nearest of
              Ok nearest' \<Rightarrow> lookup_loop kk target answer (Suc round_no) nearest'
            | Err e \<Rightarrow> Some (Err e)
            | Panic \<Rightarrow> Some Panic))"

definition lookup_inner :: "(bytes \<Rightarrow> h256) \<Rightarrow> table \<Rightarrow> node_id \<Rightarrow> (nat \<Rightarrow> node_record \<Rightarrow> neighbours_message list option)
    \<Rightarrow> (unit, node_record list) outcome option" where
  "lookup_inner kk t target answer =
     map_option (\<lambda>r. bind_outcome r (\<lambda>nearest.
        Ok (map (qn_record \<circ> snd) (filter (\<lambda>(d, q). qn_responded q) nearest))))
       (lookup_loop kk target answer 0 (lookup_start kk t target))"

text \<open>The lookup that the discovery task makes for a random target, the one that refreshes the table of the node, and what it reports.\<close>

definition node_lookup :: "(bytes \<Rightarrow> h256) \<Rightarrow> 'cb disc_node \<Rightarrow> node_id \<Rightarrow> (nat \<Rightarrow> node_record \<Rightarrow> neighbours_message list option)
    \<Rightarrow> (unit, node_record list) outcome option" where
  "node_lookup kk n target answer = lookup_inner kk (dn_connected n) target answer"

definition lookup_self :: "(bytes \<Rightarrow> h256) \<Rightarrow> 'cb disc_node \<Rightarrow> node_id \<Rightarrow> (nat \<Rightarrow> node_record \<Rightarrow> neighbours_message list option)
    \<Rightarrow> (unit, node_record list) outcome option" where
  "lookup_self kk n own answer = lookup_inner kk (dn_connected n) own answer"

definition num_nodes :: "'cb disc_node \<Rightarrow> nat" where
  "num_nodes n = table_len (dn_connected n)"

lemma table_len_bound: "table_inv kk t \<Longrightarrow> table_len t \<le> ADDRESS_BITS * BUCKET_SIZE"
proof -
  assume t: "table_inv kk t"
  have "length (concat (map kb_bucket bs)) \<le> length bs * BUCKET_SIZE"
    if "\<forall>b \<in> set bs. length (kb_bucket b) \<le> BUCKET_SIZE" for bs :: "kbucket list"
    using that by (induction bs) auto
  from this [of "kbuckets t"] t show "table_len t \<le> ADDRESS_BITS * BUCKET_SIZE"
    by (simp add: table_len_eq table_nodes_def table_inv_def bucket_ok_def all_set_conv_all_nth)
qed

lemma num_nodes_bound:
  assumes "crypto_ok C" "disc_reach C R sk own (n, H)"
  shows "num_nodes n \<le> 4096"
  using table_len_bound [of "cr_keccak C" "dn_connected n"] disc_reach_inv [OF assms]
  by (simp add: num_nodes_def kad_sizes)

section \<open>What a round keeps and what it adds\<close>

lemma set_bt_insert: "bt_sorted m \<Longrightarrow> set (bt_insert k v m) = insert (k, v) {e \<in> set m. fst e \<noteq> k}"
proof (induction m)
  case (Cons e m)
  then show ?case by (cases "fst e < k"; cases "fst e = k") force+
qed simp

lemma distance_sym: "distance kk a b = distance kk b a"
  by (rule nth_equalityI) (auto simp: distance_def xor_bytes_def xor.commute)

lemma add_found_keys:
  assumes "bt_sorted m"
  shows "bt_sorted (add_found kk target r m)" "set m \<subseteq> set (add_found kk target r m)"
    "fst ` set (add_found kk target r m) = insert (distance kk target (nr_id r)) (fst ` set m)"
    "set (add_found kk target r m) \<subseteq> insert (distance kk target (nr_id r), fresh_node r) (set m)"
  using assms bt_insert_sorted [OF assms]
  by (auto simp: add_found_def Let_def set_bt_insert map_of_eq_None_iff image_iff dest: map_of_SomeD)

lemma fold_add_found_all:
  "bt_sorted m \<Longrightarrow>
   bt_sorted (fold (add_found kk target) ns m) \<and> set m \<subseteq> set (fold (add_found kk target) ns m) \<and>
   fst ` set (fold (add_found kk target) ns m) = (\<lambda>r. distance kk target (nr_id r)) ` set ns \<union> fst ` set m \<and>
   set (fold (add_found kk target) ns m) \<subseteq> (\<lambda>r. (distance kk target (nr_id r), fresh_node r)) ` set ns \<union> set m"
proof (induction ns arbitrary: m)
  case (Cons r ns)
  note one = add_found_keys [OF Cons.prems, of kk target r]
  show ?case using Cons.IH [OF one(1)] one by auto
qed simp

lemmas fold_add_found = fold_add_found_all [THEN conjunct1] fold_add_found_all [THEN conjunct2, THEN conjunct1]
  fold_add_found_all [THEN conjunct2, THEN conjunct2, THEN conjunct1]
  fold_add_found_all [THEN conjunct2, THEN conjunct2, THEN conjunct2]

text \<open>Entries are never lost, nor what has been done with them; and which nodes have been asked.\<close>

definition extends :: "nearest_nodes \<Rightarrow> nearest_nodes \<Rightarrow> bool" where
  "extends m m' \<longleftrightarrow> (\<forall>(d, q) \<in> set m. \<exists>q'. (d, q') \<in> set m' \<and> qn_record q' = qn_record q \<and>
     (qn_queried q \<longrightarrow> qn_queried q') \<and> (qn_responded q \<longrightarrow> qn_responded q'))"

definition asked :: "nearest_nodes \<Rightarrow> h256 set" where
  "asked m = {d. \<exists>q. (d, q) \<in> set m \<and> qn_queried q}"

lemma extendsE:
  assumes "extends m m'" "(d, q) \<in> set m"
  obtains q' where "(d, q') \<in> set m'" "qn_record q' = qn_record q" "qn_queried q \<longrightarrow> qn_queried q'"
    "qn_responded q \<longrightarrow> qn_responded q'"
  using assms unfolding extends_def by blast

lemma extends_refl [simp]: "extends m m"
  unfolding extends_def by blast

lemma extends_trans: "extends a b \<Longrightarrow> extends b c \<Longrightarrow> extends a c"
  unfolding extends_def by (fastforce split: prod.splits)

lemma extends_keys: "extends m m' \<Longrightarrow> fst ` set m \<subseteq> fst ` set m'"
  by (force elim: extendsE)

lemma asked_extends: "extends m m' \<Longrightarrow> asked m \<subseteq> asked m'"
  unfolding asked_def by (auto elim!: extendsE)

lemma bt_sorted_unique: "bt_sorted m \<Longrightarrow> (d, q) \<in> set m \<Longrightarrow> map_of m d = Some q"
  by (rule map_of_is_SomeI) (simp_all only: strict_sorted_iff)

lemma bt_sorted_same: "bt_sorted m \<Longrightarrow> (d, q) \<in> set m \<Longrightarrow> (d, q') \<in> set m \<Longrightarrow> q' = q"
  using bt_sorted_unique by (metis option.inject)

text \<open>
  The invariant of the rounds. \<open>at\<close> is the round in which a node was asked. Keys are the distances of their
  records; a node that has responded has answered in its round, and the nodes it named are all in the map;
  and every node of the map was in it at the start, or has been named by one that responded.
\<close>

definition named_in :: "(bytes \<Rightarrow> h256) \<Rightarrow> node_id \<Rightarrow> nearest_nodes \<Rightarrow> neighbours_message list \<Rightarrow> bool" where
  "named_in kk target m ms \<longleftrightarrow> (\<forall>n \<in> set (concat (map nb_nodes ms)). distance kk target (nr_id n) \<in> fst ` set m)"

definition named_by :: "(nat \<Rightarrow> node_record \<Rightarrow> neighbours_message list option) \<Rightarrow> (h256 \<Rightarrow> nat) \<Rightarrow> nearest_nodes
    \<Rightarrow> node_record \<Rightarrow> bool" where
  "named_by answer at m r \<longleftrightarrow> (\<exists>d q ms. (d, q) \<in> set m \<and> qn_responded q \<and> answer (at d) (qn_record q) = Some ms \<and>
     r \<in> set (concat (map nb_nodes ms)))"

definition entry_good :: "(bytes \<Rightarrow> h256) \<Rightarrow> node_id \<Rightarrow> (nat \<Rightarrow> node_record \<Rightarrow> neighbours_message list option) \<Rightarrow> nearest_nodes
    \<Rightarrow> (h256 \<Rightarrow> nat) \<Rightarrow> nearest_nodes \<Rightarrow> h256 \<times> query_node \<Rightarrow> bool" where
  "entry_good kk target answer start at m e \<longleftrightarrow>
     fst e = distance kk target (nr_id (qn_record (snd e))) \<and>
     (qn_responded (snd e) \<longrightarrow> qn_queried (snd e) \<and>
        (\<exists>ms. answer (at (fst e)) (qn_record (snd e)) = Some ms \<and> named_in kk target m ms)) \<and>
     ((\<exists>q. (fst e, q) \<in> set start \<and> qn_record q = qn_record (snd e)) \<or> named_by answer at m (qn_record (snd e)))"

definition look_inv :: "(bytes \<Rightarrow> h256) \<Rightarrow> node_id \<Rightarrow> (nat \<Rightarrow> node_record \<Rightarrow> neighbours_message list option) \<Rightarrow> nearest_nodes
    \<Rightarrow> (h256 \<Rightarrow> nat) \<Rightarrow> nearest_nodes \<Rightarrow> bool" where
  "look_inv kk target answer start at m \<longleftrightarrow> bt_sorted m \<and> (\<forall>e \<in> set m. entry_good kk target answer start at m e)"

text \<open>Between rounds all answers have been taken, and every round so far has asked somebody.\<close>

definition look_state :: "(bytes \<Rightarrow> h256) \<Rightarrow> node_id \<Rightarrow> (nat \<Rightarrow> node_record \<Rightarrow> neighbours_message list option) \<Rightarrow> nearest_nodes
    \<Rightarrow> (h256 \<Rightarrow> nat) \<Rightarrow> nat \<Rightarrow> nearest_nodes \<Rightarrow> bool" where
  "look_state kk target answer start at k m \<longleftrightarrow> look_inv kk target answer start at m \<and>
     (\<forall>(d, q) \<in> set m. qn_queried q \<and> answer (at d) (qn_record q) \<noteq> None \<longrightarrow> qn_responded q) \<and>
     at ` asked m = {..<k}"

lemma named_by_mono:
  assumes inv: "look_inv kk target answer start at m" and "extends m m'" "\<And>d. d \<in> asked m \<Longrightarrow> at' d = at d"
    and "named_by answer at m r"
  shows "named_by answer at' m' r"
proof -
  obtain d q ms where q: "(d, q) \<in> set m" "qn_responded q" "answer (at d) (qn_record q) = Some ms" "r \<in> set (concat (map nb_nodes ms))"
    using assms(4) unfolding named_by_def by blast
  have "qn_queried q" using inv q(1,2) by (auto simp: look_inv_def entry_good_def)
  then have "at' d = at d" using assms(3) q(1) by (auto simp: asked_def)
  moreover obtain q' where "(d, q') \<in> set m'" "qn_record q' = qn_record q" "qn_responded q'"
    using extendsE [OF assms(2) q(1)] q(2) by blast
  ultimately show ?thesis using q(3,4) unfolding named_by_def by (metis (no_types))
qed

lemma entry_good_mono:
  assumes "look_inv kk target answer start at m" "extends m m'" "\<And>d. d \<in> asked m \<Longrightarrow> at' d = at d" "e \<in> set m"
  shows "entry_good kk target answer start at' m' e"
proof -
  have e: "entry_good kk target answer start at m e" using assms(1,4) by (simp add: look_inv_def)
  have "at' (fst e) = at (fst e)" if "qn_queried (snd e)"
    using assms(3) [of "fst e"] assms(4) that by (cases e) (auto simp: asked_def)
  moreover have "named_in kk target m' ms" if "named_in kk target m ms" for ms
    using that extends_keys [OF assms(2)] unfolding named_in_def by blast
  moreover note named_by_mono [OF assms(1-3)]
  ultimately show ?thesis using e unfolding entry_good_def by metis
qed

lemma entry_good_queried:
  "entry_good kk target answer start at m (d, q) \<Longrightarrow> entry_good kk target answer start at m (d, q\<lparr>qn_queried := True\<rparr>)"
  by (auto simp: entry_good_def)

lemma entry_good_responded:
  "named_in kk target m ms \<Longrightarrow> entry_good kk target answer start at m (d, q) \<Longrightarrow> qn_queried q \<Longrightarrow>
   answer (at d) (qn_record q) = Some ms \<Longrightarrow> entry_good kk target answer start at m (d, q\<lparr>qn_responded := True\<rparr>)"
  by (auto simp: entry_good_def)

lemma take_answer_ok:
  assumes inv: "look_inv kk target answer start at m" and e: "(d, q) \<in> set m"
    and q: "qn_queried q" "answer (at d) (qn_record q) = Some ms"
  shows "\<exists>m'. take_answer kk target (d, ms) m = Ok m' \<and> look_inv kk target answer start at m' \<and> extends m m' \<and>
    asked m' = asked m \<and> (\<exists>q'. (d, q') \<in> set m' \<and> qn_responded q')"
proof -
  let ?ns = "concat (map nb_nodes ms)" and ?q = "q\<lparr>qn_responded := True\<rparr>"
  let ?i = "bt_insert d ?q m"
  let ?m = "fold (add_found kk target) ?ns ?i"
  have srt: "bt_sorted m" "bt_sorted ?i" using inv bt_insert_sorted by (auto simp: look_inv_def)
  note f = fold_add_found [OF srt(2), of kk target ?ns]
  have i: "set ?i = insert (d, ?q) {x \<in> set m. fst x \<noteq> d}" by (rule set_bt_insert [OF srt(1)])
  have new: "(d, ?q) \<in> set ?m" using f(2) i by blast
  have cases: "x = (d, ?q) \<or> x \<in> set m \<or> (\<exists>r \<in> set ?ns. x = (distance kk target (nr_id r), fresh_node r))" if "x \<in> set ?m" for x
    using subsetD [OF f(4) that] unfolding i by blast
  have ext: "extends m ?m"
    unfolding extends_def
  proof (clarify)
    fix d' q'
    assume d': "(d', q') \<in> set m"
    show "\<exists>q''. (d', q'') \<in> set ?m \<and> qn_record q'' = qn_record q' \<and> (qn_queried q' \<longrightarrow> qn_queried q'') \<and>
        (qn_responded q' \<longrightarrow> qn_responded q'')"
    proof (cases "d' = d")
      case True
      then have "q' = q" using bt_sorted_same [OF srt(1) e] d' by simp
      then show ?thesis using True new by (intro exI [of _ ?q]) simp
    next
      case False
      then show ?thesis using d' f(2) i by (intro exI [of _ q']) auto
    qed
  qed
  have "entry_good kk target answer start at ?m x" if x: "x \<in> set ?m" for x
    using cases [OF x]
  proof (elim disjE bexE)
    assume x: "x = (d, ?q)"
    have "named_in kk target ?m ms" using f(3) by (auto simp: named_in_def)
    moreover have "entry_good kk target answer start at ?m (d, q)" by (rule entry_good_mono [OF inv ext _ e]) (rule refl)
    ultimately show ?thesis using q unfolding x by (intro entry_good_responded)
  next
    assume "x \<in> set m"
    then show ?thesis by (intro entry_good_mono [OF inv ext]) (rule refl)
  next
    fix r
    assume r: "r \<in> set ?ns" "x = (distance kk target (nr_id r), fresh_node r)"
    have "named_by answer at ?m r" using new q(2) r(1) unfolding named_by_def by (intro exI [of _ d] exI [of _ ?q]) simp
    then show ?thesis using r(2) by (simp add: entry_good_def fresh_node_def)
  qed
  then have "look_inv kk target answer start at ?m" using f(1) by (simp add: look_inv_def)
  moreover have "asked ?m \<subseteq> asked m"
  proof
    fix d'
    assume "d' \<in> asked ?m"
    then obtain q' where "(d', q') \<in> set ?m" "qn_queried q'" by (auto simp: asked_def)
    from cases [OF this(1)] this(2) e q(1) show "d' \<in> asked m" by (auto simp: asked_def fresh_node_def)
  qed
  moreover have "take_answer kk target (d, ms) m = Ok ?m"
    using bt_sorted_unique [OF srt(1) e] by (simp add: take_answer_def)
  moreover have "qn_responded ?q" by simp
  ultimately show ?thesis using ext new asked_extends [OF ext] by blast
qed

definition answers_good :: "(nat \<Rightarrow> node_record \<Rightarrow> neighbours_message list option) \<Rightarrow> (h256 \<Rightarrow> nat) \<Rightarrow> nearest_nodes
    \<Rightarrow> (h256 \<times> neighbours_message list) list \<Rightarrow> bool" where
  "answers_good answer at m as \<longleftrightarrow>
     (\<forall>(d, ms) \<in> set as. \<exists>q. (d, q) \<in> set m \<and> qn_queried q \<and> answer (at d) (qn_record q) = Some ms)"

lemma answers_good_extends: "answers_good answer at m as \<Longrightarrow> extends m m' \<Longrightarrow> answers_good answer at m' as"
  unfolding answers_good_def extends_def by (fastforce split: prod.splits)

lemma take_answers_ok:
  "look_inv kk target answer start at m \<Longrightarrow> answers_good answer at m as \<Longrightarrow>
   \<exists>m'. take_answers kk target as m = Ok m' \<and> look_inv kk target answer start at m' \<and> extends m m' \<and>
     asked m' = asked m \<and> (\<forall>d \<in> fst ` set as. \<exists>q'. (d, q') \<in> set m' \<and> qn_responded q')"
proof (induction as arbitrary: m)
  case Nil
  then show ?case by simp
next
  case (Cons a as)
  obtain d ms where a: "a = (d, ms)" by (cases a)
  obtain q where "(d, q) \<in> set m" "qn_queried q" "answer (at d) (qn_record q) = Some ms"
    using Cons.prems(2) a by (auto simp: answers_good_def)
  then obtain m1 q1 where m1: "take_answer kk target (d, ms) m = Ok m1" "look_inv kk target answer start at m1" "extends m m1"
    "asked m1 = asked m" "(d, q1) \<in> set m1" "qn_responded q1"
    using take_answer_ok [OF Cons.prems(1)] by blast
  have "answers_good answer at m1 as"
    using Cons.prems(2) by (intro answers_good_extends [OF _ m1(3)]) (simp add: answers_good_def)
  from Cons.IH [OF m1(2) this] obtain m2 where m2:
    "take_answers kk target as m1 = Ok m2" "look_inv kk target answer start at m2" "extends m1 m2" "asked m2 = asked m1"
    "\<forall>d \<in> fst ` set as. \<exists>q'. (d, q') \<in> set m2 \<and> qn_responded q'" by blast
  obtain q2 where "(d, q2) \<in> set m2" "qn_responded q2" using extendsE [OF m2(3) m1(5)] m1(6) by blast
  then show ?case using a m1 m2 extends_trans [OF m1(3) m2(3)] by (intro exI [of _ m2]) auto
qed

lemma mark_queried_keys: "map fst (mark_queried m) = map fst m"
proof -
  have "map fst (map (\<lambda>(d, q). (d, q\<lparr>qn_queried := True\<rparr>)) (take ALPHA m)) = map fst (take ALPHA m)" by auto
  then show ?thesis unfolding mark_queried_def by (metis append_take_drop_id map_append)
qed

lemma mark_queried_sub:
  "e \<in> set (mark_queried m) \<Longrightarrow> e \<in> set m \<or> (\<exists>d q. (d, q) \<in> set m \<and> e = (d, q\<lparr>qn_queried := True\<rparr>))"
  unfolding mark_queried_def by (auto dest: in_set_takeD in_set_dropD)

lemma mark_queried_extends: "extends m (mark_queried m)"
  unfolding extends_def
proof (clarify)
  fix d q
  assume "(d, q) \<in> set m"
  then consider "(d, q) \<in> set (take ALPHA m)" | "(d, q) \<in> set (drop ALPHA m)"
    by (metis Un_iff append_take_drop_id set_append)
  then show "\<exists>q'. (d, q') \<in> set (mark_queried m) \<and> qn_record q' = qn_record q \<and> (qn_queried q \<longrightarrow> qn_queried q') \<and>
      (qn_responded q \<longrightarrow> qn_responded q')"
  proof cases
    case 1
    then have "(\<lambda>(d, q). (d, q\<lparr>qn_queried := True\<rparr>)) (d, q) \<in> set (mark_queried m)"
      unfolding mark_queried_def set_append set_map by (intro UnI1 imageI)
    then show ?thesis by (intro exI [of _ "q\<lparr>qn_queried := True\<rparr>"]) simp
  next
    case 2
    then show ?thesis unfolding mark_queried_def by (intro exI [of _ q]) simp
  qed
qed

lemma picked_marked: "(d, q) \<in> set (picked_nodes m) \<Longrightarrow> (d, q\<lparr>qn_queried := True\<rparr>) \<in> set (mark_queried m)"
proof -
  assume "(d, q) \<in> set (picked_nodes m)"
  then have "(d, q) \<in> set (take ALPHA m)" by (simp add: picked_nodes_def)
  then have "(\<lambda>(d, q). (d, q\<lparr>qn_queried := True\<rparr>)) (d, q) \<in> set (mark_queried m)"
    unfolding mark_queried_def set_append set_map by (intro UnI1 imageI)
  then show ?thesis by simp
qed

lemma picked_fresh:
  assumes "bt_sorted m" "(d, q) \<in> set (picked_nodes m)"
  shows "(d, q) \<in> set m" "d \<notin> asked m"
proof -
  show q: "(d, q) \<in> set m" using assms(2) by (auto simp: picked_nodes_def dest: in_set_takeD)
  have "\<not> qn_queried q" using assms(2) by (simp add: picked_nodes_def)
  then show "d \<notin> asked m" using bt_sorted_same [OF assms(1) q] by (auto simp: asked_def)
qed

lemma asked_marked: "asked (mark_queried m) = asked m \<union> fst ` set (picked_nodes m)"
proof
  show "asked (mark_queried m) \<subseteq> asked m \<union> fst ` set (picked_nodes m)"
  proof
    fix d
    assume "d \<in> asked (mark_queried m)"
    then obtain q where q: "(d, q) \<in> set (mark_queried m)" "qn_queried q" by (auto simp: asked_def)
    then consider "(d, q) \<in> set (drop ALPHA m)" | q' where "(d, q') \<in> set (take ALPHA m)" by (auto simp: mark_queried_def)
    then show "d \<in> asked m \<union> fst ` set (picked_nodes m)"
    proof cases
      case 1
      then show ?thesis using q(2) by (auto simp: asked_def dest: in_set_dropD)
    next
      case 2
      then show ?thesis by (cases "qn_queried q'") (force simp: asked_def picked_nodes_def dest: in_set_takeD)+
    qed
  qed
  have "d \<in> asked (mark_queried m)" if "(d, q) \<in> set (picked_nodes m)" for d q
    using picked_marked [OF that] by (force simp: asked_def)
  then show "asked m \<union> fst ` set (picked_nodes m) \<subseteq> asked (mark_queried m)"
    using asked_extends [OF mark_queried_extends] by auto
qed

text \<open>The round of every node, when round \<open>k\<close> has picked its nodes.\<close>

definition asked_at :: "nat \<Rightarrow> nearest_nodes \<Rightarrow> (h256 \<Rightarrow> nat) \<Rightarrow> h256 \<Rightarrow> nat" where
  "asked_at k m at d = (if d \<in> fst ` set (picked_nodes m) then k else at d)"

lemma asked_at_old: "bt_sorted m \<Longrightarrow> d \<in> asked m \<Longrightarrow> asked_at k m at d = at d"
  using picked_fresh(2) by (fastforce simp: asked_at_def)

lemma mark_queried_inv:
  assumes inv: "look_inv kk target answer start at m"
  shows "look_inv kk target answer start (asked_at k m at) (mark_queried m)"
proof -
  have srt: "bt_sorted m" using inv by (simp add: look_inv_def)
  have good: "entry_good kk target answer start (asked_at k m at) (mark_queried m) x" if "x \<in> set m" for x
    using that by (intro entry_good_mono [OF inv mark_queried_extends] asked_at_old [OF srt])
  have "entry_good kk target answer start (asked_at k m at) (mark_queried m) e" if "e \<in> set (mark_queried m)" for e
  proof -
    from mark_queried_sub [OF that] consider "e \<in> set m" | d q where "(d, q) \<in> set m" "e = (d, q\<lparr>qn_queried := True\<rparr>)"
      by blast
    then show ?thesis
    proof cases
      case 2
      then show ?thesis using entry_good_queried [OF good [OF 2(1)]] by simp
    qed (rule good)
  qed
  then show ?thesis using srt by (simp add: look_inv_def mark_queried_keys)
qed

lemma in_answers:
  "(d, ms) \<in> set (List.map_filter (\<lambda>(d, q). map_option (Pair d) (f (qn_record q))) xs) \<longleftrightarrow>
   (\<exists>q. (d, q) \<in> set xs \<and> f (qn_record q) = Some ms)"
  by (induction xs) (auto simp: map_filter_simps split: option.splits)

lemma lookup_round_ok:
  assumes st: "look_state kk target answer start at k m" and picked: "picked_nodes m \<noteq> []"
  shows "\<exists>m'. lookup_round kk target (answer k) m = Ok m' \<and> look_state kk target answer start (asked_at k m at) (Suc k) m' \<and>
    extends m m' \<and> asked m \<subset> asked m'"
proof -
  let ?at = "asked_at k m at"
  let ?as = "List.map_filter (\<lambda>(d, q). map_option (Pair d) (answer k (qn_record q))) (picked_nodes m)"
  have inv: "look_inv kk target answer start at m" and srt: "bt_sorted m" using st by (simp_all add: look_state_def look_inv_def)
  have as: "(d, ms) \<in> set ?as \<longleftrightarrow> (\<exists>q. (d, q) \<in> set (picked_nodes m) \<and> answer k (qn_record q) = Some ms)" for d ms
    by (rule in_answers)
  have now: "?at d = k" if "(d, q) \<in> set (picked_nodes m)" for d q using that by (force simp: asked_at_def)
  have "answers_good answer ?at (mark_queried m) ?as"
    unfolding answers_good_def
  proof (clarify)
    fix d ms
    assume "(d, ms) \<in> set ?as"
    then obtain q where q: "(d, q) \<in> set (picked_nodes m)" "answer k (qn_record q) = Some ms" using as by blast
    then show "\<exists>q. (d, q) \<in> set (mark_queried m) \<and> qn_queried q \<and> answer (?at d) (qn_record q) = Some ms"
      using picked_marked [OF q(1)] now by (intro exI [of _ "q\<lparr>qn_queried := True\<rparr>"]) simp
  qed
  from take_answers_ok [OF mark_queried_inv [OF inv] this] obtain m' where m': "lookup_round kk target (answer k) m = Ok m'"
    "look_inv kk target answer start ?at m'" "extends (mark_queried m) m'" "asked m' = asked (mark_queried m)"
    "\<forall>d \<in> fst ` set ?as. \<exists>q'. (d, q') \<in> set m' \<and> qn_responded q'"
    unfolding lookup_round_def by blast
  have ext: "extends m m'" by (rule extends_trans [OF mark_queried_extends m'(3)])
  have srt': "bt_sorted m'" using m'(2) by (simp add: look_inv_def)
  have "qn_responded q" if q: "(d, q) \<in> set m'" "qn_queried q" "answer (?at d) (qn_record q) = Some ms" for d q ms
  proof -
    have "d \<in> asked m \<union> fst ` set (picked_nodes m)" using q(1,2) m'(4) asked_marked [of m] by (auto simp: asked_def)
    then consider q0 where "(d, q0) \<in> set (picked_nodes m)" | q0 where "(d, q0) \<in> set m" "qn_queried q0" "d \<in> asked m"
      by (auto simp: asked_def)
    then show ?thesis
    proof cases
      case 1
      obtain q1 where "(d, q1) \<in> set m'" "qn_record q1 = qn_record q0" using extendsE [OF ext picked_fresh(1) [OF srt 1]] by blast
      then have "qn_record q0 = qn_record q" using bt_sorted_same [OF srt' q(1)] by simp
      then have "(d, ms) \<in> set ?as" using 1 now [OF 1] q(3) as by auto
      then obtain q2 where "(d, q2) \<in> set m'" "qn_responded q2" using m'(5) by force
      then show ?thesis using bt_sorted_same [OF srt' q(1)] by simp
    next
      case 2
      obtain q1 where q1: "(d, q1) \<in> set m'" "qn_record q1 = qn_record q0" "qn_responded q0 \<longrightarrow> qn_responded q1"
        using extendsE [OF ext 2(1)] by blast
      have "q1 = q" by (rule bt_sorted_same [OF srt' q(1) q1(1)])
      then have "answer (at d) (qn_record q0) \<noteq> None" using q(3) q1(2) asked_at_old [OF srt 2(3)] by simp
      then have "qn_responded q0" using st 2(1,2) by (auto simp: look_state_def)
      then show ?thesis using q1(3) \<open>q1 = q\<close> by simp
    qed
  qed
  moreover have "?at ` asked m' = {..<Suc k}"
  proof -
    have "?at ` asked m = {..<k}" using st asked_at_old [OF srt] by (simp add: look_state_def cong: image_cong)
    moreover have "?at ` fst ` set (picked_nodes m) = {k}"
      using picked by (cases "picked_nodes m") (auto simp: asked_at_def)
    ultimately show ?thesis unfolding m'(4) asked_marked image_Un by auto
  qed
  moreover have "asked m \<subset> asked m'"
  proof -
    obtain d q where "(d, q) \<in> set (picked_nodes m)" using picked by (cases "picked_nodes m") auto
    then have "d \<in> asked m'" "d \<notin> asked m" using picked_fresh(2) [OF srt] m'(4) asked_marked [of m] by force+
    then show ?thesis using asked_extends [OF ext] by blast
  qed
  ultimately show ?thesis using m'(1,2) ext by (intro exI [of _ m']) (auto simp: look_state_def)
qed

section \<open>The loop ends\<close>

text \<open>There are finitely many distances, and every round asks at least one that has not been asked.\<close>

definition hashes :: "h256 set" where "hashes = {d. set d \<subseteq> UNIV \<and> length d = 32}"

lemma finite_hashes: "finite hashes"
  unfolding hashes_def by (rule finite_lists_length_eq) simp

lemma asked_hashes: "keccak_ok kk \<Longrightarrow> look_inv kk target answer start at m \<Longrightarrow> asked m \<subseteq> hashes"
  by (auto simp: asked_def look_inv_def entry_good_def hashes_def distance_def length_xor_bytes keccak_ok_def)

lemma lookup_loop_ends:
  assumes "keccak_ok kk"
  shows "look_state kk target answer start at k m \<Longrightarrow>
    \<exists>m' k' at'. lookup_loop kk target answer k m = Some (Ok m') \<and> look_state kk target answer start at' k' m' \<and>
      extends m m' \<and> picked_nodes m' = []"
proof (induction "card hashes - card (asked m)" arbitrary: m k at rule: less_induct)
  case less
  show ?case
  proof (cases "picked_nodes m = []")
    case True
    then show ?thesis using less.prems by (subst lookup_loop.simps) auto
  next
    case False
    obtain m1 where m1: "lookup_round kk target (answer k) m = Ok m1"
      "look_state kk target answer start (asked_at k m at) (Suc k) m1" "extends m m1" "asked m \<subset> asked m1"
      using lookup_round_ok [OF less.prems False] by blast
    moreover have "look_inv kk target answer start (asked_at k m at) m1" using m1(2) by (simp add: look_state_def)
    then have sub: "asked m1 \<subseteq> hashes" by (rule asked_hashes [OF assms])
    ultimately have "card (asked m) < card (asked m1)" "card (asked m1) \<le> card hashes"
      using finite_hashes by (auto intro: psubset_card_mono card_mono finite_subset)
    then have "card hashes - card (asked m1) < card hashes - card (asked m)" by linarith
    from less.hyps [OF this m1(2)] obtain m' k' at' where
      "lookup_loop kk target answer (Suc k) m1 = Some (Ok m')" "look_state kk target answer start at' k' m'" "extends m1 m'" "picked_nodes m' = []"
      by blast
    then show ?thesis
      using False m1(1,3) extends_trans by (subst lookup_loop.simps) auto
  qed
qed

lemma entry_distance: "e \<in> set (nearest_node_entries kk t target) \<Longrightarrow> fst e = distance kk target (nr_id (snd e))"
proof -
  assume "e \<in> set (nearest_node_entries kk t target)"
  then have "e \<in> set (map (\<lambda>n. (distance kk (nr_id n) target, n)) (table_nodes t))"
    unfolding nearest_node_entries_def by (rule subsetD [OF bt_collect_subset])
  then show ?thesis by (auto simp: distance_sym)
qed

lemma lookup_start_entry:
  assumes "e \<in> set (lookup_start kk t target)"
  shows "fst e = distance kk target (nr_id (qn_record (snd e))) \<and> \<not> qn_queried (snd e) \<and> \<not> qn_responded (snd e)"
proof -
  have "e \<in> set (take ALPHA (map (\<lambda>(d, r). (d, fresh_node r)) (nearest_node_entries kk t target)))"
    using assms unfolding lookup_start_def by (rule subsetD [OF bt_collect_subset])
  then have "e \<in> set (map (\<lambda>(d, r). (d, fresh_node r)) (nearest_node_entries kk t target))" by (rule in_set_takeD)
  then obtain x where "x \<in> set (nearest_node_entries kk t target)" "e = (fst x, fresh_node (snd x))" by auto
  then show ?thesis using entry_distance by (simp add: fresh_node_def)
qed

lemma lookup_start_state: "look_state kk target answer (lookup_start kk t target) at 0 (lookup_start kk t target)"
proof -
  have "asked (lookup_start kk t target) = {}" using lookup_start_entry by (fastforce simp: asked_def)
  then show ?thesis
    using lookup_start_entry [of _ kk t target]
    by (fastforce simp: look_state_def look_inv_def entry_good_def lookup_start_def bt_collect_sorted)
qed

text \<open>
  C20. A lookup always ends, whatever the nodes answer, and never panics: every round asks a node that has
  not been asked, and there are finitely many distances.
\<close>

theorem lookup_ends:
  assumes "keccak_ok kk"
  shows "\<exists>records. lookup_inner kk t target answer = Some (Ok records)"
  using lookup_loop_ends [OF assms lookup_start_state] by (fastforce simp: lookup_inner_def)

text \<open>
  C11. A lookup converges. Its loop ends with a map \<open>nearest\<close> of the nodes it knows, after \<open>rounds\<close> rounds,
  in which every node that was asked has been asked in the round \<open>at\<close> gives for it. The three nearest of
  them have been asked, and every round has asked somebody; the nodes that responded are those that were
  asked and answered in their round, and every node they named is in the map; what is in the map was among
  the nearest of the table, or has been named by a node that responded, and the nearest of the table are
  all in it. The result is the nodes that responded, strictly ordered by their distance to the target.
\<close>

theorem lookup_converges:
  assumes "keccak_ok kk" "lookup_inner kk t target answer = Some (Ok records)"
  shows "\<exists>nearest rounds at. lookup_loop kk target answer 0 (lookup_start kk t target) = Some (Ok nearest) \<and>
    sorted_wrt (<) (map fst nearest) \<and>
    (\<forall>(d, q) \<in> set (take ALPHA nearest). qn_queried q) \<and>
    (\<forall>i < rounds. \<exists>(d, q) \<in> set nearest. qn_queried q \<and> at d = i) \<and>
    (\<forall>(d, q) \<in> set nearest.
       d = distance kk target (nr_id (qn_record q)) \<and>
       (qn_queried q \<longrightarrow> at d < rounds) \<and>
       (qn_responded q \<longleftrightarrow> qn_queried q \<and> answer (at d) (qn_record q) \<noteq> None) \<and>
       (\<forall>ms. qn_responded q \<and> answer (at d) (qn_record q) = Some ms \<longrightarrow>
          (\<forall>n \<in> set (concat (map nb_nodes ms)). distance kk target (nr_id n) \<in> fst ` set nearest)) \<and>
       ((\<exists>q'. (d, q') \<in> set (lookup_start kk t target) \<and> qn_record q' = qn_record q) \<or> named_by answer at nearest (qn_record q))) \<and>
    fst ` set (lookup_start kk t target) \<subseteq> fst ` set nearest \<and>
    records = map (qn_record \<circ> snd) (filter (\<lambda>(d, q). qn_responded q) nearest) \<and>
    sorted_wrt (<) (map (\<lambda>r. distance kk target (nr_id r)) records)"
proof -
  let ?start = "lookup_start kk t target"
  obtain m k at where m: "lookup_loop kk target answer 0 ?start = Some (Ok m)" "look_state kk target answer ?start at k m"
    "extends ?start m" "picked_nodes m = []"
    using lookup_loop_ends [OF assms(1) lookup_start_state] by blast
  have srt: "bt_sorted m" and good: "entry_good kk target answer ?start at m e" if "e \<in> set m" for e
    using m(2) that by (auto simp: look_state_def look_inv_def)
  have srt: "bt_sorted m" using m(2) by (simp add: look_state_def look_inv_def)
  have rec: "records = map (qn_record \<circ> snd) (filter (\<lambda>(d, q). qn_responded q) m)"
    using assms(2) m(1) by (simp add: lookup_inner_def)
  have keys: "map (\<lambda>r. distance kk target (nr_id r)) records = map fst (filter (\<lambda>(d, q). qn_responded q) m)"
    unfolding rec using good by (auto simp: entry_good_def)
  have rounds: "at ` asked m = {..<k}" using m(2) by (simp add: look_state_def)
  have "d = distance kk target (nr_id (qn_record q)) \<and> (qn_queried q \<longrightarrow> at d < k) \<and>
       (qn_responded q \<longleftrightarrow> qn_queried q \<and> answer (at d) (qn_record q) \<noteq> None) \<and>
       (\<forall>ms. qn_responded q \<and> answer (at d) (qn_record q) = Some ms \<longrightarrow>
          (\<forall>n \<in> set (concat (map nb_nodes ms)). distance kk target (nr_id n) \<in> fst ` set m)) \<and>
       ((\<exists>q'. (d, q') \<in> set ?start \<and> qn_record q' = qn_record q) \<or> named_by answer at m (qn_record q))"
    if q: "(d, q) \<in> set m" for d q
  proof -
    have "qn_queried q \<longrightarrow> at d < k" using rounds q by (auto simp: asked_def)
    moreover have "qn_queried q \<and> answer (at d) (qn_record q) \<noteq> None \<longrightarrow> qn_responded q"
      using m(2) q by (auto simp: look_state_def)
    ultimately show ?thesis using good [OF q] by (auto simp: entry_good_def named_in_def)
  qed
  moreover have "\<forall>(d, q) \<in> set (take ALPHA m). qn_queried q"
    using m(4) by (auto simp: picked_nodes_def filter_empty_conv)
  moreover have "\<exists>(d, q) \<in> set m. qn_queried q \<and> at d = i" if "i < k" for i
  proof -
    have "i \<in> at ` asked m" using that rounds by simp
    then show ?thesis by (force simp: asked_def)
  qed
  moreover have "sorted_wrt (<) (map (\<lambda>r. distance kk target (nr_id r)) records)"
    unfolding keys using srt by (simp add: sorted_wrt_map sorted_wrt_filter)
  ultimately show ?thesis using m(1) srt rec extends_keys [OF m(3)]
    by (intro exI [of _ m] exI [of _ k] exI [of _ at] conjI) auto
qed

section \<open>Closed instances\<close>

text \<open>Node 1 names node 2, which does not answer.\<close>

definition demo_answer :: "nat \<Rightarrow> node_record \<Rightarrow> neighbours_message list option" where
  "demo_answer i r = (if nr_id r = [128, 1] then Some [\<lparr>nb_nodes = [demo_node 2], nb_expire = 0\<rparr>] else None)"

declare lookup_loop.simps [code]

lemma demo_lookup:
  "lookup_inner demo_hash (demo_table [1]) [128, 9] demo_answer = Some (Ok [demo_node 1])"
  by code_simp

theorem lookup_ends_witness:
  "\<exists>records. lookup_inner demo_hash (demo_table [1, 2, 3]) [128, 9] demo_answer = Some (Ok records)"
  by (rule lookup_ends [OF demo_hash_ok])

theorem lookup_converges_witness:
  "\<exists>nearest (rounds :: nat) at. lookup_loop demo_hash [128, 9] demo_answer 0 (lookup_start demo_hash (demo_table [1]) [128, 9]) = Some (Ok nearest) \<and>
     (\<forall>(d, q) \<in> set (take ALPHA nearest). qn_queried q) \<and> (\<forall>i < rounds. \<exists>(d, q) \<in> set nearest. qn_queried q \<and> at d = i) \<and>
     [demo_node 1] = map (qn_record \<circ> snd) (filter (\<lambda>(d, q). qn_responded q) nearest)"
  using lookup_converges [OF demo_hash_ok demo_lookup] by (elim exE conjE) ((rule exI)+, intro conjI, assumption+)

end
