(* ===== verification/Mac.thy ===== *)
theory Mac
  imports Crypto_Api
begin

text \<open>
  The rolling message authentication code of an RLPx connection, \<^verbatim>\<open>devp2p/src/mac.rs\<close>: a
  Keccak-256 hasher that is fed frames and, between them, its own digest encrypted with the
  shared secret.
\<close>

record mac =
  mac_secret :: bytes
  mac_hashed :: bytes

definition mac_new :: "bytes \<Rightarrow> mac" where
  "mac_new s = \<lparr>mac_secret = s, mac_hashed = []\<rparr>"

definition mac_update :: "mac \<Rightarrow> bytes \<Rightarrow> mac" where
  "mac_update m d = m\<lparr>mac_hashed := mac_hashed m @ d\<rparr>"

definition mac_digest :: "('sk, 'pk, 'c) crypto \<Rightarrow> mac \<Rightarrow> bytes" where
  "mac_digest C m = take 16 (cr_keccak C (mac_hashed m))"

definition mac_update_header :: "('sk, 'pk, 'c) crypto \<Rightarrow> mac \<Rightarrow> bytes \<Rightarrow> mac" where
  "mac_update_header C m d =
     (let encrypted = cr_ecb256 C (mac_secret m) (mac_digest C m)
      in mac_update m (xor_bytes encrypted d))"

definition mac_update_body :: "('sk, 'pk, 'c) crypto \<Rightarrow> mac \<Rightarrow> bytes \<Rightarrow> mac" where
  "mac_update_body C m d =
     (let m1 = mac_update m d;
          prev = mac_digest C m1;
          encrypted = cr_ecb256 C (mac_secret m1) (mac_digest C m1)
      in mac_update m1 (xor_bytes encrypted prev))"

lemma length_mac_digest: "crypto_ok C \<Longrightarrow> length (mac_digest C m) = 16"
  by (simp add: mac_digest_def crypto_okD)

end
