(* ===== verification/Ecies.thy ===== *)
theory Ecies
  imports Mac Rlp_Api
begin

text \<open>
  The encrypted transport of an RLPx connection, \<^verbatim>\<open>devp2p/src/ecies/algorithm.rs\<close>: the
  handshake messages \<open>auth\<close> and \<open>ack\<close>, the derivation of the frame keys, and the reading and
  writing of frames. The random choices of the code (the key of a message, the
  initialisation vector, the padding) are arguments. Every method of \<open>ECIES\<close> on \<open>&mut self\<close>
  is a state transformer with the outcome of the call; a failed \<open>unwrap\<close>, a slice out of range
  and a failed \<open>u16::try_from\<close> are \<open>Panic\<close>.
\<close>

section \<open>State and key derivation\<close>

datatype ecies_error = IO | TagCheckFailed | InvalidAuthData | InvalidAckData | Other

record ('sk, 'pk, 'c) ecies =
  ec_secret_key :: 'sk
  ec_public_key :: 'pk
  ec_remote_public_key :: "'pk option"
  ec_remote_id :: "bytes option"
  ec_ephemeral_secret_key :: 'sk
  ec_ephemeral_public_key :: 'pk
  ec_ephemeral_shared_secret :: "bytes option"
  ec_remote_ephemeral_public_key :: "'pk option"
  ec_nonce :: bytes
  ec_remote_nonce :: "bytes option"
  ec_ingress_aes :: "'c option"
  ec_egress_aes :: "'c option"
  ec_ingress_mac :: "mac option"
  ec_egress_mac :: "mac option"
  ec_init_msg :: "bytes option"
  ec_remote_init_msg :: "bytes option"
  ec_body_size :: "nat option"

definition PROTOCOL_VERSION :: nat where "PROTOCOL_VERSION = 4"

definition ecdh_x :: "('sk, 'pk, 'c) crypto \<Rightarrow> 'pk \<Rightarrow> 'sk \<Rightarrow> bytes" where
  "ecdh_x C pk sk = take 32 (cr_shared C pk sk)"

text \<open>
  The loop of \<open>kdf\<close> fills \<open>dest\<close> in steps of 32 bytes; slicing past its end panics, so \<open>dest\<close>
  has to be a multiple of 32 bytes.
\<close>

function kdf_loop :: "('sk, 'pk, 'c) crypto \<Rightarrow> bytes \<Rightarrow> bytes \<Rightarrow> nat \<Rightarrow> 32 word \<Rightarrow> nat \<Rightarrow> bytes
    \<Rightarrow> (ecies_error, bytes) outcome" where
  "kdf_loop C secret s1 dest_len ctr written dest =
     (if written < dest_len then
        if written + 32 \<le> dest_len then
          (let ctrs = [ucast (drop_bit 24 ctr), ucast (drop_bit 16 ctr), ucast (drop_bit 8 ctr), ucast ctr];
               d = cr_sha256 C (ctrs @ secret @ s1)
           in kdf_loop C secret s1 dest_len (ctr + 1) (written + 32) (dest @ d))
        else Panic
      else Ok dest)"
  by pat_completeness auto
termination
  by (relation "measure (\<lambda>(C, secret, s1, dest_len, ctr, written, dest). dest_len - written)") auto

declare kdf_loop.simps [simp del]

definition kdf :: "('sk, 'pk, 'c) crypto \<Rightarrow> bytes \<Rightarrow> bytes \<Rightarrow> nat \<Rightarrow> (ecies_error, bytes) outcome" where
  "kdf C secret s1 dest_len = kdf_loop C secret s1 dest_len 1 0 []"

definition new_static_client :: "('sk, 'pk, 'c) crypto \<Rightarrow> 'sk \<Rightarrow> bytes \<Rightarrow> bytes \<Rightarrow> 'sk
    \<Rightarrow> (ecies_error, ('sk, 'pk, 'c) ecies) outcome" where
  "new_static_client C secret_key remote_id nonce ephemeral_secret_key =
     bind_outcome (of_option Other (id2pk C remote_id)) (\<lambda>remote_public_key.
     Ok \<lparr>ec_secret_key = secret_key, ec_public_key = cr_public C secret_key,
         ec_remote_public_key = Some remote_public_key, ec_remote_id = Some remote_id,
         ec_ephemeral_secret_key = ephemeral_secret_key,
         ec_ephemeral_public_key = cr_public C ephemeral_secret_key,
         ec_ephemeral_shared_secret = None, ec_remote_ephemeral_public_key = None,
         ec_nonce = nonce, ec_remote_nonce = None, ec_ingress_aes = None, ec_egress_aes = None,
         ec_ingress_mac = None, ec_egress_mac = None, ec_init_msg = None,
         ec_remote_init_msg = None, ec_body_size = None\<rparr>)"

definition new_static_server :: "('sk, 'pk, 'c) crypto \<Rightarrow> 'sk \<Rightarrow> bytes \<Rightarrow> 'sk
    \<Rightarrow> (ecies_error, ('sk, 'pk, 'c) ecies) outcome" where
  "new_static_server C secret_key nonce ephemeral_secret_key =
     Ok \<lparr>ec_secret_key = secret_key, ec_public_key = cr_public C secret_key,
         ec_remote_public_key = None, ec_remote_id = None,
         ec_ephemeral_secret_key = ephemeral_secret_key,
         ec_ephemeral_public_key = cr_public C ephemeral_secret_key,
         ec_ephemeral_shared_secret = None, ec_remote_ephemeral_public_key = None,
         ec_nonce = nonce, ec_remote_nonce = None, ec_ingress_aes = None, ec_egress_aes = None,
         ec_ingress_mac = None, ec_egress_mac = None, ec_init_msg = None,
         ec_remote_init_msg = None, ec_body_size = None\<rparr>"

text \<open>\<open>remote_id()\<close> unwraps.\<close>

definition ecies_remote_id :: "('sk, 'pk, 'c) ecies \<Rightarrow> (ecies_error, bytes) outcome" where
  "ecies_remote_id e = unwrap (ec_remote_id e)"

section \<open>Message encryption\<close>

definition UNCOMPRESSED_SIZE :: nat where "UNCOMPRESSED_SIZE = 65"

text \<open>\<open>u16::try_from(n).unwrap()\<close> followed by \<open>to_be_bytes\<close>.\<close>

definition u16_bytes :: "nat \<Rightarrow> (ecies_error, bytes) outcome" where
  "u16_bytes n = (if n < 2 ^ 16 then Ok (be16 n) else Panic)"

text \<open>
  \<open>encrypt_message\<close>, as the bytes it appends. \<open>sk\<close> is the fresh key and \<open>iv\<close> the fresh
  initialisation vector.
\<close>

definition encrypt_message :: "('sk, 'pk, 'c) crypto \<Rightarrow> ('sk, 'pk, 'c) ecies \<Rightarrow> 'sk \<Rightarrow> bytes \<Rightarrow> bytes
    \<Rightarrow> (ecies_error, bytes) outcome" where
  "encrypt_message C e sk iv data =
     bind_outcome (unwrap (ec_remote_public_key e)) (\<lambda>rpk.
     bind_outcome (kdf C (ecdh_x C rpk sk) [] 32) (\<lambda>key.
     let enc_key = take 16 key;
         mac_key = cr_sha256 C (drop 16 key);
         encrypted = fst (cr_encrypt C (cr_ctr128 C enc_key iv) data)
     in bind_outcome (u16_bytes (65 + 16 + length data + 32)) (\<lambda>total_size.
        let tag = hmac_sha256 C mac_key [iv, encrypted] total_size
        in Ok (cr_serialize C (cr_public C sk) @ iv @ encrypted @ tag))))"

text \<open>
  \<open>decrypt_message\<close>: \<open>split_at_mut\<close> panics when the slice is too short, and so does the
  subtraction of the tag length.
\<close>

definition split_at :: "nat \<Rightarrow> bytes \<Rightarrow> (ecies_error, bytes \<times> bytes) outcome" where
  "split_at n d = (if n \<le> length d then Ok (take n d, drop n d) else Panic)"

definition split_back :: "nat \<Rightarrow> bytes \<Rightarrow> (ecies_error, bytes \<times> bytes) outcome" where
  "split_back n d = (if n \<le> length d then split_at (length d - n) d else Panic)"

definition decrypt_message :: "('sk, 'pk, 'c) crypto \<Rightarrow> ('sk, 'pk, 'c) ecies \<Rightarrow> bytes
    \<Rightarrow> (ecies_error, bytes) outcome" where
  "decrypt_message C e data =
     bind_outcome (split_at 2 data) (\<lambda>(auth_data, encrypted).
     bind_outcome (split_at UNCOMPRESSED_SIZE encrypted) (\<lambda>(pubkey_bytes, encrypted).
     bind_outcome (of_option Other (cr_parse C pubkey_bytes)) (\<lambda>public_key.
     bind_outcome (split_back 32 encrypted) (\<lambda>(data_iv, tag).
     bind_outcome (split_at 16 data_iv) (\<lambda>(iv, encrypted_data).
     bind_outcome (kdf C (ecdh_x C public_key (ec_secret_key e)) [] 32) (\<lambda>key.
     let enc_key = take 16 key;
         mac_key = cr_sha256 C (drop 16 key);
         check_tag = hmac_sha256 C mac_key [iv, encrypted_data] auth_data
     in if check_tag \<noteq> tag then Err TagCheckFailed
        else Ok (fst (cr_decrypt C (cr_ctr128 C enc_key iv) encrypted_data))))))))"

section \<open>The handshake messages\<close>

definition create_auth_unencrypted :: "rlp_api \<Rightarrow> ('sk, 'pk, 'c) crypto \<Rightarrow> ('sk, 'pk, 'c) ecies \<Rightarrow> nat
    \<Rightarrow> (ecies_error, bytes) outcome" where
  "create_auth_unencrypted R C e pad =
     bind_outcome (unwrap (ec_remote_public_key e)) (\<lambda>rpk.
     let x = ecdh_x C rpk (ec_secret_key e);
         msg = xor_bytes x (ec_nonce e);
         (rec_id, sig) = cr_sign C msg (ec_ephemeral_secret_key e);
         sig_bytes = sig @ [rec_id];
         out = rl_out R (RList [RData sig_bytes, RData (pk2id C (ec_public_key e)),
                                RData (ec_nonce e), RUint PROTOCOL_VERSION])
     in Ok (out @ replicate pad 0))"

text \<open>\<open>write_auth\<close>: the bytes appended to the buffer are kept as the initial message.\<close>

definition write_auth :: "rlp_api \<Rightarrow> ('sk, 'pk, 'c) crypto \<Rightarrow> 'sk \<Rightarrow> bytes \<Rightarrow> nat \<Rightarrow> bytes
    \<Rightarrow> (('sk, 'pk, 'c) ecies, ecies_error, bytes) st" where
  "write_auth R C sk iv pad buf =
     st_bind st_get (\<lambda>e.
     st_bind (st_lift (create_auth_unencrypted R C e pad)) (\<lambda>unencrypted.
     st_bind (st_lift (encrypt_message C e sk iv unencrypted)) (\<lambda>encrypted.
     st_bind (st_lift (u16_bytes (length encrypted))) (\<lambda>len_bytes.
     st_bind (st_modify (\<lambda>e. e\<lparr>ec_init_msg := Some (len_bytes @ encrypted)\<rparr>)) (\<lambda>_.
     st_ret (buf @ len_bytes @ encrypted))))))"

definition parse_auth_unencrypted :: "rlp_api \<Rightarrow> ('sk, 'pk, 'c) crypto \<Rightarrow> bytes
    \<Rightarrow> (('sk, 'pk, 'c) ecies, ecies_error, unit) st" where
  "parse_auth_unencrypted R C data =
     st_bind (st_lift (of_option Other (Option.bind (rl_at R data 0) (rl_data R)))) (\<lambda>sigdata.
     if length sigdata \<noteq> 65 then st_lift (Err InvalidAuthData) else
     st_bind (st_lift (of_option Other (cr_signature C (take 64 sigdata) (sigdata ! 64)))) (\<lambda>signature.
     st_bind (st_lift (of_option Other (Option.bind (rl_at R data 1) (rl_hash R 64)))) (\<lambda>remote_id.
     st_bind (st_modify (\<lambda>e. e\<lparr>ec_remote_id := Some remote_id\<rparr>)) (\<lambda>_.
     st_bind (st_lift (of_option Other (id2pk C remote_id))) (\<lambda>rpk.
     st_bind (st_modify (\<lambda>e. e\<lparr>ec_remote_public_key := Some rpk\<rparr>)) (\<lambda>_.
     st_bind (st_lift (of_option Other (Option.bind (rl_at R data 2) (rl_hash R 32)))) (\<lambda>remote_nonce.
     st_bind (st_modify (\<lambda>e. e\<lparr>ec_remote_nonce := Some remote_nonce\<rparr>)) (\<lambda>_.
     st_bind st_get (\<lambda>e.
     let x = ecdh_x C rpk (ec_secret_key e) in
     st_bind (st_lift (of_option Other (cr_recover C (xor_bytes x remote_nonce) signature))) (\<lambda>repk.
     st_bind (st_modify (\<lambda>e. e\<lparr>ec_remote_ephemeral_public_key := Some repk\<rparr>)) (\<lambda>_.
     st_modify (\<lambda>e. e\<lparr>ec_ephemeral_shared_secret :=
       Some (ecdh_x C repk (ec_ephemeral_secret_key e))\<rparr>))))))))))))"

definition read_auth :: "rlp_api \<Rightarrow> ('sk, 'pk, 'c) crypto \<Rightarrow> bytes
    \<Rightarrow> (('sk, 'pk, 'c) ecies, ecies_error, unit) st" where
  "read_auth R C data =
     st_bind (st_modify (\<lambda>e. e\<lparr>ec_remote_init_msg := Some data\<rparr>)) (\<lambda>_.
     st_bind st_get (\<lambda>e.
     st_bind (st_lift (decrypt_message C e data)) (\<lambda>unencrypted.
     parse_auth_unencrypted R C unencrypted)))"

definition create_ack_unencrypted :: "rlp_api \<Rightarrow> ('sk, 'pk, 'c) crypto \<Rightarrow> ('sk, 'pk, 'c) ecies \<Rightarrow> bytes" where
  "create_ack_unencrypted R C e =
     rl_out R (RList [RData (pk2id C (ec_ephemeral_public_key e)), RData (ec_nonce e), RUint PROTOCOL_VERSION])"

text \<open>
  \<open>setup_frame\<close>: the two ends hash the nonces in the same order, derive the same secrets and
  start the two MACs with each other's nonce and handshake message.
\<close>

definition setup_frame :: "('sk, 'pk, 'c) crypto \<Rightarrow> bool \<Rightarrow> (('sk, 'pk, 'c) ecies, ecies_error, unit) st" where
  "setup_frame C incoming =
     st_bind st_get (\<lambda>e.
     st_bind (st_lift (unwrap (ec_remote_nonce e))) (\<lambda>remote_nonce.
     let h_nonce = (if incoming then cr_keccak C (ec_nonce e @ remote_nonce)
                    else cr_keccak C (remote_nonce @ ec_nonce e));
         iv = replicate 16 0 in
     st_bind (st_lift (unwrap (ec_ephemeral_shared_secret e))) (\<lambda>ess.
     let shared_secret = cr_keccak C (ess @ h_nonce);
         aes_secret = cr_keccak C (ess @ shared_secret) in
     st_bind (st_modify (\<lambda>e. e\<lparr>ec_ingress_aes := Some (cr_ctr256 C aes_secret iv),
                              ec_egress_aes := Some (cr_ctr256 C aes_secret iv)\<rparr>)) (\<lambda>_.
     let mac_secret = cr_keccak C (ess @ aes_secret) in
     st_bind (st_lift (unwrap (ec_remote_init_msg e))) (\<lambda>remote_init_msg.
     st_bind (st_modify (\<lambda>e. e\<lparr>ec_ingress_mac :=
        Some (mac_update (mac_update (mac_new mac_secret) (xor_bytes mac_secret (ec_nonce e))) remote_init_msg)\<rparr>)) (\<lambda>_.
     st_bind (st_lift (unwrap (ec_init_msg e))) (\<lambda>init_msg.
     st_modify (\<lambda>e. e\<lparr>ec_egress_mac :=
        Some (mac_update (mac_update (mac_new mac_secret) (xor_bytes mac_secret remote_nonce)) init_msg)\<rparr>))))))))"

definition write_ack :: "rlp_api \<Rightarrow> ('sk, 'pk, 'c) crypto \<Rightarrow> 'sk \<Rightarrow> bytes \<Rightarrow> bytes
    \<Rightarrow> (('sk, 'pk, 'c) ecies, ecies_error, bytes) st" where
  "write_ack R C sk iv out =
     st_bind st_get (\<lambda>e.
     st_bind (st_lift (encrypt_message C e sk iv (create_ack_unencrypted R C e))) (\<lambda>encrypted.
     st_bind (st_lift (u16_bytes (length encrypted))) (\<lambda>len_bytes.
     st_bind (st_modify (\<lambda>e. e\<lparr>ec_init_msg := Some (len_bytes @ encrypted)\<rparr>)) (\<lambda>_.
     st_bind (setup_frame C True) (\<lambda>_.
     st_ret (out @ len_bytes @ encrypted))))))"

definition parse_ack_unencrypted :: "rlp_api \<Rightarrow> ('sk, 'pk, 'c) crypto \<Rightarrow> bytes
    \<Rightarrow> (('sk, 'pk, 'c) ecies, ecies_error, unit) st" where
  "parse_ack_unencrypted R C data =
     st_bind (st_lift (of_option Other (Option.bind (rl_at R data 0) (rl_hash R 64)))) (\<lambda>i.
     st_bind (st_lift (of_option Other (id2pk C i))) (\<lambda>repk.
     st_bind (st_modify (\<lambda>e. e\<lparr>ec_remote_ephemeral_public_key := Some repk\<rparr>)) (\<lambda>_.
     st_bind (st_lift (of_option Other (Option.bind (rl_at R data 1) (rl_hash R 32)))) (\<lambda>remote_nonce.
     st_bind (st_modify (\<lambda>e. e\<lparr>ec_remote_nonce := Some remote_nonce\<rparr>)) (\<lambda>_.
     st_modify (\<lambda>e. e\<lparr>ec_ephemeral_shared_secret :=
       Some (ecdh_x C repk (ec_ephemeral_secret_key e))\<rparr>))))))"

definition read_ack :: "rlp_api \<Rightarrow> ('sk, 'pk, 'c) crypto \<Rightarrow> bytes
    \<Rightarrow> (('sk, 'pk, 'c) ecies, ecies_error, unit) st" where
  "read_ack R C data =
     st_bind (st_modify (\<lambda>e. e\<lparr>ec_remote_init_msg := Some data\<rparr>)) (\<lambda>_.
     st_bind st_get (\<lambda>e.
     st_bind (st_lift (decrypt_message C e data)) (\<lambda>unencrypted.
     st_bind (parse_ack_unencrypted R C unencrypted) (\<lambda>_.
     setup_frame C False))))"

section \<open>Frames\<close>

definition header_len :: nat where "header_len = 32"

text \<open>\<open>BigEndian::write_uint(_, n, 3)\<close> panics when \<open>n\<close> does not fit three bytes.\<close>

definition be24 :: "nat \<Rightarrow> bytes" where
  "be24 n = [word_of_nat (n div 65536), word_of_nat (n div 256), word_of_nat n]"

definition write_header :: "('sk, 'pk, 'c) crypto \<Rightarrow> bytes \<Rightarrow> nat \<Rightarrow> (('sk, 'pk, 'c) ecies, ecies_error, bytes) st" where
  "write_header C out len =
     st_bind (st_lift (if len < 2 ^ 24 then Ok (be24 len) else Panic)) (\<lambda>buf.
     let header = buf @ [194, 128, 128] @ replicate 10 0 in
     st_bind st_get (\<lambda>e.
     st_bind (st_lift (unwrap (ec_egress_aes e))) (\<lambda>aes.
     let (header, aes) = cr_encrypt C aes header in
     st_bind (st_modify (\<lambda>e. e\<lparr>ec_egress_aes := Some aes\<rparr>)) (\<lambda>_.
     st_bind (st_lift (unwrap (ec_egress_mac e))) (\<lambda>mac.
     let mac = mac_update_header C mac header in
     st_bind (st_modify (\<lambda>e. e\<lparr>ec_egress_mac := Some mac\<rparr>)) (\<lambda>_.
     st_ret (out @ header @ mac_digest C mac)))))))"

definition read_header :: "('sk, 'pk, 'c) crypto \<Rightarrow> bytes \<Rightarrow> (('sk, 'pk, 'c) ecies, ecies_error, nat) st" where
  "read_header C data =
     st_bind (st_lift (split_at 16 data)) (\<lambda>(header, mac_bytes).
     st_bind (st_lift (split_at 16 mac_bytes)) (\<lambda>(mac, _).
     st_bind st_get (\<lambda>e.
     st_bind (st_lift (unwrap (ec_ingress_mac e))) (\<lambda>m.
     let m = mac_update_header C m header in
     st_bind (st_modify (\<lambda>e. e\<lparr>ec_ingress_mac := Some m\<rparr>)) (\<lambda>_.
     if mac_digest C m \<noteq> mac then st_lift (Err TagCheckFailed) else
     st_bind (st_lift (unwrap (ec_ingress_aes e))) (\<lambda>aes.
     let (header, aes) = cr_decrypt C aes header in
     st_bind (st_modify (\<lambda>e. e\<lparr>ec_ingress_aes := Some aes,
                              ec_body_size := Some (be_val (take 3 header))\<rparr>)) (\<lambda>_.
     st_ret (be_val (take 3 header)))))))))"

definition pad16 :: "nat \<Rightarrow> nat" where
  "pad16 len = (if len mod 16 = 0 then len else (len div 16 + 1) * 16)"

definition body_len :: "('sk, 'pk, 'c) ecies \<Rightarrow> (ecies_error, nat) outcome" where
  "body_len e = bind_outcome (unwrap (ec_body_size e)) (\<lambda>len. Ok (pad16 len + 16))"

definition write_body :: "('sk, 'pk, 'c) crypto \<Rightarrow> bytes \<Rightarrow> bytes \<Rightarrow> (('sk, 'pk, 'c) ecies, ecies_error, bytes) st" where
  "write_body C out data =
     (let len = pad16 (length data);
          plain = data @ replicate (len - length data) 0 in
     st_bind st_get (\<lambda>e.
     st_bind (st_lift (unwrap (ec_egress_aes e))) (\<lambda>aes.
     let (encrypted, aes) = cr_encrypt C aes plain in
     st_bind (st_modify (\<lambda>e. e\<lparr>ec_egress_aes := Some aes\<rparr>)) (\<lambda>_.
     st_bind (st_lift (unwrap (ec_egress_mac e))) (\<lambda>mac.
     let mac = mac_update_body C mac encrypted in
     st_bind (st_modify (\<lambda>e. e\<lparr>ec_egress_mac := Some mac\<rparr>)) (\<lambda>_.
     st_ret (out @ encrypted @ mac_digest C mac)))))))"

definition read_body :: "('sk, 'pk, 'c) crypto \<Rightarrow> bytes \<Rightarrow> (('sk, 'pk, 'c) ecies, ecies_error, bytes) st" where
  "read_body C data =
     st_bind (st_lift (split_back 16 data)) (\<lambda>(body, mac).
     st_bind st_get (\<lambda>e.
     st_bind (st_lift (unwrap (ec_ingress_mac e))) (\<lambda>m.
     let m = mac_update_body C m body in
     st_bind (st_modify (\<lambda>e. e\<lparr>ec_ingress_mac := Some m\<rparr>)) (\<lambda>_.
     if mac_digest C m \<noteq> mac then st_lift (Err TagCheckFailed) else
     st_bind (st_lift (unwrap (ec_body_size e))) (\<lambda>size.
     st_bind (st_modify (\<lambda>e. e\<lparr>ec_body_size := None\<rparr>)) (\<lambda>_.
     st_bind (st_lift (unwrap (ec_ingress_aes e))) (\<lambda>aes.
     let (ret, aes) = cr_decrypt C aes body in
     st_bind (st_modify (\<lambda>e. e\<lparr>ec_ingress_aes := Some aes\<rparr>)) (\<lambda>_.
     st_bind (st_lift (split_at size ret)) (\<lambda>(ret, _).
     st_ret ret)))))))))"

section \<open>Key derivation\<close>

lemma kdf_loop_ok:
  assumes "crypto_ok C" "dest_len = written + 32 * k" "length dest = written"
  shows "\<exists>key. kdf_loop C s s1 dest_len ctr written dest = Ok key \<and> length key = dest_len"
  using assms(2,3)
proof (induction k arbitrary: ctr written dest)
  case 0
  then show ?case by (simp add: kdf_loop.simps)
next
  case (Suc k)
  then show ?case
    using Suc.IH [of "written + 32" "dest @ cr_sha256 C _" "ctr + 1"]
    by (subst kdf_loop.simps) (simp add: Let_def crypto_okD [OF assms(1)])
qed

lemma kdf_loop_panic:
  assumes "dest_len = written + 32 * k + j" "0 < j" "j < 32"
  shows "kdf_loop C s s1 dest_len ctr written dest = Panic"
  using assms(1)
proof (induction k arbitrary: ctr written dest)
  case 0
  then show ?case using assms(2,3) by (simp add: kdf_loop.simps)
next
  case (Suc k)
  then show ?case by (subst kdf_loop.simps) (simp add: Let_def)
qed

text \<open>
  C9. \<open>kdf\<close> fills its destination exactly when the length is a multiple of 32; for every other
  length the last copy is out of range and it panics. Its only callers ask for 32 bytes.
\<close>

theorem kdf_total:
  assumes "crypto_ok C"
  shows "if 32 dvd n then \<exists>key. kdf C secret s1 n = Ok key \<and> length key = n
         else kdf C secret s1 n = Panic"
proof -
  have n: "n = 0 + 32 * (n div 32) + n mod 32" by simp
  show ?thesis
  proof (cases "32 dvd n")
    case True
    then have "n = 0 + 32 * (n div 32)" by simp
    from kdf_loop_ok [OF assms this, of "[]"] True show ?thesis by (simp add: kdf_def)
  next
    case False
    then have "0 < n mod 32" "n mod 32 < 32" by (auto simp: dvd_eq_mod_eq_0)
    from kdf_loop_panic [OF n this] False show ?thesis by (simp add: kdf_def)
  qed
qed

definition kdf32 :: "('sk, 'pk, 'c) crypto \<Rightarrow> bytes \<Rightarrow> bytes" where
  "kdf32 C secret = cr_sha256 C ([0, 0, 0, 1] @ secret)"

lemma kdf_32: "kdf C secret [] 32 = Ok (kdf32 C secret)"
proof -
  have "kdf_loop C secret [] 32 2 32 d = Ok d" for d by (simp add: kdf_loop.simps)
  then show ?thesis by (simp add: kdf_def kdf32_def kdf_loop.simps [of C secret "[]" 32 1])
qed

section \<open>Message encryption\<close>

lemmas crypto_lens = crypto_okD(1,4,5,7-12)

lemma encrypt_message_ok:
  assumes "ec_remote_public_key e = Some rpk" "113 + length data < 2 ^ 16"
    and "key = kdf32 C (ecdh_x C rpk sk)" "enc = fst (cr_encrypt C (cr_ctr128 C (take 16 key) iv) data)"
  shows "encrypt_message C e sk iv data =
     Ok (cr_serialize C (cr_public C sk) @ iv @ enc @
         cr_hmac C (cr_sha256 C (drop 16 key)) (iv @ enc @ be16 (113 + length data)))"
  using assms by (simp add: encrypt_message_def kdf_32 u16_bytes_def Let_def hmac_sha256_def)

lemma decrypt_encrypt:
  assumes ok: "crypto_ok C" and rpk: "ec_remote_public_key e1 = Some (cr_public C (ec_secret_key e2))"
    and iv: "length iv = 16" and len: "113 + length data < 2 ^ 16"
  obtains m where "encrypt_message C e1 sk iv data = Ok m" "length m = 113 + length data"
    "decrypt_message C e2 (be16 (length m) @ m) = Ok data"
proof -
  define key where "key = kdf32 C (ecdh_x C (cr_public C (ec_secret_key e2)) sk)"
  define enc where "enc = fst (cr_encrypt C (cr_ctr128 C (take 16 key) iv) data)"
  define pub where "pub = cr_serialize C (cr_public C sk)"
  define tag where "tag = cr_hmac C (cr_sha256 C (drop 16 key)) (iv @ enc @ be16 (113 + length data))"
  have key2: "kdf32 C (ecdh_x C (cr_public C sk) (ec_secret_key e2)) = key"
    by (simp add: key_def ecdh_x_def cr_shared_sym [OF ok, of sk])
  have lens: "length pub = 65" "length enc = length data" "length tag = 32"
    by (simp_all add: pub_def enc_def tag_def crypto_lens [OF ok])
  have enc: "encrypt_message C e1 sk iv data = Ok (pub @ iv @ enc @ tag)"
    unfolding pub_def tag_def by (rule encrypt_message_ok [OF rpk len key_def enc_def])
  have "decrypt_message C e2 (be16 (113 + length data) @ pub @ iv @ enc @ tag) = Ok data"
    using lens iv
    by (simp add: decrypt_message_def split_at_def split_back_def UNCOMPRESSED_SIZE_def byte_simps
        pub_def [symmetric] crypto_okD(3) [OF ok, of sk, folded pub_def] kdf_32 key2 Let_def
        hmac_sha256_def) (simp add: enc_def tag_def crypto_okD(13) [OF ok])
  then show ?thesis using that [OF enc] lens iv by simp
qed

section \<open>The handshake\<close>

text \<open>
  The keys of an \<open>ECIES\<close> value belong together and its nonce is a 32-byte hash; the two
  constructors establish this and nothing changes these fields.
\<close>

definition ecies_wf :: "('sk, 'pk, 'c) crypto \<Rightarrow> ('sk, 'pk, 'c) ecies \<Rightarrow> bool" where
  "ecies_wf C e \<longleftrightarrow> ec_public_key e = cr_public C (ec_secret_key e) \<and>
     ec_ephemeral_public_key e = cr_public C (ec_ephemeral_secret_key e) \<and> length (ec_nonce e) = 32"

lemma new_static_server_wf:
  "new_static_server C sk nonce eph = Ok e \<Longrightarrow> length nonce = 32 \<Longrightarrow> ecies_wf C e"
  by (auto simp: new_static_server_def ecies_wf_def)

lemma new_static_client_wf:
  "new_static_client C sk rid nonce eph = Ok e \<Longrightarrow> length nonce = 32 \<Longrightarrow> ecies_wf C e"
  by (auto simp: new_static_client_def ecies_wf_def bind_outcome_Ok_iff)

text \<open>A handshake message is its own length, then that many bytes.\<close>

definition handshake_msg :: "bytes \<Rightarrow> bool" where
  "handshake_msg m \<longleftrightarrow> 2 \<le> length m \<and> of_be16 (m ! 0) (m ! 1) + 2 = length m"

lemma handshake_msgI: "length b < 2 ^ 16 \<Longrightarrow> handshake_msg (be16 (length b) @ b)"
  using of_be16_be16 [of "length b"]
  by (simp add: handshake_msg_def byte_simps nth_append)

lemma length_RList_le:
  assumes "rlp_ok R" "\<forall>x \<in> set xs. length (rl_out R x) \<le> 100" "length xs \<le> 5"
  shows "length (rl_out R (RList xs)) \<le> 509"
proof -
  have "length (concat (map (rl_out R) xs)) \<le> length xs * 100"
    using assms(2) by (induction xs) auto
  then have "length (concat (map (rl_out R) xs)) \<le> 500" using assms(3) by linarith
  then show ?thesis using rlp_okD(10) [OF assms(1), of xs] by simp
qed

lemma RData_short: "rlp_ok R \<Longrightarrow> length d \<le> 91 \<Longrightarrow> length (rl_out R (RData d)) \<le> 100"
  using rlp_okD(9) [of R d] by simp

lemma RUint_short: "rlp_ok R \<Longrightarrow> n < 128 \<Longrightarrow> length (rl_out R (RUint n)) \<le> 100"
  using rlp_okD(8) [of R n] by linarith

lemma ecdh_x_length: "crypto_ok C \<Longrightarrow> length (ecdh_x C (cr_public C a) b) = 32"
  by (simp add: ecdh_x_def crypto_lens)

lemma ecdh_x_sym: "crypto_ok C \<Longrightarrow> ecdh_x C (cr_public C a) b = ecdh_x C (cr_public C b) a"
  by (simp add: ecdh_x_def cr_shared_sym [of C a])

text \<open>What reading the \<open>auth\<close> message of a client leaves in a server.\<close>

definition after_auth :: "('sk, 'pk, 'c) crypto \<Rightarrow> ('sk, 'pk, 'c) ecies \<Rightarrow> bytes
    \<Rightarrow> ('sk, 'pk, 'c) ecies \<Rightarrow> ('sk, 'pk, 'c) ecies" where
  "after_auth C c m s = s
     \<lparr>ec_remote_init_msg := Some m,
      ec_remote_id := Some (pk2id C (cr_public C (ec_secret_key c))),
      ec_remote_public_key := Some (cr_public C (ec_secret_key c)),
      ec_remote_nonce := Some (ec_nonce c),
      ec_remote_ephemeral_public_key := Some (cr_public C (ec_ephemeral_secret_key c)),
      ec_ephemeral_shared_secret :=
        Some (ecdh_x C (cr_public C (ec_ephemeral_secret_key c)) (ec_ephemeral_secret_key s))\<rparr>"

lemma parse_auth_created:
  assumes C: "crypto_ok C" and R: "rlp_ok R" and wf: "ecies_wf C c"
    and rpk: "ec_remote_public_key c = Some (cr_public C (ec_secret_key s))"
    and u: "create_auth_unencrypted R C c pad = Ok u"
  shows "parse_auth_unencrypted R C u s = (Ok (), after_auth C c m s\<lparr>ec_remote_init_msg := ec_remote_init_msg s\<rparr>)"
proof -
  define msg where "msg = xor_bytes (ecdh_x C (cr_public C (ec_secret_key s)) (ec_secret_key c)) (ec_nonce c)"
  define sig where "sig = cr_sign C msg (ec_ephemeral_secret_key c)"
  have len: "length msg = 32" "length (snd sig) = 64"
    using wf by (simp_all add: msg_def sig_def length_xor_bytes ecdh_x_length [OF C] ecies_wf_def crypto_lens [OF C])
  have u: "u = rl_out R (RList [RData (snd sig @ [fst sig]), RData (pk2id C (cr_public C (ec_secret_key c))),
                       RData (ec_nonce c), RUint PROTOCOL_VERSION]) @ replicate pad 0"
    using u rpk wf
    by (simp add: create_auth_unencrypted_def msg_def [symmetric] sig_def [symmetric] ecies_wf_def split: prod.splits)
  have sig: "Option.bind (cr_signature C (snd sig) (fst sig)) (cr_recover C msg) =
      Some (cr_public C (ec_ephemeral_secret_key c))"
    using crypto_okD(6) [OF C len(1)] by (simp add: sig_def)
  then obtain g where g: "cr_signature C (snd sig) (fst sig) = Some g"
      "cr_recover C msg g = Some (cr_public C (ec_ephemeral_secret_key c))"
    by (auto simp: bind_eq_Some_conv)
  have msg: "xor_bytes (ecdh_x C (cr_public C (ec_secret_key c)) (ec_secret_key s)) (ec_nonce c) = msg"
    by (simp add: msg_def ecdh_x_sym [OF C, of "ec_secret_key c"])
  have idlen: "length (pk2id C (cr_public C (ec_secret_key c))) = 64" and nlen: "length (ec_nonce c) = 32"
    using wf by (simp_all add: length_pk2id [OF C] ecies_wf_def)
  show ?thesis unfolding u
    by (simp add: parse_auth_unencrypted_def rlp_okD [OF R] rlp_okD_whole [OF R] len g idlen nlen
        id2pk_pk2id [OF C] msg after_auth_def nth_append Let_def)
qed

lemma write_read_auth:
  assumes C: "crypto_ok C" and R: "rlp_ok R" and wf: "ecies_wf C c"
    and rpk: "ec_remote_public_key c = Some (cr_public C (ec_secret_key s))"
    and iv: "length iv = 16" and pad: "pad \<le> 300"
  obtains m where "handshake_msg m"
    "\<And>buf. write_auth R C sk iv pad buf c = (Ok (buf @ m), c\<lparr>ec_init_msg := Some m\<rparr>)"
    "read_auth R C m s = (Ok (), after_auth C c m s)"
proof -
  obtain u where u: "create_auth_unencrypted R C c pad = Ok u"
    using rpk by (simp add: create_auth_unencrypted_def split_beta Let_def)
  have ulen: "length u \<le> 809"
  proof -
    let ?sg = "cr_sign C (xor_bytes (ecdh_x C (cr_public C (ec_secret_key s)) (ec_secret_key c)) (ec_nonce c))
                 (ec_ephemeral_secret_key c)"
    let ?xs = "[RData (snd ?sg @ [fst ?sg]), RData (pk2id C (ec_public_key c)), RData (ec_nonce c),
                RUint PROTOCOL_VERSION]"
    have "u = rl_out R (RList ?xs) @ replicate pad 0"
      using u rpk by (simp add: create_auth_unencrypted_def split_beta Let_def)
    moreover have "\<forall>x \<in> set ?xs. length (rl_out R x) \<le> 100"
      using wf by (simp add: ecies_wf_def RData_short [OF R] RUint_short [OF R] PROTOCOL_VERSION_def
          crypto_lens [OF C] length_xor_bytes ecdh_x_length [OF C] length_pk2id [OF C])
    ultimately show ?thesis using length_RList_le [OF R, of ?xs] pad by simp
  qed
  obtain b where b: "encrypt_message C c sk iv u = Ok b" "length b = 113 + length u"
      "decrypt_message C s (be16 (length b) @ b) = Ok u"
    using decrypt_encrypt [OF C rpk iv, of u sk] ulen by auto
  let ?m = "be16 (length b) @ b"
  have "write_auth R C sk iv pad buf c = (Ok (buf @ ?m), c\<lparr>ec_init_msg := Some ?m\<rparr>)" for buf
    using b u ulen by (simp add: write_auth_def u16_bytes_def)
  moreover have "read_auth R C ?m s = (Ok (), after_auth C c ?m s)"
  proof -
    have "decrypt_message C (s\<lparr>ec_remote_init_msg := Some ?m\<rparr>) ?m = Ok u"
      using b(3) by (simp add: decrypt_message_def)
    then show ?thesis
      using parse_auth_created [OF C R wf, of "s\<lparr>ec_remote_init_msg := Some ?m\<rparr>" pad u ?m] rpk u
      by (simp add: read_auth_def after_auth_def)
  qed
  moreover have "handshake_msg ?m" using b(2) ulen by (intro handshake_msgI) simp
  ultimately show ?thesis using that by blast
qed

text \<open>
  \<open>linked a b\<close>: what \<open>a\<close> sends \<open>b\<close> can read. The cipher and the MAC of the one direction are in
  the same state at both ends, and \<open>b\<close> waits for a header.
\<close>

definition linked :: "('sk, 'pk, 'c) ecies \<Rightarrow> ('sk, 'pk, 'c) ecies \<Rightarrow> bool" where
  "linked a b \<longleftrightarrow> ec_egress_aes a \<noteq> None \<and> ec_egress_mac a \<noteq> None \<and>
     ec_ingress_aes b = ec_egress_aes a \<and> ec_ingress_mac b = ec_egress_mac a"

definition frame_aes :: "('sk, 'pk, 'c) crypto \<Rightarrow> bytes \<Rightarrow> bytes \<Rightarrow> bytes" where
  "frame_aes C ess nonces = cr_keccak C (ess @ cr_keccak C (ess @ cr_keccak C nonces))"

definition frame_mac :: "('sk, 'pk, 'c) crypto \<Rightarrow> bytes \<Rightarrow> bytes \<Rightarrow> bytes \<Rightarrow> bytes \<Rightarrow> mac" where
  "frame_mac C ess nonces nonce msg =
     (let s = cr_keccak C (ess @ frame_aes C ess nonces)
      in mac_update (mac_update (mac_new s) (xor_bytes s nonce)) msg)"

definition with_frames :: "('sk, 'pk, 'c) crypto \<Rightarrow> bytes \<Rightarrow> bytes \<Rightarrow> bytes \<Rightarrow> bytes \<Rightarrow> bytes
    \<Rightarrow> ('sk, 'pk, 'c) ecies \<Rightarrow> ('sk, 'pk, 'c) ecies" where
  "with_frames C ess nonces remote_nonce remote_msg msg e = e
     \<lparr>ec_ingress_aes := Some (cr_ctr256 C (frame_aes C ess nonces) (replicate 16 0)),
      ec_egress_aes := Some (cr_ctr256 C (frame_aes C ess nonces) (replicate 16 0)),
      ec_ingress_mac := Some (frame_mac C ess nonces (ec_nonce e) remote_msg),
      ec_egress_mac := Some (frame_mac C ess nonces remote_nonce msg)\<rparr>"

lemma setup_frame_run:
  assumes "ec_remote_nonce e = Some rn" "ec_ephemeral_shared_secret e = Some ess"
    "ec_remote_init_msg e = Some rm" "ec_init_msg e = Some m"
  shows "setup_frame C incoming e =
     (Ok (), with_frames C ess (if incoming then ec_nonce e @ rn else rn @ ec_nonce e) rn rm m e)"
  using assms by (simp add: setup_frame_def with_frames_def frame_aes_def frame_mac_def Let_def)

lemma parse_ack_created:
  assumes C: "crypto_ok C" and R: "rlp_ok R" and wf: "ecies_wf C s"
  shows "parse_ack_unencrypted R C (create_ack_unencrypted R C s) c =
     (Ok (), c\<lparr>ec_remote_ephemeral_public_key := Some (cr_public C (ec_ephemeral_secret_key s)),
               ec_remote_nonce := Some (ec_nonce s),
               ec_ephemeral_shared_secret :=
                 Some (ecdh_x C (cr_public C (ec_ephemeral_secret_key s)) (ec_ephemeral_secret_key c))\<rparr>)"
  using wf
  by (simp add: parse_ack_unencrypted_def create_ack_unencrypted_def ecies_wf_def rlp_okD_whole [OF R]
      length_pk2id [OF C] id2pk_pk2id [OF C])

lemma create_ack_short:
  assumes C: "crypto_ok C" and R: "rlp_ok R" and wf: "ecies_wf C s"
  shows "length (create_ack_unencrypted R C s) \<le> 509"
  unfolding create_ack_unencrypted_def using wf
  by (intro length_RList_le [OF R])
     (simp_all add: ecies_wf_def RData_short [OF R] RUint_short [OF R] PROTOCOL_VERSION_def length_pk2id [OF C])

text \<open>
  The whole handshake on the level of \<open>ECIES\<close>: a client that knows the server's id and a fresh
  server exchange \<open>auth\<close> and \<open>ack\<close> and end with linked ciphers in both directions.
\<close>

lemma handshake_links:
  assumes C: "crypto_ok C" and R: "rlp_ok R" and wfc: "ecies_wf C c" and wfs: "ecies_wf C s"
    and rpk: "ec_remote_public_key c = Some (cr_public C (ec_secret_key s))"
    and iv: "length iv1 = 16" "length iv2 = 16" and pad: "pad \<le> 300"
  obtains m1 m2 c1 s1 c2 s2 where
    "handshake_msg m1" "handshake_msg m2"
    "\<And>buf. write_auth R C k1 iv1 pad buf c = (Ok (buf @ m1), c1)" "read_auth R C m1 s = (Ok (), s1)"
    "\<And>buf. write_ack R C k2 iv2 buf s1 = (Ok (buf @ m2), s2)" "read_ack R C m2 c1 = (Ok (), c2)"
    "ec_remote_id s1 = Some (pk2id C (cr_public C (ec_secret_key c)))"
    "linked c2 s2" "linked s2 c2"
proof -
  obtain m1 where m1: "handshake_msg m1"
    "\<And>buf. write_auth R C k1 iv1 pad buf c = (Ok (buf @ m1), c\<lparr>ec_init_msg := Some m1\<rparr>)"
    "read_auth R C m1 s = (Ok (), after_auth C c m1 s)"
    using write_read_auth [OF C R wfc rpk iv(1) pad] by blast
  define c1 where "c1 = c\<lparr>ec_init_msg := Some m1\<rparr>"
  define s1 where "s1 = after_auth C c m1 s"
  have s1: "ecies_wf C s1" "ec_remote_public_key s1 = Some (cr_public C (ec_secret_key c1))"
    "create_ack_unencrypted R C s1 = create_ack_unencrypted R C s"
    using wfs by (simp_all add: s1_def c1_def after_auth_def ecies_wf_def create_ack_unencrypted_def)
  define u where "u = create_ack_unencrypted R C s"
  have ulen: "length u \<le> 509" unfolding u_def by (rule create_ack_short [OF C R wfs])
  obtain b where b: "encrypt_message C s1 k2 iv2 u = Ok b" "length b = 113 + length u"
      "decrypt_message C c1 (be16 (length b) @ b) = Ok u"
    using decrypt_encrypt [OF C s1(2) iv(2), of u k2] ulen by auto
  define m2 where "m2 = be16 (length b) @ b"
  define ess where "ess = ecdh_x C (cr_public C (ec_ephemeral_secret_key c)) (ec_ephemeral_secret_key s)"
  define s2 where "s2 = with_frames C ess (ec_nonce s @ ec_nonce c) (ec_nonce c) m1 m2 (s1\<lparr>ec_init_msg := Some m2\<rparr>)"
  have ws: "write_ack R C k2 iv2 buf s1 = (Ok (buf @ m2), s2)" for buf
  proof -
    have "setup_frame C True (s1\<lparr>ec_init_msg := Some m2\<rparr>) = (Ok (), s2)"
      by (subst setup_frame_run) (simp_all add: s1_def s2_def after_auth_def ess_def)
    then show ?thesis using b ulen s1(3)
      by (simp add: write_ack_def u_def [symmetric] u16_bytes_def m2_def)
  qed
  define c' where "c' = c1\<lparr>ec_remote_init_msg := Some m2,
      ec_remote_ephemeral_public_key := Some (cr_public C (ec_ephemeral_secret_key s)),
      ec_remote_nonce := Some (ec_nonce s), ec_ephemeral_shared_secret := Some ess\<rparr>"
  define c2 where "c2 = with_frames C ess (ec_nonce s @ ec_nonce c) (ec_nonce s) m2 m1 c'"
  have ess: "ecdh_x C (cr_public C (ec_ephemeral_secret_key s)) (ec_ephemeral_secret_key c) = ess"
    unfolding ess_def by (rule ecdh_x_sym [OF C])
  have rc: "read_ack R C m2 c1 = (Ok (), c2)"
  proof -
    have "decrypt_message C (c1\<lparr>ec_remote_init_msg := Some m2\<rparr>) m2 = Ok u"
      using b(3) by (simp add: decrypt_message_def m2_def)
    moreover have "parse_ack_unencrypted R C u (c1\<lparr>ec_remote_init_msg := Some m2\<rparr>) = (Ok (), c')"
      unfolding u_def by (subst parse_ack_created [OF C R wfs]) (simp add: c'_def c1_def ess)
    moreover have "setup_frame C False c' = (Ok (), c2)"
      by (subst setup_frame_run) (simp_all add: c'_def c2_def c1_def)
    ultimately show ?thesis by (simp add: read_ack_def)
  qed
  have hm2: "handshake_msg m2" unfolding m2_def using b(2) ulen by (intro handshake_msgI) simp
  have "linked c2 s2" "linked s2 c2"
    by (simp_all add: linked_def c2_def s2_def with_frames_def c'_def c1_def s1_def after_auth_def)
  moreover have "ec_remote_id s1 = Some (pk2id C (cr_public C (ec_secret_key c)))"
    by (simp add: s1_def after_auth_def)
  ultimately show ?thesis using that m1 hm2 ws rc unfolding c1_def [symmetric] s1_def [symmetric] by blast
qed

section \<open>Frames arrive as they were sent\<close>

lemma be24_val: "n < 2 ^ 24 \<Longrightarrow> be_val (be24 n) = n"
proof -
  assume n: "n < 2 ^ 24"
  have "unat (word_of_nat (n div 65536) :: byte) = n div 65536"
    using n by (simp add: unat_of_nat take_bit_eq_mod)
  moreover have "unat (word_of_nat (n div 256) :: byte) = n div 256 mod 256"
    "unat (word_of_nat n :: byte) = n mod 256"
    by (simp_all add: unat_of_nat take_bit_eq_mod)
  moreover have "n div 65536 * 65536 + (n div 256 mod 256 * 256 + n mod 256) = n"
  proof -
    have q: "n div 65536 = n div 256 div 256" by (simp add: div_mult2_eq [symmetric])
    show ?thesis unfolding q
      using div_mult_mod_eq [of n 256] div_mult_mod_eq [of "n div 256" 256] by linarith
  qed
  ultimately show ?thesis by (simp add: be24_def)
qed

lemma pad16_ge: "n \<le> pad16 n"
  unfolding pad16_def by presburger

text \<open>\<open>a'\<close> and \<open>b'\<close> differ from \<open>a\<close> and \<open>b\<close> only in the direction from \<open>a\<close> to \<open>b\<close>.\<close>

definition one_way :: "('sk, 'pk, 'c) ecies \<Rightarrow> ('sk, 'pk, 'c) ecies \<Rightarrow> ('sk, 'pk, 'c) ecies
    \<Rightarrow> ('sk, 'pk, 'c) ecies \<Rightarrow> bool" where
  "one_way a a' b b' \<longleftrightarrow>
     ec_ingress_aes a' = ec_ingress_aes a \<and> ec_ingress_mac a' = ec_ingress_mac a \<and>
     ec_body_size a' = ec_body_size a \<and>
     ec_egress_aes b' = ec_egress_aes b \<and> ec_egress_mac b' = ec_egress_mac b"

lemma one_way_linked: "one_way a a' b b' \<Longrightarrow> linked b a \<Longrightarrow> linked b' a'"
  by (simp add: one_way_def linked_def)

lemma one_way_trans: "one_way a a1 b b1 \<Longrightarrow> one_way a1 a2 b1 b2 \<Longrightarrow> one_way a a2 b b2"
  by (simp add: one_way_def)

lemma header_roundtrip:
  assumes C: "crypto_ok C" and l: "linked a b" and n: "n < 2 ^ 24"
  obtains h a' b' where "length h = 32" "\<And>out. write_header C out n a = (Ok (out @ h), a')"
    "read_header C h b = (Ok n, b')" "linked a' b'" "ec_body_size b' = Some n" "one_way a a' b b'"
proof -
  from l obtain aes mac where ae: "ec_egress_aes a = Some aes" "ec_egress_mac a = Some mac"
      "ec_ingress_aes b = Some aes" "ec_ingress_mac b = Some mac"
    by (auto simp: linked_def)
  define plain where "plain = be24 n @ [194, 128, 128] @ replicate 10 (0 :: byte)"
  define enc where "enc = fst (cr_encrypt C aes plain)"
  define aes' where "aes' = snd (cr_encrypt C aes plain)"
  define mac' where "mac' = mac_update_header C mac enc"
  have len: "length enc = 16" "length (mac_digest C mac') = 16"
    by (simp_all add: enc_def plain_def be24_def crypto_lens [OF C] length_mac_digest [OF C])
  have dec: "cr_decrypt C aes enc = (plain, aes')"
    by (simp add: enc_def aes'_def crypto_okD(13) [OF C])
  have p: "cr_encrypt C aes plain = (enc, aes')" by (simp add: enc_def aes'_def)
  let ?a = "a\<lparr>ec_egress_aes := Some aes', ec_egress_mac := Some mac'\<rparr>"
  let ?b = "b\<lparr>ec_ingress_mac := Some mac', ec_ingress_aes := Some aes', ec_body_size := Some n\<rparr>"
  have "write_header C out n a = (Ok (out @ enc @ mac_digest C mac'), ?a)" for out
    using n ae p by (simp add: write_header_def plain_def Let_def mac'_def)
  moreover have "be_val (take 3 plain) = n"
    using be24_val [OF n] by (simp add: plain_def be24_def)
  then have "read_header C (enc @ mac_digest C mac') b = (Ok n, ?b)"
    using ae len dec by (simp add: read_header_def split_at_def mac'_def [symmetric] Let_def)
  ultimately show ?thesis
    using that [of "enc @ mac_digest C mac'" ?a ?b] len by (simp add: linked_def one_way_def)
qed

lemma body_roundtrip:
  assumes C: "crypto_ok C" and l: "linked a b" and n: "ec_body_size b = Some (length d)"
  obtains f a' b' where "body_len b = Ok (length f)" "\<And>out. write_body C out d a = (Ok (out @ f), a')"
    "read_body C f b = (Ok d, b')" "linked a' b'" "one_way a a' b b'"
proof -
  from l obtain aes mac where ae: "ec_egress_aes a = Some aes" "ec_egress_mac a = Some mac"
      "ec_ingress_aes b = Some aes" "ec_ingress_mac b = Some mac"
    by (auto simp: linked_def)
  define plain where "plain = d @ replicate (pad16 (length d) - length d) (0 :: byte)"
  define enc where "enc = fst (cr_encrypt C aes plain)"
  define aes' where "aes' = snd (cr_encrypt C aes plain)"
  define mac' where "mac' = mac_update_body C mac enc"
  have len: "length enc = pad16 (length d)" "length (mac_digest C mac') = 16"
    using pad16_ge [of "length d"]
    by (simp_all add: enc_def plain_def crypto_lens [OF C] length_mac_digest [OF C])
  have dec: "cr_decrypt C aes enc = (plain, aes')"
    by (simp add: enc_def aes'_def crypto_okD(13) [OF C])
  have p: "cr_encrypt C aes plain = (enc, aes')" by (simp add: enc_def aes'_def)
  let ?a = "a\<lparr>ec_egress_aes := Some aes', ec_egress_mac := Some mac'\<rparr>"
  let ?b = "b\<lparr>ec_ingress_mac := Some mac', ec_body_size := None, ec_ingress_aes := Some aes'\<rparr>"
  have "write_body C out d a = (Ok (out @ enc @ mac_digest C mac'), ?a)" for out
    using ae p by (simp add: write_body_def plain_def Let_def mac'_def)
  moreover have "take (length d) plain = d" "length d \<le> length plain" by (simp_all add: plain_def)
  then have "read_body C (enc @ mac_digest C mac') b = (Ok d, ?b)"
    using ae len dec n
    by (simp add: read_body_def split_back_def split_at_def mac'_def [symmetric] Let_def)
  moreover have "body_len b = Ok (length (enc @ mac_digest C mac'))"
    using n len by (simp add: body_len_def)
  ultimately show ?thesis
    using that [of "enc @ mac_digest C mac'" ?a ?b] by (simp add: linked_def one_way_def)
qed

end
