(* ===== verification/Ecies_Codec.thy ===== *)
theory Ecies_Codec
  imports Ecies Api_Instances
begin

text \<open>
  The codec of the transport, \<^verbatim>\<open>devp2p/src/ecies/proto.rs\<close>: a state machine over the input
  buffer (\<open>Decoder::decode\<close>) and the output buffer (\<open>Encoder::encode\<close>), and the two handshakes of
  \<open>ECIESStream\<close>. \<open>decode\<close> returns \<open>Ok None\<close> when the buffer does not hold a whole message yet.
\<close>

datatype ecies_state = Auth | Ack | Header | Body

datatype egress_value = EgressAuth | EgressAck | EgressMessage bytes

datatype ingress_value = IngressAuthReceive bytes | IngressAck | IngressMessage bytes

record ('sk, 'pk, 'c) codec =
  cd_ecies :: "('sk, 'pk, 'c) ecies"
  cd_state :: ecies_state

definition codec_new_server :: "('sk, 'pk, 'c) crypto \<Rightarrow> 'sk \<Rightarrow> bytes \<Rightarrow> 'sk
    \<Rightarrow> (ecies_error, ('sk, 'pk, 'c) codec) outcome" where
  "codec_new_server C secret_key nonce eph =
     bind_outcome (new_static_server C secret_key nonce eph) (\<lambda>e. Ok \<lparr>cd_ecies = e, cd_state = Auth\<rparr>)"

definition codec_new_client :: "('sk, 'pk, 'c) crypto \<Rightarrow> 'sk \<Rightarrow> bytes \<Rightarrow> bytes \<Rightarrow> 'sk
    \<Rightarrow> (ecies_error, ('sk, 'pk, 'c) codec) outcome" where
  "codec_new_client C secret_key remote_id nonce eph =
     bind_outcome (new_static_client C secret_key remote_id nonce eph)
       (\<lambda>e. Ok \<lparr>cd_ecies = e, cd_state = Auth\<rparr>)"

text \<open>A call of a method of the wrapped \<open>ECIES\<close>, with the rest of the codec unchanged.\<close>

definition on_ecies :: "(('sk, 'pk, 'c) ecies, 'e, 'a) st \<Rightarrow> (('sk, 'pk, 'c) codec, 'e, 'a) st" where
  "on_ecies m = (\<lambda>c. case m (cd_ecies c) of (r, e) \<Rightarrow> (r, c\<lparr>cd_ecies := e\<rparr>))"

text \<open>
  One pass of the loop of \<open>decode\<close> on the codec and the buffer: it returns (\<open>Done\<close>) or goes
  round again (\<open>Again\<close>). The bytes split off the buffer are gone when the call fails.
\<close>

datatype ('e, 'a) pass = Again | Done "('e, 'a) outcome"

text \<open>The two handshake states: a length of two bytes, then the message.\<close>

definition decode_handshake ::
    "(bytes \<Rightarrow> (('sk, 'pk, 'c) ecies, ecies_error, unit) st)
     \<Rightarrow> (('sk, 'pk, 'c) ecies \<Rightarrow> (ecies_error, ingress_value) outcome)
     \<Rightarrow> ('sk, 'pk, 'c) codec \<Rightarrow> bytes
     \<Rightarrow> (ecies_error, ingress_value option) outcome \<times> ('sk, 'pk, 'c) codec \<times> bytes" where
  "decode_handshake rd result c buf =
     (if length buf < 2 then (Ok None, c, buf)
      else let payload_size = of_be16 (buf ! 0) (buf ! 1);
               total_size = payload_size + 2
           in if length buf < total_size then (Ok None, c, buf)
              else case on_ecies (rd (take total_size buf)) c of
                (Ok _, c') \<Rightarrow>
                  let c' = c'\<lparr>cd_state := Header\<rparr>
                  in (bind_outcome (result (cd_ecies c')) (\<lambda>v. Ok (Some v)), c', drop total_size buf)
              | (Err err, c') \<Rightarrow> (Err err, c', drop total_size buf)
              | (Panic, c') \<Rightarrow> (Panic, c', drop total_size buf))"

definition decode_pass :: "rlp_api \<Rightarrow> ('sk, 'pk, 'c) crypto \<Rightarrow> ('sk, 'pk, 'c) codec \<Rightarrow> bytes
    \<Rightarrow> (ecies_error, ingress_value option) pass \<times> ('sk, 'pk, 'c) codec \<times> bytes" where
  "decode_pass R C c buf =
     (case cd_state c of
        Auth \<Rightarrow> apfst Done (decode_handshake (read_auth R C)
                  (\<lambda>e. bind_outcome (ecies_remote_id e) (\<lambda>i. Ok (IngressAuthReceive i))) c buf)
      | Ack \<Rightarrow> apfst Done (decode_handshake (read_ack R C) (\<lambda>_. Ok IngressAck) c buf)
      | Header \<Rightarrow>
          if length buf < header_len then (Done (Ok None), c, buf)
          else (case on_ecies (read_header C (take header_len buf)) c of
                  (Ok _, c') \<Rightarrow> (Again, c'\<lparr>cd_state := Body\<rparr>, drop header_len buf)
                | (Err err, c') \<Rightarrow> (Done (Err err), c', drop header_len buf)
                | (Panic, c') \<Rightarrow> (Done Panic, c', drop header_len buf))
      | Body \<Rightarrow>
          (case body_len (cd_ecies c) of
             Ok len \<Rightarrow>
               if length buf < len then (Done (Ok None), c, buf)
               else (case on_ecies (read_body C (take len buf)) c of
                       (Ok ret, c') \<Rightarrow>
                         (Done (Ok (Some (IngressMessage ret))), c'\<lparr>cd_state := Header\<rparr>, drop len buf)
                     | (Err err, c') \<Rightarrow> (Done (Err err), c', drop len buf)
                     | (Panic, c') \<Rightarrow> (Done Panic, c', drop len buf))
           | Err err \<Rightarrow> (Done (Err err), c, buf)
           | Panic \<Rightarrow> (Done Panic, c, buf)))"

text \<open>Only a header sends the loop round again, and then the state is \<open>Body\<close>.\<close>

lemma decode_pass_Again:
  "decode_pass R C c buf = (Again, c', buf') \<Longrightarrow> cd_state c = Header \<and> cd_state c' = Body"
  by (auto simp: decode_pass_def apfst_def map_prod_def
           split: ecies_state.splits if_splits outcome.splits prod.splits)

function decode :: "rlp_api \<Rightarrow> ('sk, 'pk, 'c) crypto \<Rightarrow> ('sk, 'pk, 'c) codec \<Rightarrow> bytes
    \<Rightarrow> (ecies_error, ingress_value option) outcome \<times> ('sk, 'pk, 'c) codec \<times> bytes" where
  "decode R C c buf =
     (case decode_pass R C c buf of
        (Done r, c', buf') \<Rightarrow> (r, c', buf')
      | (Again, c', buf') \<Rightarrow> decode R C c' buf')"
  by pat_completeness auto
termination
  by (relation "measure (\<lambda>(R, C, c, buf). if cd_state c = Header then 1 else 0)")
     (auto dest: decode_pass_Again [OF sym])

declare decode.simps [simp del]

text \<open>The random choices \<open>encode\<close> makes in the handshake.\<close>

record 'sk enc_rand =
  er_key :: 'sk
  er_iv :: bytes
  er_pad :: nat

definition encode :: "rlp_api \<Rightarrow> ('sk, 'pk, 'c) crypto \<Rightarrow> 'sk enc_rand \<Rightarrow> egress_value \<Rightarrow> bytes
    \<Rightarrow> (('sk, 'pk, 'c) codec, ecies_error, bytes) st" where
  "encode R C rnd item buf =
     (case item of
        EgressAuth \<Rightarrow>
          st_bind (st_modify (\<lambda>c. c\<lparr>cd_state := Ack\<rparr>)) (\<lambda>_.
          on_ecies (write_auth R C (er_key rnd) (er_iv rnd) (er_pad rnd) buf))
      | EgressAck \<Rightarrow>
          st_bind (st_modify (\<lambda>c. c\<lparr>cd_state := Header\<rparr>)) (\<lambda>_.
          on_ecies (write_ack R C (er_key rnd) (er_iv rnd) buf))
      | EgressMessage data \<Rightarrow>
          st_bind (on_ecies (write_header C buf (length data))) (\<lambda>buf.
          on_ecies (write_body C buf data)))"

text \<open>
  \<open>ECIESStream\<close>: the framed connection is the codec with its input buffer. The handshakes are
  given the bytes that come in and return those that go out; by \<open>decode_incremental\<close> below it does not
  matter in which pieces the input arrives.
\<close>

record ('sk, 'pk, 'c) ecies_stream =
  es_codec :: "('sk, 'pk, 'c) codec"
  es_buf :: bytes
  es_remote_id :: bytes

definition stream_connect :: "rlp_api \<Rightarrow> ('sk, 'pk, 'c) crypto \<Rightarrow> 'sk \<Rightarrow> bytes \<Rightarrow> bytes \<Rightarrow> 'sk
    \<Rightarrow> 'sk enc_rand \<Rightarrow> bytes \<Rightarrow> (ecies_error, ('sk, 'pk, 'c) ecies_stream \<times> bytes) outcome" where
  "stream_connect R C secret_key remote_id nonce eph rnd input =
     bind_outcome (codec_new_client C secret_key remote_id nonce eph) (\<lambda>c.
     case encode R C rnd EgressAuth [] c of
       (Ok out, c) \<Rightarrow>
         (case decode R C c input of
            (Ok ack, c, rest) \<Rightarrow>
              if ack = Some IngressAck
              then Ok (\<lparr>es_codec = c, es_buf = rest, es_remote_id = remote_id\<rparr>, out)
              else Err Other
          | (Err e, _) \<Rightarrow> Err e
          | (Panic, _) \<Rightarrow> Panic)
     | (Err e, _) \<Rightarrow> Err e
     | (Panic, _) \<Rightarrow> Panic)"

definition stream_incoming :: "rlp_api \<Rightarrow> ('sk, 'pk, 'c) crypto \<Rightarrow> 'sk \<Rightarrow> bytes \<Rightarrow> 'sk
    \<Rightarrow> 'sk enc_rand \<Rightarrow> bytes \<Rightarrow> (ecies_error, ('sk, 'pk, 'c) ecies_stream \<times> bytes) outcome" where
  "stream_incoming R C secret_key nonce eph rnd input =
     bind_outcome (codec_new_server C secret_key nonce eph) (\<lambda>c.
     case decode R C c input of
       (Ok (Some (IngressAuthReceive remote_id)), c, rest) \<Rightarrow>
         (case encode R C rnd EgressAck [] c of
            (Ok out, c) \<Rightarrow> Ok (\<lparr>es_codec = c, es_buf = rest, es_remote_id = remote_id\<rparr>, out)
          | (Err e, _) \<Rightarrow> Err e
          | (Panic, _) \<Rightarrow> Panic)
     | (Ok _, _) \<Rightarrow> Err Other
     | (Err e, _) \<Rightarrow> Err e
     | (Panic, _) \<Rightarrow> Panic)"

text \<open>\<open>Stream::poll_next\<close> on an item of the framed transport: anything but a message is an error.\<close>

fun stream_item :: "(ecies_error, ingress_value) outcome option \<Rightarrow> (ecies_error, bytes) outcome option" where
  "stream_item (Some (Ok (IngressMessage body))) = Some (Ok body)"
| "stream_item (Some Panic) = Some Panic"
| "stream_item (Some other) = Some (Err IO)"
| "stream_item None = None"

text \<open>\<open>Sink::start_send\<close>.\<close>

definition stream_start_send :: "rlp_api \<Rightarrow> ('sk, 'pk, 'c) crypto \<Rightarrow> 'sk enc_rand \<Rightarrow> bytes \<Rightarrow> bytes
    \<Rightarrow> (('sk, 'pk, 'c) codec, ecies_error, bytes) st" where
  "stream_start_send R C rnd item buf = encode R C rnd (EgressMessage item) buf"

section \<open>Decoding is incremental\<close>

lemma decode_handshake_extend:
  assumes "decode_handshake rd res c p = (r, c', p')"
  shows "if r = Ok None then c' = c \<and> p' = p
         else decode_handshake rd res c (p @ q) = (r, c', p' @ q)"
proof (cases "2 \<le> length p \<and> of_be16 (p ! 0) (p ! 1) + 2 \<le> length p")
  case False
  then show ?thesis using assms by (auto simp: decode_handshake_def Let_def split: if_splits)
next
  case True
  let ?n = "of_be16 (p ! 0) (p ! 1) + 2"
  have p: "(p @ q) ! 0 = p ! 0" "(p @ q) ! 1 = p ! 1" "take ?n (p @ q) = take ?n p"
    "drop ?n (p @ q) = drop ?n p @ q" "\<not> length p < 2" "\<not> length p < ?n"
    "\<not> length (p @ q) < 2" "\<not> length (p @ q) < ?n"
    using True by (auto simp: nth_append)
  have "r \<noteq> Ok None"
    using assms p by (auto simp: decode_handshake_def Let_def bind_outcome_Ok_iff split: outcome.splits prod.splits)
  then show ?thesis
    using assms p unfolding decode_handshake_def Let_def
    by (auto split: outcome.splits prod.splits)
qed

lemma decode_pass_extend:
  assumes "decode_pass R C c p = (x, c', p')"
  shows "if x = Done (Ok None) then c' = c \<and> p' = p
         else decode_pass R C c (p @ q) = (x, c', p' @ q)"
proof (cases "cd_state c")
  case Auth
  then show ?thesis using assms
    by (auto simp: decode_pass_def apfst_def map_prod_def split: prod.splits
        dest: decode_handshake_extend [where q = q])
next
  case Ack
  then show ?thesis using assms
    by (auto simp: decode_pass_def apfst_def map_prod_def split: prod.splits
        dest: decode_handshake_extend [where q = q])
next
  case Header
  then show ?thesis using assms
    by (auto simp: decode_pass_def split: if_splits outcome.splits prod.splits)
next
  case Body
  then show ?thesis using assms
    by (auto simp: decode_pass_def split: if_splits outcome.splits prod.splits)
qed

lemma decode_extend:
  assumes "decode R C c p = (r, c', p')"
  shows "decode R C c (p @ q) = (if r = Ok None then decode R C c' (p' @ q) else (r, c', p' @ q))"
  using assms
proof (induction R C c p rule: decode.induct)
  case (1 R C c p)
  obtain x c1 p1 where pass: "decode_pass R C c p = (x, c1, p1)" by (cases "decode_pass R C c p")
  note ext = decode_pass_extend [OF pass, of q]
  show ?case
  proof (cases x)
    case Again
    then have "decode R C c1 p1 = (r, c', p')"
      using "1.prems" pass by (simp add: decode.simps [of R C c p])
    then have "decode R C c1 (p1 @ q) = (if r = Ok None then decode R C c' (p' @ q) else (r, c', p' @ q))"
      using "1.IH" [OF pass [symmetric] Again refl] by simp
    then show ?thesis using Again ext by (simp add: decode.simps [of R C c "p @ q"])
  next
    case (Done r')
    then have "r' = r" "c1 = c'" "p1 = p'"
      using "1.prems" pass by (simp_all add: decode.simps [of R C c p])
    with Done ext show ?thesis
      by (cases "r = Ok None") (simp_all add: decode.simps [of R C c "p @ q"])
  qed
qed

text \<open>
  C23. Decoding does not depend on how the input is cut into pieces. When \<open>decode\<close> asks for more
  input, going on with the codec and the rest of the buffer it left behind gives what decoding
  the whole input at once gives; when it returns a message or fails, further input changes
  neither the result nor the codec and stays in the buffer.
\<close>

theorem decode_incremental:
  "case decode R C c p of (r, c', p') \<Rightarrow>
     decode R C c (p @ q) = (if r = Ok None then decode R C c' (p' @ q) else (r, c', p' @ q))"
  by (cases "decode R C c p") (simp add: decode_extend)

section \<open>Messages arrive as they were sent\<close>

text \<open>
  A link between a sender and a receiver, as the layers above the codec see it: a sent message
  appends bytes to the output buffer, and a receiver that is linked to the sender takes exactly
  these bytes off its input and gets the message. Any number of messages written one after the
  other is then read back in order.
\<close>

fun send_all :: "('m \<Rightarrow> bytes \<Rightarrow> 's \<Rightarrow> (bytes \<times> 's) option) \<Rightarrow> 'm list \<Rightarrow> bytes \<Rightarrow> 's \<Rightarrow> (bytes \<times> 's) option" where
  "send_all snd1 [] buf s = Some (buf, s)"
| "send_all snd1 (m # ms) buf s = Option.bind (snd1 m buf s) (\<lambda>(buf', s'). send_all snd1 ms buf' s')"

fun recv_all :: "('r \<Rightarrow> bytes \<Rightarrow> ('m \<times> 'r \<times> bytes) option) \<Rightarrow> nat \<Rightarrow> 'r \<Rightarrow> bytes \<Rightarrow> ('m list \<times> 'r \<times> bytes) option" where
  "recv_all rcv1 0 r buf = Some ([], r, buf)"
| "recv_all rcv1 (Suc n) r buf = Option.bind (rcv1 r buf) (\<lambda>(m, r', buf').
     Option.bind (recv_all rcv1 n r' buf') (\<lambda>(ms, r'', buf''). Some (m # ms, r'', buf'')))"

locale framed_link =
  fixes snd1 :: "'m \<Rightarrow> bytes \<Rightarrow> 's \<Rightarrow> (bytes \<times> 's) option"
    and rcv1 :: "'r \<Rightarrow> bytes \<Rightarrow> ('m \<times> 'r \<times> bytes) option"
    and link :: "'s \<Rightarrow> 'r \<Rightarrow> bool"
    and sendable :: "'m \<Rightarrow> bool"
  assumes one_message: "link s r \<Longrightarrow> sendable m \<Longrightarrow>
     \<exists>f s' r'. (\<forall>buf. snd1 m buf s = Some (buf @ f, s')) \<and>
        (\<forall>rest. rcv1 r (f @ rest) = Some (m, r', rest)) \<and> link s' r'"
begin

lemma all_messages:
  assumes "link s r" "\<forall>m \<in> set ms. sendable m"
  shows "\<exists>f s' r'. (\<forall>buf. send_all snd1 ms buf s = Some (buf @ f, s')) \<and>
           (\<forall>rest. recv_all rcv1 (length ms) r (f @ rest) = Some (ms, r', rest)) \<and> link s' r'"
  using assms
proof (induction ms arbitrary: s r)
  case Nil
  then show ?case by (intro exI [of _ "[]"]) auto
next
  case (Cons m ms)
  then obtain f s1 r1 where 1: "\<forall>buf. snd1 m buf s = Some (buf @ f, s1)"
      "\<forall>rest. rcv1 r (f @ rest) = Some (m, r1, rest)" "link s1 r1"
    using one_message [of s r m] by auto
  obtain g s2 r2 where 2: "\<forall>buf. send_all snd1 ms buf s1 = Some (buf @ g, s2)"
      "\<forall>rest. recv_all rcv1 (length ms) r1 (g @ rest) = Some (ms, r2, rest)" "link s2 r2"
    using Cons.IH [OF 1(3)] Cons.prems by auto
  show ?case using 1 2 by (intro exI [of _ "f @ g"] exI [of _ s2] exI [of _ r2]) simp
qed

end

text \<open>The link of two codecs: the layer a peer stream sends and receives through.\<close>

definition codec_send :: "rlp_api \<Rightarrow> ('sk, 'pk, 'c) crypto \<Rightarrow> 'sk enc_rand \<Rightarrow> bytes \<Rightarrow> bytes
    \<Rightarrow> ('sk, 'pk, 'c) codec \<Rightarrow> (bytes \<times> ('sk, 'pk, 'c) codec) option" where
  "codec_send R C rnd m buf c =
     (case stream_start_send R C rnd m buf c of (Ok out, c') \<Rightarrow> Some (out, c') | _ \<Rightarrow> None)"

definition codec_recv :: "rlp_api \<Rightarrow> ('sk, 'pk, 'c) crypto \<Rightarrow> ('sk, 'pk, 'c) codec \<Rightarrow> bytes
    \<Rightarrow> (bytes \<times> ('sk, 'pk, 'c) codec \<times> bytes) option" where
  "codec_recv R C c buf =
     (case decode R C c buf of
        (Ok (Some v), c', buf') \<Rightarrow>
          (case stream_item (Some (Ok v)) of Some (Ok m) \<Rightarrow> Some (m, c', buf') | _ \<Rightarrow> None)
      | _ \<Rightarrow> None)"

definition codec_linked :: "('sk, 'pk, 'c) codec \<Rightarrow> ('sk, 'pk, 'c) codec \<Rightarrow> bool" where
  "codec_linked a b \<longleftrightarrow> cd_state a = Header \<and> cd_state b = Header \<and>
     linked (cd_ecies a) (cd_ecies b) \<and> linked (cd_ecies b) (cd_ecies a)"

lemma codec_linked_sym: "codec_linked a b \<Longrightarrow> codec_linked b a"
  by (auto simp: codec_linked_def)

text \<open>One direction of a link: what \<open>a\<close> sends \<open>b\<close> can read, and \<open>b\<close> waits for a frame.\<close>

definition codec_half :: "('sk, 'pk, 'c) codec \<Rightarrow> ('sk, 'pk, 'c) codec \<Rightarrow> bool" where
  "codec_half a b \<longleftrightarrow> cd_state b = Header \<and> linked (cd_ecies a) (cd_ecies b)"

lemma codec_linked_halves:
  "codec_linked a b \<longleftrightarrow> codec_half a b \<and> codec_half b a"
  by (auto simp: codec_linked_def codec_half_def)

lemma codec_half_message:
  assumes C: "crypto_ok C" and l: "codec_half a b" and d: "length d < 2 ^ 24"
  obtains f a' b' where "\<And>buf. codec_send R C rnd d buf a = Some (buf @ f, a')"
    "\<And>rest. decode R C b (f @ rest) = (Ok (Some (IngressMessage d)), b', rest)" "codec_half a' b'"
    "\<And>c. codec_half c a \<Longrightarrow> codec_half c a'" "\<And>c. codec_half b c \<Longrightarrow> codec_half b' c"
proof -
  let ?a = "cd_ecies a" and ?b = "cd_ecies b"
  have ab: "linked ?a ?b" and st: "cd_state b = Header"
    using l by (auto simp: codec_half_def)
  obtain h a1 b1 where h: "length h = 32" "\<And>out. write_header C out (length d) ?a = (Ok (out @ h), a1)"
      "read_header C h ?b = (Ok (length d), b1)" "linked a1 b1" "ec_body_size b1 = Some (length d)"
      "one_way ?a a1 ?b b1"
    using header_roundtrip [OF C ab d] by blast
  obtain f a2 b2 where f: "body_len b1 = Ok (length f)" "\<And>out. write_body C out d a1 = (Ok (out @ f), a2)"
      "read_body C f b1 = (Ok d, b2)" "linked a2 b2" "one_way a1 a2 b1 b2"
    using body_roundtrip [OF C h(4,5)] by blast
  let ?a2 = "a\<lparr>cd_ecies := a2\<rparr>" and ?b1 = "b\<lparr>cd_ecies := b1, cd_state := Body\<rparr>"
  let ?b2 = "b\<lparr>cd_ecies := b2, cd_state := Header\<rparr>"
  have "codec_send R C rnd d buf a = Some (buf @ h @ f, ?a2)" for buf
    using h(2) f(2)
    by (simp add: codec_send_def stream_start_send_def encode_def on_ecies_def st_bind_def)
  moreover have "decode R C b ((h @ f) @ rest) = (Ok (Some (IngressMessage d)), ?b2, rest)" for rest
  proof -
    have "decode_pass R C b (h @ f) = (Again, ?b1, f)"
      using h(1,3) st by (simp add: decode_pass_def header_len_def on_ecies_def)
    moreover have "decode_pass R C ?b1 f = (Done (Ok (Some (IngressMessage d))), ?b2, [])"
      using f(1,3) by (simp add: decode_pass_def on_ecies_def)
    ultimately have "decode R C b (h @ f) = (Ok (Some (IngressMessage d)), ?b2, [])"
      by (simp add: decode.simps [of R C b] decode.simps [of R C ?b1])
    from decode_extend [OF this, of rest] show ?thesis by simp
  qed
  moreover have "codec_half ?a2 ?b2" using f(4) by (simp add: codec_half_def)
  moreover have "one_way ?a a2 ?b b2" by (rule one_way_trans [OF h(6) f(5)])
  then have "codec_half c ?a2" if "codec_half c a" for c using that by (simp add: codec_half_def one_way_def linked_def)
  moreover have "codec_half ?b2 c" if "codec_half b c" for c
    using that \<open>one_way ?a a2 ?b b2\<close> by (simp add: codec_half_def one_way_def linked_def)
  ultimately show ?thesis using that [of "h @ f" ?a2 ?b2] by simp
qed

lemma codec_one_message:
  assumes C: "crypto_ok C" and l: "codec_linked a b" and d: "length d < 2 ^ 24"
  shows "\<exists>f a' b'. (\<forall>buf. codec_send R C rnd d buf a = Some (buf @ f, a')) \<and>
     (\<forall>rest. codec_recv R C b (f @ rest) = Some (d, b', rest)) \<and> codec_linked a' b'"
proof -
  have ab: "codec_half a b" and ba: "codec_half b a" using l by (simp_all add: codec_linked_halves)
  obtain f a' b' where f: "\<And>buf. codec_send R C rnd d buf a = Some (buf @ f, a')"
    "\<And>rest. decode R C b (f @ rest) = (Ok (Some (IngressMessage d)), b', rest)" "codec_half a' b'"
    "\<And>c. codec_half c a \<Longrightarrow> codec_half c a'" "\<And>c. codec_half b c \<Longrightarrow> codec_half b' c"
    using codec_half_message [OF C ab d, of R rnd] by metis
  have "codec_linked a' b'" using f(3) f(5) [OF f(4) [OF ba]] by (simp add: codec_linked_halves)
  then show ?thesis using f(1,2) by (auto simp: codec_recv_def)
qed

interpretation ecies_link: framed_link "codec_send R C rnd" "codec_recv R C"
  "\<lambda>a b. crypto_ok C \<and> codec_linked a b" "\<lambda>d. length d < 2 ^ 24" for R C rnd
  by unfold_locales (use codec_one_message in blast)

lemma decode_handshake_whole:
  assumes "handshake_msg m" "rd m (cd_ecies c) = (Ok (), e)" "res e = Ok v"
  shows "decode_handshake rd res c (m @ rest) =
     (Ok (Some v), c\<lparr>cd_ecies := e, cd_state := Header\<rparr>, rest)"
  using assms by (auto simp: decode_handshake_def handshake_msg_def Let_def on_ecies_def nth_append)

lemma handshake_connects:
  assumes "crypto_ok C" "rlp_ok R" "length nc = 32" "length ns = 32"
    and "length (er_iv rc) = 16" "length (er_iv rs) = 16" "er_pad rc \<le> 300"
  shows "\<exists>m1 m2 ca cb. \<forall>x y.
     stream_connect R C kc (pk2id C (cr_public C ks)) nc ec rc (m2 @ x) =
       Ok (\<lparr>es_codec = ca, es_buf = x, es_remote_id = pk2id C (cr_public C ks)\<rparr>, m1) \<and>
     stream_incoming R C ks ns es rs (m1 @ y) =
       Ok (\<lparr>es_codec = cb, es_buf = y, es_remote_id = pk2id C (cr_public C kc)\<rparr>, m2) \<and>
     codec_linked ca cb"
proof -
  note C = assms(1) and R = assms(2)
  obtain c where c: "new_static_client C kc (pk2id C (cr_public C ks)) nc ec = Ok c"
      "ec_remote_public_key c = Some (cr_public C ks)" "ec_secret_key c = kc"
    by (simp add: new_static_client_def id2pk_pk2id [OF C])
  obtain s where s: "new_static_server C ks ns es = Ok s" "ec_secret_key s = ks"
    by (simp add: new_static_server_def)
  have rpk: "ec_remote_public_key c = Some (cr_public C (ec_secret_key s))"
    using c(2) s(2) by simp
  obtain m1 m2 c1 s1 c2 s2 where h: "handshake_msg m1" "handshake_msg m2"
    "\<And>buf. write_auth R C (er_key rc) (er_iv rc) (er_pad rc) buf c = (Ok (buf @ m1), c1)"
    "read_auth R C m1 s = (Ok (), s1)"
    "\<And>buf. write_ack R C (er_key rs) (er_iv rs) buf s1 = (Ok (buf @ m2), s2)"
    "read_ack R C m2 c1 = (Ok (), c2)"
    "ec_remote_id s1 = Some (pk2id C (cr_public C (ec_secret_key c)))" "linked c2 s2" "linked s2 c2"
    using handshake_links [OF C R new_static_client_wf [OF c(1) assms(3)] new_static_server_wf [OF s(1) assms(4)]
        rpk assms(5,6,7), of "er_key rc" "er_key rs"]
    by metis
  let ?ca = "\<lparr>cd_ecies = c2, cd_state = Header\<rparr>" and ?cb = "\<lparr>cd_ecies = s2, cd_state = Header\<rparr>"
  have "stream_connect R C kc (pk2id C (cr_public C ks)) nc ec rc (m2 @ x) =
       Ok (\<lparr>es_codec = ?ca, es_buf = x, es_remote_id = pk2id C (cr_public C ks)\<rparr>, m1)" for x
    using h(2,6) by (simp add: stream_connect_def codec_new_client_def c(1) encode_def on_ecies_def h(3)
        decode.simps decode_pass_def decode_handshake_whole [where v = IngressAck])
  moreover have "stream_incoming R C ks ns es rs (m1 @ y) =
       Ok (\<lparr>es_codec = ?cb, es_buf = y, es_remote_id = pk2id C (cr_public C kc)\<rparr>, m2)" for y
    using h(1,4,7) c(3) by (simp add: stream_incoming_def codec_new_server_def s(1) encode_def on_ecies_def h(5)
        decode.simps decode_pass_def ecies_remote_id_def
        decode_handshake_whole [where v = "IngressAuthReceive (pk2id C (cr_public C kc))"])
  moreover have "codec_linked ?ca ?cb" using h(8,9) by (simp add: codec_linked_def)
  ultimately show ?thesis by blast
qed

text \<open>
  The handshake. A client that dials the id of a server and the server end up connected: each
  accepts the other's message, whatever bytes follow it, the server learns the client's id, and the
  codecs are linked in both directions.
\<close>

theorem streams_handshake:
  assumes "crypto_ok C" "rlp_ok R" "length nc = 32" "length ns = 32"
    and "length (er_iv rc) = 16" "length (er_iv rs) = 16" "er_pad rc \<le> 300"
  shows "\<exists>m1 m2 ca cb. \<forall>x y.
     stream_connect R C kc (pk2id C (cr_public C ks)) nc ec rc (m2 @ x) =
       Ok (\<lparr>es_codec = ca, es_buf = x, es_remote_id = pk2id C (cr_public C ks)\<rparr>, m1) \<and>
     stream_incoming R C ks ns es rs (m1 @ y) =
       Ok (\<lparr>es_codec = cb, es_buf = y, es_remote_id = pk2id C (cr_public C kc)\<rparr>, m2) \<and>
     codec_linked ca cb"
  using assms by (rule handshake_connects)

text \<open>
  C7. Over linked codecs every sequence of messages below 16 MiB is delivered: what one side
  writes, the other reads back message by message, in order and complete, with any bytes that
  follow left in the buffer, and the codecs are linked again, in both directions.
\<close>

theorem messages_delivered:
  assumes "crypto_ok C" "codec_linked a b" "\<forall>d \<in> set ds. length d < 2 ^ 24"
  shows "\<exists>f a' b'. (\<forall>buf. send_all (codec_send R C rnd) ds buf a = Some (buf @ f, a')) \<and>
     (\<forall>rest. recv_all (codec_recv R C) (length ds) b (f @ rest) = Some (ds, b', rest)) \<and>
     codec_linked a' b' \<and> codec_linked b' a'"
  using ecies_link.all_messages [of C a b ds R rnd] assms codec_linked_sym by blast

text \<open>
  A codec that has done its handshake: the frame keys are there, and the size of a body is known
  while one is awaited.
\<close>

definition codec_ready :: "('sk, 'pk, 'c) codec \<Rightarrow> bool" where
  "codec_ready c \<longleftrightarrow> (cd_state c = Header \<or> cd_state c = Body \<and> ec_body_size (cd_ecies c) \<noteq> None) \<and>
     ec_ingress_aes (cd_ecies c) \<noteq> None \<and> ec_ingress_mac (cd_ecies c) \<noteq> None"

lemma codec_linked_ready: "codec_linked a b \<Longrightarrow> codec_ready a \<and> codec_ready b"
  by (auto simp: codec_linked_def codec_ready_def linked_def)

lemma read_header_total:
  assumes "length d = 32" "ec_ingress_mac e = Some m" "ec_ingress_aes e = Some aes"
    and "m' = mac_update_header C m (take 16 d)"
  shows "read_header C d e =
    (if drop 16 d = mac_digest C m'
     then (let (h, aes') = cr_decrypt C aes (take 16 d) in
           (Ok (be_val (take 3 h)), e\<lparr>ec_ingress_mac := Some m', ec_ingress_aes := Some aes',
                                      ec_body_size := Some (be_val (take 3 h))\<rparr>))
     else (Err TagCheckFailed, e\<lparr>ec_ingress_mac := Some m'\<rparr>))"
  using assms by (auto simp: read_header_def split_at_def Let_def split: prod.split)

lemma read_body_total:
  assumes "crypto_ok C" "ec_body_size e = Some n" "length d = pad16 n + 16"
    "ec_ingress_mac e = Some m" "ec_ingress_aes e = Some aes"
    and m'_def: "m' = mac_update_body C m (take (pad16 n) d)"
  shows "read_body C d e =
    (if drop (pad16 n) d = mac_digest C m'
     then (let (p, aes') = cr_decrypt C aes (take (pad16 n) d) in
           (Ok (take n p), e\<lparr>ec_ingress_mac := Some m', ec_body_size := None, ec_ingress_aes := Some aes'\<rparr>))
     else (Err TagCheckFailed, e\<lparr>ec_ingress_mac := Some m'\<rparr>))"
proof -
  have "length (fst (cr_decrypt C aes (take (pad16 n) d))) = pad16 n"
    using assms(3) by (simp add: crypto_lens [OF assms(1)])
  then show ?thesis using assms(2-5) pad16_ge [of n]
    by (auto simp: read_body_def split_back_def split_at_def Let_def m'_def split: prod.split)
qed

lemma decode_pass_ready:
  assumes "crypto_ok C" "codec_ready c" "decode_pass R C c buf = (x, c', buf')"
  shows "x \<noteq> Done Panic \<and> codec_ready c'"
proof (cases "cd_state c")
  case Header
  obtain m aes where k: "ec_ingress_mac (cd_ecies c) = Some m" "ec_ingress_aes (cd_ecies c) = Some aes"
    using assms(2) by (auto simp: codec_ready_def)
  show ?thesis
  proof (cases "length buf < 32")
    case True
    then show ?thesis using assms Header by (auto simp: decode_pass_def header_len_def)
  next
    case False
    then have "length (take 32 buf) = 32" by simp
    from read_header_total [OF this k refl] False show ?thesis using assms(3) Header
      by (auto simp: decode_pass_def header_len_def on_ecies_def codec_ready_def k Let_def
               split: if_splits prod.splits)
  qed
next
  case Body
  obtain m aes n where k: "ec_body_size (cd_ecies c) = Some n"
      "ec_ingress_mac (cd_ecies c) = Some m" "ec_ingress_aes (cd_ecies c) = Some aes"
    using assms(2) Body by (auto simp: codec_ready_def)
  then have bl: "body_len (cd_ecies c) = Ok (pad16 n + 16)" by (simp add: body_len_def)
  show ?thesis
  proof (cases "length buf < pad16 n + 16")
    case True
    then show ?thesis using assms Body bl by (auto simp: decode_pass_def)
  next
    case False
    then have "length (take (pad16 n + 16) buf) = pad16 n + 16" by simp
    from read_body_total [OF assms(1) k(1) this k(2,3) refl] False show ?thesis using assms(3) Body bl
      by (auto simp: decode_pass_def on_ecies_def codec_ready_def k Let_def
               split: if_splits prod.splits)
  qed
qed (use assms(2) in \<open>auto simp: codec_ready_def\<close>)

text \<open>
  C26. After the handshake no input makes \<open>decode\<close> panic: whatever bytes arrive, it returns a
  message, asks for more or reports an error, and the codec can go on decoding.
\<close>

theorem decode_no_panic:
  assumes "crypto_ok C" "codec_ready c"
  shows "fst (decode R C c buf) \<noteq> Panic \<and> codec_ready (fst (snd (decode R C c buf)))"
  using assms
proof (induction R C c buf rule: decode.induct)
  case (1 R C c buf)
  obtain x c1 p1 where pass: "decode_pass R C c buf = (x, c1, p1)" by (cases "decode_pass R C c buf")
  note ready = decode_pass_ready [OF "1.prems" pass]
  show ?case
  proof (cases x)
    case Again
    then show ?thesis using "1.IH" [OF pass [symmetric] Again refl "1.prems"(1)] ready
      by (simp add: decode.simps [of R C c] pass)
  next
    case (Done r)
    then show ?thesis using ready by (simp add: decode.simps [of R C c] pass)
  qed
qed

lemma decode_handshake_panic:
  assumes "of_be16 (be16 (length m) ! 0) (be16 (length m) ! 1) = length m"
    "fst (rd (be16 (length m) @ m) (cd_ecies c)) = Panic"
  shows "fst (decode_handshake rd res c (be16 (length m) @ m @ q)) = Panic"
  using assms
  by (cases "rd (be16 (length m) @ m) (cd_ecies c)")
     (auto simp: decode_handshake_def nth_append byte_simps on_ecies_def Let_def)

lemma decrypt_message_short:
  assumes "length m < 65 \<or> length m < 113 \<and> cr_parse C (take 65 m) \<noteq> None"
  shows "decrypt_message C e (be16 n @ m) = Panic"
proof (cases "length m < 65")
  case True
  then show ?thesis by (simp add: decrypt_message_def split_at_def byte_simps UNCOMPRESSED_SIZE_def)
next
  case False
  then obtain pk where "cr_parse C (take 65 m) = Some pk" "length m < 113" using assms by auto
  then show ?thesis using False
    by (auto simp: decrypt_message_def split_at_def split_back_def byte_simps UNCOMPRESSED_SIZE_def)
qed

text \<open>
  C9. A frame is accepted only when both its tags match. When \<open>decode\<close>, waiting for a header,
  returns a message, it has taken a header and a body off the buffer, and each ends with the
  digest of the MAC over everything received so far.
\<close>

theorem decode_authentic:
  assumes "crypto_ok C" "codec_ready c" "cd_state c = Header"
    and "decode R C c buf = (Ok (Some v), c', rest)"
  shows "\<exists>h b m. ec_ingress_mac (cd_ecies c) = Some m \<and> buf = h @ b @ rest \<and> length h = 32 \<and>
     16 \<le> length b \<and> drop 16 h = mac_digest C (mac_update_header C m (take 16 h)) \<and>
     drop (length b - 16) b =
       mac_digest C (mac_update_body C (mac_update_header C m (take 16 h)) (take (length b - 16) b))"
proof -
  obtain m aes where k: "ec_ingress_mac (cd_ecies c) = Some m" "ec_ingress_aes (cd_ecies c) = Some aes"
    using assms(2) by (auto simp: codec_ready_def)
  have long: "32 \<le> length buf"
    using assms(3,4) by (auto simp: decode.simps [of R C c] decode_pass_def header_len_def not_less split: if_splits)
  define h where "h = take 32 buf"
  define m1 where "m1 = mac_update_header C m (take 16 h)"
  obtain p aes1 where p: "cr_decrypt C aes (take 16 h) = (p, aes1)" by (cases "cr_decrypt C aes (take 16 h)")
  define n where "n = be_val (take 3 p)"
  have hl: "length h = 32" using long by (simp add: h_def)
  note rh = read_header_total [OF hl k m1_def, unfolded p]
  have tag: "drop 16 h = mac_digest C m1"
    using assms(3,4) long rh
    by (auto simp: decode.simps [of R C c] decode_pass_def header_len_def on_ecies_def h_def [symmetric]
        split: if_splits)
  define e1 where "e1 = (cd_ecies c)\<lparr>ec_ingress_mac := Some m1, ec_ingress_aes := Some aes1, ec_body_size := Some n\<rparr>"
  define c1 where "c1 = c\<lparr>cd_ecies := e1, cd_state := Body\<rparr>"
  have pass: "decode_pass R C c buf = (Again, c1, drop 32 buf)"
    using assms(3) long rh tag
    by (simp add: decode_pass_def header_len_def on_ecies_def h_def [symmetric] c1_def e1_def n_def)
  then have d1: "decode R C c1 (drop 32 buf) = (Ok (Some v), c', rest)"
    using assms(4) by (simp add: decode.simps [of R C c])
  define b where "b = take (pad16 n + 16) (drop 32 buf)"
  have c1: "cd_state c1 = Body" "cd_ecies c1 = e1" "body_len e1 = Ok (pad16 n + 16)"
    "ec_body_size e1 = Some n" "ec_ingress_mac e1 = Some m1" "ec_ingress_aes e1 = Some aes1"
    by (simp_all add: c1_def e1_def body_len_def)
  have long2: "pad16 n + 16 \<le> length (drop 32 buf)"
    using d1 c1 by (auto simp: decode.simps [of R C c1] decode_pass_def not_less split: if_splits)
  then have bl: "length b = pad16 n + 16" by (simp add: b_def)
  have rest: "drop (pad16 n) b = mac_digest C (mac_update_body C m1 (take (pad16 n) b)) \<and>
      rest = drop (pad16 n + 16) (drop 32 buf)"
    using d1 c1 long2 read_body_total [OF assms(1) c1(4) bl c1(5,6) refl]
    by (auto simp: decode.simps [of R C c1] decode_pass_def on_ecies_def b_def [symmetric]
        split: if_splits prod.splits)
  have "buf = h @ b @ rest" using rest unfolding h_def b_def by (metis append_take_drop_id)
  moreover have "drop (length b - 16) b = mac_digest C (mac_update_body C m1 (take (length b - 16) b))"
    using rest bl by simp
  moreover have "16 \<le> length b" using bl by simp
  ultimately show ?thesis using k(1) hl tag unfolding m1_def by blast
qed

text \<open>
  C33. A handshake message that is too short makes the receiver panic: one of fewer than 65 bytes,
  or of fewer than 113 that starts with a public key, whoever sent it and before anything is
  authenticated. The same holds of the answer a client waits for.
\<close>

theorem short_handshake_panics:
  assumes "cd_state c = Auth \<or> cd_state c = Ack"
    and "length m < 65 \<or> length m < 113 \<and> cr_parse C (take 65 m) \<noteq> None"
  shows "fst (decode R C c (be16 (length m) @ m @ q)) = Panic"
proof -
  have len: "of_be16 (be16 (length m) ! 0) (be16 (length m) ! 1) = length m"
    using assms(2) by (intro of_be16_be16) auto
  have "fst (read_auth R C (be16 (length m) @ m) e) = Panic" "fst (read_ack R C (be16 (length m) @ m) e) = Panic" for e
    using decrypt_message_short [OF assms(2)] by (simp_all add: read_auth_def read_ack_def)
  then have hs: "fst (decode_handshake (read_auth R C) res c (be16 (length m) @ m @ q)) = Panic"
      "fst (decode_handshake (read_ack R C) res c (be16 (length m) @ m @ q)) = Panic" for res
    by (simp_all add: decode_handshake_panic [OF len])
  have "fst (decode_pass R C c (be16 (length m) @ m @ q)) = Done Panic"
    using assms(1) by (auto simp: decode_pass_def apfst_def map_prod_def hs split: prod.split)
       (metis hs fst_conv)+
  then show ?thesis by (cases "decode_pass R C c (be16 (length m) @ m @ q)") (simp add: decode.simps [of R C c])
qed

section \<open>Witnesses\<close>

definition demo_rand :: "byte enc_rand" where
  "demo_rand = \<lparr>er_key = 3, er_iv = replicate 16 7, er_pad = 100\<rparr>"

definition demo_codec :: "(byte, byte, unit) codec" where
  "demo_codec = \<lparr>cd_ecies = \<lparr>ec_secret_key = 1, ec_public_key = 1, ec_remote_public_key = Some 2,
     ec_remote_id = None, ec_ephemeral_secret_key = 5, ec_ephemeral_public_key = 5,
     ec_ephemeral_shared_secret = None, ec_remote_ephemeral_public_key = None, ec_nonce = replicate 32 9,
     ec_remote_nonce = None, ec_ingress_aes = Some (), ec_egress_aes = Some (),
     ec_ingress_mac = Some (mac_new [1]), ec_egress_mac = Some (mac_new [1]), ec_init_msg = None,
     ec_remote_init_msg = None, ec_body_size = None\<rparr>, cd_state = Header\<rparr>"

lemma demo_codec_linked: "codec_linked demo_codec demo_codec"
  by (simp add: codec_linked_def linked_def demo_codec_def)

lemma demo_codec_ready: "codec_ready demo_codec"
  using demo_codec_linked codec_linked_ready by blast

theorem streams_handshake_witness:
  "\<exists>m1 m2 ca cb. \<forall>x y.
     stream_connect demo_rlp demo_crypto 1 (pk2id demo_crypto (cr_public demo_crypto 2)) (replicate 32 8) 5 demo_rand (m2 @ x) =
       Ok (\<lparr>es_codec = ca, es_buf = x, es_remote_id = pk2id demo_crypto (cr_public demo_crypto 2)\<rparr>, m1) \<and>
     stream_incoming demo_rlp demo_crypto 2 (replicate 32 9) 6 demo_rand (m1 @ y) =
       Ok (\<lparr>es_codec = cb, es_buf = y, es_remote_id = pk2id demo_crypto (cr_public demo_crypto 1)\<rparr>, m2) \<and>
     codec_linked ca cb"
  by (rule streams_handshake [OF demo_crypto_ok demo_rlp_ok]) (simp_all add: demo_rand_def)

theorem messages_delivered_witness:
  "\<exists>f a' b'. (\<forall>buf. send_all (codec_send demo_rlp demo_crypto demo_rand) [[1, 2, 3], []] buf demo_codec =
        Some (buf @ f, a')) \<and>
     (\<forall>rest. recv_all (codec_recv demo_rlp demo_crypto) (length [[1, 2, 3], [] :: bytes]) demo_codec (f @ rest) =
        Some ([[1, 2, 3], []], b', rest)) \<and>
     codec_linked a' b' \<and> codec_linked b' a'"
  by (rule messages_delivered [OF demo_crypto_ok demo_codec_linked]) simp

theorem decode_authentic_witness:
  "\<exists>buf v c' rest. decode demo_rlp demo_crypto demo_codec buf = (Ok (Some v), c', rest) \<and>
    (\<exists>h b m. ec_ingress_mac (cd_ecies demo_codec) = Some m \<and> buf = h @ b @ rest \<and> length h = 32 \<and>
     16 \<le> length b \<and> drop 16 h = mac_digest demo_crypto (mac_update_header demo_crypto m (take 16 h)) \<and>
     drop (length b - 16) b = mac_digest demo_crypto (mac_update_body demo_crypto
       (mac_update_header demo_crypto m (take 16 h)) (take (length b - 16) b)))"
proof -
  obtain f b' where "codec_recv demo_rlp demo_crypto demo_codec (f @ []) = Some ([1, 2], b', [])"
    using codec_one_message [OF demo_crypto_ok demo_codec_linked, of "[1, 2]" demo_rlp demo_rand] by auto
  then obtain v c' rest where d: "decode demo_rlp demo_crypto demo_codec f = (Ok (Some v), c', rest)"
    by (auto simp: codec_recv_def split: prod.splits outcome.splits option.splits)
  have "cd_state demo_codec = Header" by (simp add: demo_codec_def)
  from decode_authentic [OF demo_crypto_ok demo_codec_ready this d] d show ?thesis by blast
qed

theorem kdf_total_witness:
  "\<exists>key. kdf demo_crypto [1, 2] [] 64 = Ok key \<and> length key = 64"
  using kdf_total [OF demo_crypto_ok, of 64 "[1, 2]" "[]"] by simp

theorem decode_no_panic_witness:
  "fst (decode demo_rlp demo_crypto demo_codec (replicate 80 1)) \<noteq> Panic \<and>
   codec_ready (fst (snd (decode demo_rlp demo_crypto demo_codec (replicate 80 1))))"
  by (rule decode_no_panic [OF demo_crypto_ok demo_codec_ready])

theorem short_handshake_panics_witness:
  "fst (decode demo_rlp demo_crypto (demo_codec\<lparr>cd_state := Auth\<rparr>) [0, 0]) = Panic"
  using short_handshake_panics [of "demo_codec\<lparr>cd_state := Auth\<rparr>" "[]" demo_crypto demo_rlp "[]"]
  by (simp add: be16_def)

end
