(* ===== verification/Peer.thy ===== *)
theory Peer
  imports Ecies_Codec "HOL-Library.Multiset"
begin

text \<open>
  The peer stream, \<^verbatim>\<open>devp2p/src/peer.rs\<close> with the types of \<^verbatim>\<open>devp2p/src/types.rs\<close>: the hello
  exchange that agrees on the shared capabilities, and the numbering of the messages of several
  capabilities on one connection. A \<open>usize\<close> is a natural number: the values are message ids,
  capability lengths and versions, far below its bound, and those read from the wire are read as
  64-bit numbers.
\<close>

section \<open>Messages and their encoding\<close>

text \<open>\<open>str::from_utf8\<close>: well-formed UTF-8.\<close>

definition utf8_tail :: "byte \<Rightarrow> bool" where
  "utf8_tail b \<longleftrightarrow> 128 \<le> b \<and> b \<le> 191"

fun utf8_valid :: "bytes \<Rightarrow> bool" where
  "utf8_valid [] = True"
| "utf8_valid (a # bs) =
     (if a < 128 then utf8_valid bs
      else case bs of
        [] \<Rightarrow> False
      | b # cs \<Rightarrow>
          if 194 \<le> a \<and> a \<le> 223 then utf8_tail b \<and> utf8_valid cs
          else case cs of
            [] \<Rightarrow> False
          | c # ds \<Rightarrow>
              if 224 \<le> a \<and> a \<le> 239
              then (if a = 224 then 160 \<le> b \<and> b \<le> 191
                    else if a = 237 then 128 \<le> b \<and> b \<le> 159
                    else utf8_tail b) \<and> utf8_tail c \<and> utf8_valid ds
              else case ds of
                [] \<Rightarrow> False
              | d # es \<Rightarrow>
                  240 \<le> a \<and> a \<le> 244 \<and>
                  (if a = 240 then 144 \<le> b \<and> b \<le> 191
                   else if a = 244 then 128 \<le> b \<and> b \<le> 143
                   else utf8_tail b) \<and> utf8_tail c \<and> utf8_tail d \<and> utf8_valid es)"

datatype disconnect_reason =
    DisconnectRequested | TcpSubsystemError | ProtocolBreach | UselessPeer | TooManyPeers
  | AlreadyConnected | IncompatibleP2PProtocolVersion | NullNodeIdentity | ClientQuitting
  | UnexpectedHandshakeIdentity | ConnectedToSelf | PingTimeout | SubprotocolSpecific

fun reason_to_u8 :: "disconnect_reason \<Rightarrow> nat" where
  "reason_to_u8 DisconnectRequested = 0"
| "reason_to_u8 TcpSubsystemError = 1"
| "reason_to_u8 ProtocolBreach = 2"
| "reason_to_u8 UselessPeer = 3"
| "reason_to_u8 TooManyPeers = 4"
| "reason_to_u8 AlreadyConnected = 5"
| "reason_to_u8 IncompatibleP2PProtocolVersion = 6"
| "reason_to_u8 NullNodeIdentity = 7"
| "reason_to_u8 ClientQuitting = 8"
| "reason_to_u8 UnexpectedHandshakeIdentity = 9"
| "reason_to_u8 ConnectedToSelf = 10"
| "reason_to_u8 PingTimeout = 11"
| "reason_to_u8 SubprotocolSpecific = 16"

definition all_reasons :: "disconnect_reason list" where
  "all_reasons = [DisconnectRequested, TcpSubsystemError, ProtocolBreach, UselessPeer, TooManyPeers,
     AlreadyConnected, IncompatibleP2PProtocolVersion, NullNodeIdentity, ClientQuitting,
     UnexpectedHandshakeIdentity, ConnectedToSelf, PingTimeout, SubprotocolSpecific]"

text \<open>\<open>DisconnectReason::from_u8\<close>, derived: the reason with that number.\<close>

definition reason_from_u8 :: "nat \<Rightarrow> disconnect_reason option" where
  "reason_from_u8 n = find (\<lambda>r. reason_to_u8 r = n) all_reasons"

lemma reason_from_to_u8 [simp]: "reason_from_u8 (reason_to_u8 r) = Some r"
  by (cases r) (simp_all add: reason_from_u8_def all_reasons_def)

lemma reason_to_u8_le: "reason_to_u8 r \<le> 16"
  by (cases r) simp_all

datatype protocol_version = V4 | V5

fun version_to_usize :: "protocol_version \<Rightarrow> nat" where
  "version_to_usize V4 = 4"
| "version_to_usize V5 = 5"

text \<open>\<open>CapabilityName\<close> is an \<open>ArrayString\<close> of at most four bytes; its order is that of the bytes.\<close>

type_synonym cap_name = bytes

definition cap_name_ok :: "cap_name \<Rightarrow> bool" where
  "cap_name_ok n \<longleftrightarrow> utf8_valid n \<and> length n \<le> 4"

definition cap_name_rlp :: "cap_name \<Rightarrow> rlp" where
  "cap_name_rlp n = RData n"

definition cap_name_decode :: "rlp_api \<Rightarrow> bytes \<Rightarrow> cap_name option" where
  "cap_name_decode R d = Option.bind (rl_data R d) (\<lambda>n.
     if utf8_valid n then if length n \<le> 4 then Some n else None else None)"

record capability_id =
  id_name :: cap_name
  id_version :: nat

record capability_info =
  ci_name :: cap_name
  ci_version :: nat
  ci_length :: nat

definition capability_info_new :: "capability_id \<Rightarrow> nat \<Rightarrow> capability_info" where
  "capability_info_new i len = \<lparr>ci_name = id_name i, ci_version = id_version i, ci_length = len\<rparr>"

definition capability_id_of :: "capability_info \<Rightarrow> capability_id" where
  "capability_id_of c = \<lparr>id_name = ci_name c, id_version = ci_version c\<rparr>"

record capability_message =
  cm_name :: cap_name
  cm_version :: nat

definition capability_message_rlp :: "capability_message \<Rightarrow> rlp" where
  "capability_message_rlp c = RList [cap_name_rlp (cm_name c), RUint (cm_version c)]"

definition capability_message_decode :: "rlp_api \<Rightarrow> bytes \<Rightarrow> capability_message option" where
  "capability_message_decode R d =
     Option.bind (Option.bind (rl_at R d 0) (cap_name_decode R)) (\<lambda>name.
     Option.bind (Option.bind (rl_at R d 1) (rl_uint R 64)) (\<lambda>version.
     Some \<lparr>cm_name = name, cm_version = version\<rparr>))"

record hello_message =
  hm_protocol_version :: nat
  hm_client_version :: bytes
  hm_capabilities :: "capability_message list"
  hm_port :: nat
  hm_id :: bytes

definition hello_rlp :: "hello_message \<Rightarrow> rlp" where
  "hello_rlp h = RList [RUint (hm_protocol_version h), RData (hm_client_version h),
     RList (map capability_message_rlp (hm_capabilities h)), RUint (hm_port h), RData (hm_id h)]"

text \<open>\<open>as_val\<close> of a string.\<close>

definition rl_string :: "rlp_api \<Rightarrow> bytes \<Rightarrow> bytes option" where
  "rl_string R d = Option.bind (rl_data R d) (\<lambda>s. if utf8_valid s then Some s else None)"

definition hello_decode :: "rlp_api \<Rightarrow> bytes \<Rightarrow> hello_message option" where
  "hello_decode R d =
     Option.bind (Option.bind (rl_at R d 0) (rl_uint R 64)) (\<lambda>protocol_version.
     Option.bind (Option.bind (rl_at R d 1) (rl_string R)) (\<lambda>client_version.
     Option.bind (list_at R (capability_message_decode R) d 2) (\<lambda>capabilities.
     Option.bind (Option.bind (rl_at R d 3) (rl_uint R 16)) (\<lambda>port.
     Option.bind (Option.bind (rl_at R d 4) (rl_hash R 64)) (\<lambda>i.
     Some \<lparr>hm_protocol_version = protocol_version, hm_client_version = client_version,
           hm_capabilities = capabilities, hm_port = port, hm_id = i\<rparr>)))))"

definition capability_message_ok :: "capability_message \<Rightarrow> bool" where
  "capability_message_ok c \<longleftrightarrow> cap_name_ok (cm_name c) \<and> cm_version c < 2 ^ 64"

definition hello_ok :: "hello_message \<Rightarrow> bool" where
  "hello_ok h \<longleftrightarrow> hm_protocol_version h < 2 ^ 64 \<and> utf8_valid (hm_client_version h) \<and>
     (\<forall>c \<in> set (hm_capabilities h). capability_message_ok c) \<and> hm_port h < 2 ^ 16 \<and> length (hm_id h) = 64"

interpretation cap_codec: rlp_codec "rlp_ok R" "rl_out R" "rl_list R"
  capability_message_rlp "capability_message_decode R" capability_message_ok for R
  by unfold_locales
     (auto simp: rlp_okD rlp_okD_whole capability_message_rlp_def capability_message_decode_def
        capability_message_ok_def cap_name_rlp_def cap_name_decode_def cap_name_ok_def)

interpretation hello_codec: rlp_codec "rlp_ok R" "rl_out R" "rl_list R" hello_rlp "hello_decode R" hello_ok for R
proof
  fix h r assume R: "rlp_ok R" and h: "hello_ok h"
  have "those (map (capability_message_decode R) (map (rl_out R) (map capability_message_rlp (hm_capabilities h)))) =
      Some (hm_capabilities h)"
    using cap_codec.those_map_dec [OF R] h by (simp add: hello_ok_def)
  then have "list_at R (capability_message_decode R) (rl_out R (hello_rlp h) @ r) 2 = Some (hm_capabilities h)"
    by (simp add: list_at_def hello_rlp_def rlp_okD [OF R] rlp_okD_whole [OF R] o_def)
  then show "hello_decode R (rl_out R (hello_rlp h) @ r) = Some h"
    using h by (simp add: hello_decode_def hello_rlp_def hello_ok_def rl_string_def rlp_okD [OF R] rlp_okD_whole [OF R])
qed (simp add: rlp_okD)

section \<open>The peer stream\<close>

text \<open>
  The \<^verbatim>\<open>snap\<close> crate as a parameter: \<open>compress\<close> into a buffer of \<open>max_compress_len\<close> bytes,
  cut to the compressed length, \<open>decompress_len\<close> and \<open>decompress_vec\<close>. The code relies on the
  round trip and on the bound \<open>32 + n + n / 6\<close> of \<open>max_compress_len\<close>; inputs of 4 GiB and more
  are refused by the library.
\<close>

record snappy_api =
  sn_compress :: "bytes \<Rightarrow> bytes option"
  sn_decompress_len :: "bytes \<Rightarrow> nat option"
  sn_decompress :: "bytes \<Rightarrow> bytes option"

definition snappy_ok :: "snappy_api \<Rightarrow> bool" where
  "snappy_ok Z \<longleftrightarrow> (\<forall>d. length d < 2 ^ 32 \<longrightarrow>
     (\<exists>z. sn_compress Z d = Some z \<and> length z \<le> 32 + length d + length d div 6 \<and> sn_decompress_len Z z = Some (length d) \<and>
          sn_decompress Z z = Some d))"

definition MAX_PAYLOAD_SIZE :: nat where "MAX_PAYLOAD_SIZE = 16 * 1024 * 1024"

text \<open>The kinds of \<open>io::Error\<close> and \<open>anyhow::Error\<close> the code distinguishes.\<close>

datatype peer_error =
    PeerInvalidInput | PeerBrokenPipe | PeerOther | PeerSnappy | PeerEcies ecies_error
  | ExplicitDisconnect "disconnect_reason option" | NoSharedCapabilities

record message =
  msg_id :: nat
  msg_data :: bytes

datatype peer_message = PDisconnect disconnect_reason | PPing | PPong | PSubprotocol cap_name message

record 's peer_stream =
  ps_stream :: 's
  ps_client_version :: bytes
  ps_shared_capabilities :: "capability_info list"
  ps_port :: nat
  ps_id :: bytes
  ps_remote_id :: bytes
  ps_snappy :: bool
  ps_disconnected :: bool

text \<open>
  Agreeing on the capabilities: keep those of ours the other side has too, then for every one of
  them drop the older versions of its name, and sort by name.
\<close>

definition matching_caps :: "capability_info list \<Rightarrow> capability_message list \<Rightarrow> capability_info list" where
  "matching_caps ours theirs =
     filter (\<lambda>c. \<exists>v \<in> set theirs. cm_name v = ci_name c \<and> cm_version v = ci_version c) ours"

definition retain_newest :: "capability_info list \<Rightarrow> capability_info list" where
  "retain_newest caps =
     fold (\<lambda>c. filter (\<lambda>v. ci_name v \<noteq> ci_name c \<or> ci_version c \<le> ci_version v)) caps caps"

definition share_caps :: "capability_info list \<Rightarrow> capability_message list \<Rightarrow> capability_info list" where
  "share_caps ours theirs = sort_key ci_name (retain_newest (matching_caps ours theirs))"

definition capability_messages :: "capability_info list \<Rightarrow> capability_message list" where
  "capability_messages = map (\<lambda>c. \<lparr>cm_name = ci_name c, cm_version = ci_version c\<rparr>)"

definition outbound_hello :: "rlp_api \<Rightarrow> hello_message \<Rightarrow> bytes" where
  "outbound_hello R h = rl_out R (RUint 0) @ rl_out R (hello_rlp h)"

text \<open>\<open>&val[0..1]\<close> and \<open>&val[1..]\<close> panic when \<open>val\<close> is empty.\<close>

definition split_id :: "bytes \<Rightarrow> (peer_error, bytes \<times> bytes) outcome" where
  "split_id d = (if d = [] then Panic else Ok (take 1 d, drop 1 d))"

text \<open>
  \<open>Sink::start_send\<close>: the bytes handed to the transport, or none when the message is given up.
  A peer that asked for the disconnection sends nothing any more.
\<close>

definition cap_offset :: "capability_info list \<Rightarrow> capability_info \<Rightarrow> nat" where
  "cap_offset caps cap = 16 + sum_list (map ci_length (takeWhile (\<lambda>c. c \<noteq> cap) caps))"

definition peer_payload :: "rlp_api \<Rightarrow> peer_message \<Rightarrow> 's peer_stream \<Rightarrow> (nat \<times> bytes) option" where
  "peer_payload R m p =
     (case m of
        PDisconnect reason \<Rightarrow> Some (1, rl_out R (RUint (reason_to_u8 reason)))
      | PPing \<Rightarrow> Some (2, rl_out R (RList []))
      | PPong \<Rightarrow> Some (3, rl_out R (RList []))
      | PSubprotocol name msg \<Rightarrow>
          (case find (\<lambda>c. ci_name c = name) (ps_shared_capabilities p) of
             None \<Rightarrow> None
           | Some cap \<Rightarrow>
               if ci_length cap \<le> msg_id msg then None
               else Some (cap_offset (ps_shared_capabilities p) cap + msg_id msg, msg_data msg)))"

definition start_send :: "rlp_api \<Rightarrow> snappy_api \<Rightarrow> peer_message
    \<Rightarrow> ('s peer_stream, peer_error, bytes option) st" where
  "start_send R Z m =
     st_bind st_get (\<lambda>p.
     if ps_disconnected p then st_lift (Err PeerBrokenPipe)
     else st_bind (case m of PDisconnect _ \<Rightarrow> st_modify (\<lambda>p. p\<lparr>ps_disconnected := True\<rparr>) | _ \<Rightarrow> st_ret ()) (\<lambda>_.
     case peer_payload R m p of
       None \<Rightarrow> st_ret None
     | Some (message_id, payload) \<Rightarrow>
         if ps_snappy p
         then st_bind (st_lift (unwrap (sn_compress Z payload))) (\<lambda>z.
              st_ret (Some (rl_out R (RUint message_id) @ z)))
         else st_ret (Some (rl_out R (RUint message_id) @ payload))))"

definition own_hello :: "('sk, 'pk, 'c) crypto \<Rightarrow> 'sk \<Rightarrow> protocol_version \<Rightarrow> bytes
    \<Rightarrow> capability_info list \<Rightarrow> nat \<Rightarrow> hello_message" where
  "own_hello C secret_key version client_version capabilities port =
     \<lparr>hm_protocol_version = version_to_usize version, hm_client_version = client_version,
      hm_capabilities = capability_messages capabilities, hm_port = port,
      hm_id = pk2id C (cr_public C secret_key)\<rparr>"

text \<open>
  \<open>PeerStream::new\<close>, given what the transport's \<open>try_next\<close> yields (\<open>None\<close>: the stream has ended):
  the result, and the messages handed to the transport in order.
\<close>

definition handle_hello :: "rlp_api \<Rightarrow> bytes \<Rightarrow> (peer_error, hello_message) outcome" where
  "handle_hello R hello =
     bind_outcome (split_id hello) (\<lambda>(id_rlp, payload).
     bind_outcome (of_option PeerOther (rl_uint R 64 id_rlp)) (\<lambda>message_id.
     if message_id = 0 then of_option PeerOther (hello_decode R payload)
     else if message_id = 1
     then Err (ExplicitDisconnect (Option.bind (Option.bind (rl_at R payload 0) (rl_uint R 8)) reason_from_u8))
     else Err PeerOther))"

definition peer_new :: "rlp_api \<Rightarrow> ('sk, 'pk, 'c) crypto \<Rightarrow> snappy_api \<Rightarrow> 's \<Rightarrow> bytes \<Rightarrow> 'sk
    \<Rightarrow> protocol_version \<Rightarrow> bytes \<Rightarrow> capability_info list \<Rightarrow> nat
    \<Rightarrow> (ecies_error, bytes) outcome option
    \<Rightarrow> (peer_error, 's peer_stream) outcome \<times> bytes list" where
  "peer_new R C Z transport remote_id secret_key version client_version capabilities port item =
     (let i = pk2id C (cr_public C secret_key);
          hello = outbound_hello R (own_hello C secret_key version client_version capabilities port)
      in case item of
        None \<Rightarrow> (Err PeerOther, [hello])
      | Some (Err e) \<Rightarrow> (Err (PeerEcies e), [hello])
      | Some Panic \<Rightarrow> (Panic, [hello])
      | Some (Ok d) \<Rightarrow>
          (case handle_hello R d of
             Err e \<Rightarrow> (Err e, [hello])
           | Panic \<Rightarrow> (Panic, [hello])
           | Ok val \<Rightarrow>
               let shared = share_caps capabilities (hm_capabilities val);
                   this = \<lparr>ps_stream = transport, ps_client_version = client_version,
                           ps_shared_capabilities = shared, ps_port = port, ps_id = i,
                           ps_remote_id = remote_id, ps_snappy = (version = V5), ps_disconnected = False\<rparr>
               in if shared = []
                  then (case start_send R Z (PDisconnect UselessPeer) this of
                          (Ok (Some d), _) \<Rightarrow> (Err NoSharedCapabilities, [hello, d])
                        | (Panic, _) \<Rightarrow> (Panic, [hello])
                        | _ \<Rightarrow> (Err NoSharedCapabilities, [hello]))
                  else (Ok this, [hello])))"

text \<open>
  \<open>Stream::poll_next\<close> on an item of the transport. The search for the capability goes through the
  whole list, and takes the length of a capability off whenever the rest is greater than it.
\<close>

fun find_cap :: "capability_info list \<Rightarrow> nat \<Rightarrow> nat \<Rightarrow> nat \<times> nat" where
  "find_cap [] message_id index = (message_id, index)"
| "find_cap (cap # caps) message_id index =
     (if ci_length cap < message_id then find_cap caps (message_id - ci_length cap) (index + 1)
      else find_cap caps message_id index)"

definition decompress :: "snappy_api \<Rightarrow> bool \<Rightarrow> bytes \<Rightarrow> (peer_error, bytes) outcome" where
  "decompress Z snappy input =
     (if snappy
      then bind_outcome (of_option PeerSnappy (sn_decompress_len Z input)) (\<lambda>payload_len.
           if MAX_PAYLOAD_SIZE < payload_len then Err PeerInvalidInput
           else of_option PeerSnappy (sn_decompress Z input))
      else Ok input)"

definition poll_value :: "rlp_api \<Rightarrow> snappy_api \<Rightarrow> bytes \<Rightarrow> ('s peer_stream, peer_error, peer_message) st" where
  "poll_value R Z val =
     st_bind st_get (\<lambda>s.
     st_bind (st_lift (split_id val)) (\<lambda>(id_rlp, input).
     st_bind (st_lift (of_option PeerOther (rl_uint R 64 id_rlp))) (\<lambda>message_id.
     st_bind (st_lift (decompress Z (ps_snappy s) input)) (\<lambda>data.
     if message_id < 16
     then if message_id = 1
          then st_bind (st_modify (\<lambda>s. s\<lparr>ps_disconnected := True\<rparr>)) (\<lambda>_.
               case Option.bind (Option.bind (rl_at R data 0) (rl_uint R 8)) reason_from_u8 of
                 Some reason \<Rightarrow> st_ret (PDisconnect reason)
               | None \<Rightarrow> st_lift (Err PeerOther))
          else if message_id = 2 then st_ret PPing
          else if message_id = 3 then st_ret PPong
          else st_lift (Err PeerOther)
     else let (message_id, index) = find_cap (ps_shared_capabilities s) (message_id - 16) 0
          in if length (ps_shared_capabilities s) \<le> index then st_lift (Err PeerOther)
             else st_ret (PSubprotocol (ci_name (ps_shared_capabilities s ! index))
                            \<lparr>msg_id = message_id, msg_data = data\<rparr>)))))"

definition poll_next :: "rlp_api \<Rightarrow> snappy_api \<Rightarrow> (ecies_error, bytes) outcome option
    \<Rightarrow> 's peer_stream \<Rightarrow> (peer_error, peer_message) outcome option \<times> 's peer_stream" where
  "poll_next R Z item s =
     (if ps_disconnected s then (None, s)
      else case item of
        Some (Ok val) \<Rightarrow> apfst Some (poll_value R Z val s)
      | Some (Err e) \<Rightarrow> (Some (Err (PeerEcies e)), s)
      | Some Panic \<Rightarrow> (Some Panic, s)
      | None \<Rightarrow> (None, s))"

section \<open>The shared capabilities\<close>

lemma fold_filter: "fold (\<lambda>c. filter (P c)) cs xs = filter (\<lambda>v. \<forall>c \<in> set cs. P c v) xs"
  by (induction cs arbitrary: xs) (auto intro: filter_cong)

lemma retain_newest_filter:
  "retain_newest caps = filter (\<lambda>v. \<forall>c \<in> set caps. ci_name v = ci_name c \<longrightarrow> ci_version c \<le> ci_version v) caps"
  unfolding retain_newest_def by (subst fold_filter) (auto intro: filter_cong)

definition shared_with :: "capability_message list \<Rightarrow> capability_info \<Rightarrow> bool" where
  "shared_with theirs c \<longleftrightarrow> (\<exists>v \<in> set theirs. cm_name v = ci_name c \<and> cm_version v = ci_version c)"

lemma set_share_caps:
  "set (share_caps ours theirs) =
     {c \<in> set ours. shared_with theirs c \<and>
        (\<forall>d \<in> set ours. shared_with theirs d \<longrightarrow> ci_name d = ci_name c \<longrightarrow> ci_version d \<le> ci_version c)}"
  by (auto simp: share_caps_def retain_newest_filter matching_caps_def shared_with_def)

lemma sorted_share_caps: "sorted (map ci_name (share_caps ours theirs))"
  by (simp add: share_caps_def)

lemma newest_unique:
  assumes "distinct (map capability_id_of ours)"
  shows "distinct (map ci_name (share_caps ours theirs))"
proof -
  have inj: "inj_on capability_id_of (set ours)" and d: "distinct ours"
    using assms by (simp_all add: distinct_map)
  have "c = d" if "c \<in> set (share_caps ours theirs)" "d \<in> set (share_caps ours theirs)" "ci_name c = ci_name d" for c d
    using that inj_onD [OF inj, of c d] unfolding set_share_caps
    by (auto simp: capability_id_of_def intro: antisym)
  moreover have "distinct (share_caps ours theirs)"
    using d by (simp add: share_caps_def retain_newest_filter matching_caps_def)
  ultimately show ?thesis by (auto simp: distinct_map inj_on_def)
qed

text \<open>
  The shared capabilities are those we offer and the other side has too, each name in the
  newest version both have, sorted by name; when we offer no version twice, every name is there
  at most once.
\<close>

theorem share_caps_newest:
  "set (share_caps ours theirs) =
     {c \<in> set ours. shared_with theirs c \<and>
        (\<forall>d \<in> set ours. shared_with theirs d \<longrightarrow> ci_name d = ci_name c \<longrightarrow> ci_version d \<le> ci_version c)} \<and>
   sorted (map ci_name (share_caps ours theirs)) \<and>
   (distinct (map capability_id_of ours) \<longrightarrow> distinct (map ci_name (share_caps ours theirs)))"
  using set_share_caps sorted_share_caps newest_unique by blast

lemma shared_with_ids:
  "shared_with (capability_messages bs) c \<longleftrightarrow> capability_id_of c \<in> capability_id_of ` set bs"
  by (auto simp: shared_with_def capability_messages_def capability_id_of_def image_iff) metis+

lemma share_caps_ids:
  "capability_id_of ` set (share_caps as (capability_messages bs)) =
     {i \<in> capability_id_of ` set as \<inter> capability_id_of ` set bs.
        \<forall>j \<in> capability_id_of ` set as \<inter> capability_id_of ` set bs. id_name j = id_name i \<longrightarrow> id_version j \<le> id_version i}"
  (is "?l = ?r")
proof -
  have n: "id_name (capability_id_of c) = ci_name c" "id_version (capability_id_of c) = ci_version c" for c
    by (simp_all add: capability_id_of_def)
  show ?thesis unfolding set_share_caps shared_with_ids n [symmetric] by blast
qed

lemma same_shared_ids:
  assumes "distinct (map capability_id_of as)" "distinct (map capability_id_of bs)"
  shows "map capability_id_of (share_caps as (capability_messages bs)) =
         map capability_id_of (share_caps bs (capability_messages as))"
proof -
  let ?x = "map capability_id_of (share_caps as (capability_messages bs))"
  let ?y = "map capability_id_of (share_caps bs (capability_messages as))"
  have names: "map id_name (map capability_id_of cs) = map ci_name cs" for cs
    by (simp add: capability_id_of_def)
  have eq: "set ?x = set ?y" by (simp add: share_caps_ids Int_commute)
  have d: "distinct (map id_name ?x)" "distinct (map id_name ?y)"
      "sorted (map id_name ?x)" "sorted (map id_name ?y)"
    unfolding names using newest_unique assms sorted_share_caps by blast+
  have "inj_on id_name (set ?x \<union> set ?y)" using d(1) eq by (metis Un_absorb distinct_map)
  then show ?thesis using d eq by (intro map_sorted_distinct_set_unique)
qed

lemma share_caps_empty:
  "share_caps as (capability_messages bs) = [] \<longleftrightarrow> capability_id_of ` set as \<inter> capability_id_of ` set bs = {}"
  (is "_ \<longleftrightarrow> ?I = {}")
proof
  assume "share_caps as (capability_messages bs) = []"
  then have "{i \<in> ?I. \<forall>j \<in> ?I. id_name j = id_name i \<longrightarrow> id_version j \<le> id_version i} = {}"
    using share_caps_ids [of as bs] by (simp only: list.set image_empty)
  then have none: "\<not> (i \<in> ?I \<and> (\<forall>j \<in> ?I. id_name j = id_name i \<longrightarrow> id_version j \<le> id_version i))" for i
    by blast
  show "?I = {}"
  proof (rule ccontr)
    assume "?I \<noteq> {}"
    then obtain i where i: "i \<in> ?I" by blast
    let ?T = "{j \<in> ?I. id_name j = id_name i}"
    have "finite (id_version ` ?T)" by simp
    moreover have "id_version ` ?T \<noteq> {}" using i by blast
    ultimately have "Max (id_version ` ?T) \<in> id_version ` ?T" by (rule Max_in)
    then obtain m where m: "m \<in> ?T" "id_version m = Max (id_version ` ?T)" by (elim imageE) simp
    have "id_version j \<le> id_version m" if "j \<in> ?T" for j using that m(2) by simp
    then show False using none [of m] m(1) by auto
  qed
next
  assume "?I = {}"
  then have "capability_id_of ` set (share_caps as (capability_messages bs)) = {}"
    unfolding share_caps_ids by blast
  then show "share_caps as (capability_messages bs) = []" by simp
qed

section \<open>The hello exchange\<close>

lemma split_id_uint:
  assumes "rlp_ok R" "n < 128"
  shows "split_id (rl_out R (RUint n) @ p) = Ok (rl_out R (RUint n), p)"
  using rlp_okD(8) [OF assms] by (cases "rl_out R (RUint n)") (auto simp: split_id_def)

lemma own_hello_ok:
  assumes "crypto_ok C" "utf8_valid cv" "port < 2 ^ 16"
    "\<forall>c \<in> set caps. cap_name_ok (ci_name c) \<and> ci_version c < 2 ^ 64"
  shows "hello_ok (own_hello C sk v cv caps port)"
  using assms by (cases v) (auto simp: hello_ok_def own_hello_def capability_messages_def
      capability_message_ok_def length_pk2id)

lemma handle_outbound_hello:
  assumes "rlp_ok R" "hello_ok h"
  shows "handle_hello R (outbound_hello R h) = Ok h"
  using assms hello_codec.dec_enc_whole [OF assms(1,2)]
  by (simp add: handle_hello_def outbound_hello_def split_id_uint rlp_okD_whole)

lemma reason_payload_short: "rlp_ok R \<Longrightarrow> length (rl_out R (RUint (reason_to_u8 r))) = 1"
  using reason_to_u8_le [of r] by (simp add: rlp_okD)

lemma peer_new_hello:
  assumes "rlp_ok R" "snappy_ok Z" "hello_ok h"
  shows "fst (peer_new R C Z tp rid sk v cv caps port (Some (Ok (outbound_hello R h)))) =
     (let shared = share_caps caps (hm_capabilities h)
      in if shared = [] then Err NoSharedCapabilities
         else Ok \<lparr>ps_stream = tp, ps_client_version = cv, ps_shared_capabilities = shared, ps_port = port,
                  ps_id = pk2id C (cr_public C sk), ps_remote_id = rid, ps_snappy = (v = V5),
                  ps_disconnected = False\<rparr>)"
proof -
  have "\<exists>z. sn_compress Z (rl_out R (RUint 3)) = Some z"
    using assms(2) [unfolded snappy_ok_def, rule_format, of "rl_out R (RUint 3)"]
      reason_payload_short [OF assms(1), of UselessPeer] by auto
  then show ?thesis using handle_outbound_hello [OF assms(1,3)]
    by (auto simp: peer_new_def Let_def start_send_def peer_payload_def)
qed

text \<open>
  C24. Two peers that read each other's hello come to the same result. They connect exactly when they
  have a capability in common, and then both list the same names and versions in the same order;
  otherwise both fail for that reason.
\<close>

theorem peers_agree:
  assumes "rlp_ok R" "crypto_ok C" "snappy_ok Z"
    and "utf8_valid cva" "porta < 2 ^ 16" "distinct (map capability_id_of as)"
      "\<forall>c \<in> set as. cap_name_ok (ci_name c) \<and> ci_version c < 2 ^ 64"
    and "utf8_valid cvb" "portb < 2 ^ 16" "distinct (map capability_id_of bs)"
      "\<forall>c \<in> set bs. cap_name_ok (ci_name c) \<and> ci_version c < 2 ^ 64"
    and "ha = outbound_hello R (own_hello C ka va cva as porta)"
    and "hb = outbound_hello R (own_hello C kb vb cvb bs portb)"
    and "a = fst (peer_new R C Z ta ida ka va cva as porta (Some (Ok hb)))"
    and "b = fst (peer_new R C Z tb idb kb vb cvb bs portb (Some (Ok ha)))"
  shows "if capability_id_of ` set as \<inter> capability_id_of ` set bs = {}
         then a = Err NoSharedCapabilities \<and> b = Err NoSharedCapabilities
         else \<exists>pa pb. a = Ok pa \<and> b = Ok pb \<and>
           map capability_id_of (ps_shared_capabilities pa) = map capability_id_of (ps_shared_capabilities pb)"
proof -
  have caps: "hm_capabilities (own_hello C k v cv cs p) = capability_messages cs" for k v cv cs p
    by (simp add: own_hello_def)
  have oka: "hello_ok (own_hello C ka va cva as porta)" by (rule own_hello_ok [OF assms(2,4,5,7)])
  have okb: "hello_ok (own_hello C kb vb cvb bs portb)" by (rule own_hello_ok [OF assms(2,8,9,11)])
  note a = peer_new_hello [OF assms(1,3) okb, of C ta ida ka va cva as porta, folded assms(13), unfolded caps, folded assms(14)]
  note b = peer_new_hello [OF assms(1,3) oka, of C tb idb kb vb cvb bs portb, folded assms(12), unfolded caps, folded assms(15)]
  note same = same_shared_ids [OF assms(6,10)]
  have empty: "share_caps as (capability_messages bs) = [] \<longleftrightarrow>
      capability_id_of ` set as \<inter> capability_id_of ` set bs = {}"
    by (rule share_caps_empty)
  have "share_caps as (capability_messages bs) = [] \<longleftrightarrow> share_caps bs (capability_messages as) = []"
    using arg_cong [OF same, of length] by auto
  note empty2 = this
  show ?thesis
  proof (cases "share_caps as (capability_messages bs) = []")
    case True
    then have "a = Err NoSharedCapabilities" "b = Err NoSharedCapabilities"
      using a b empty2 assms(14,15) by simp_all
    then show ?thesis using True empty by simp
  next
    case False
    then have no: "\<not> capability_id_of ` set as \<inter> capability_id_of ` set bs = {}"
      unfolding empty [symmetric] .
    obtain pa pb where "a = Ok pa" "ps_shared_capabilities pa = share_caps as (capability_messages bs)"
        "b = Ok pb" "ps_shared_capabilities pb = share_caps bs (capability_messages as)"
      using a b False empty2 assms(14,15) by (simp add: Let_def)
    with same no show ?thesis unfolding if_not_P [OF no] by metis
  qed
qed

section \<open>Messages on the connection\<close>

text \<open>The messages the single capability of a connection carries unharmed, up to 8 MiB each.\<close>

definition sendable :: "capability_info \<Rightarrow> peer_message \<Rightarrow> bool" where
  "sendable cap m \<longleftrightarrow>
     (case m of
        PDisconnect _ \<Rightarrow> False
      | PPing \<Rightarrow> True
      | PPong \<Rightarrow> True
      | PSubprotocol name msg \<Rightarrow> name = ci_name cap \<and> msg_id msg < ci_length cap \<and> length (msg_data msg) \<le> 2 ^ 23)"

lemma decompress_compress:
  assumes "snappy_ok Z" "length d \<le> MAX_PAYLOAD_SIZE"
  obtains z where "sn_compress Z d = Some z" "length z \<le> 32 + length d + length d div 6"
    "decompress Z True z = Ok d"
proof -
  have "length d < 2 ^ 32" using assms(2) by (simp add: MAX_PAYLOAD_SIZE_def)
  from assms(1) [unfolded snappy_ok_def, rule_format, OF this] assms(2) that show ?thesis
    by (auto simp: decompress_def)
qed

text \<open>What goes over the wire for a message with a number below 128, and what the other end makes of it.\<close>

lemma start_send_payload:
  assumes R: "rlp_ok R" and Z: "snappy_ok Z"
    and p: "\<not> ps_disconnected p" "peer_payload R m p = Some (n, payload)" "n < 128" "length payload \<le> 2 ^ 23"
  obtains z where
    "start_send R Z m p =
       (Ok (Some (rl_out R (RUint n) @ z)), if (\<exists>r. m = PDisconnect r) then p\<lparr>ps_disconnected := True\<rparr> else p)"
    "length (rl_out R (RUint n) @ z) < 2 ^ 24" "decompress Z (ps_snappy p) z = Ok payload"
proof (cases "ps_snappy p")
  case True
  have "length payload \<le> MAX_PAYLOAD_SIZE" using p(4) by (simp add: MAX_PAYLOAD_SIZE_def)
  from decompress_compress [OF Z this] obtain z where z: "sn_compress Z payload = Some z"
    "length z \<le> 32 + length payload + length payload div 6" "decompress Z True z = Ok payload" .
  have "length payload div 6 \<le> 2 ^ 23 div 6" using p(4) by (intro div_le_mono)
  then have "length (rl_out R (RUint n) @ z) < 2 ^ 24"
    using z(2) p(4) rlp_okD(8) [OF R p(3)] by simp
  then show ?thesis using that [of z] z p True by (cases m) (auto simp: start_send_def peer_payload_def)
next
  case False
  have "length (rl_out R (RUint n) @ payload) < 2 ^ 24"
    using p(4) rlp_okD(8) [OF R p(3)] by simp
  then show ?thesis using that [of payload] p False
    by (cases m) (auto simp: start_send_def decompress_def peer_payload_def)
qed

lemma poll_next_number:
  assumes "rlp_ok R" "n < 128" "\<not> ps_disconnected p" "decompress Z (ps_snappy p) z = Ok data"
  shows "poll_next R Z (Some (Ok (rl_out R (RUint n) @ z))) p =
    apfst Some (
     if n < 16
     then if n = 1
          then ((case Option.bind (Option.bind (rl_at R data 0) (rl_uint R 8)) reason_from_u8 of
                 Some reason \<Rightarrow> Ok (PDisconnect reason)
               | None \<Rightarrow> Err PeerOther), p\<lparr>ps_disconnected := True\<rparr>)
          else if n = 2 then (Ok PPing, p)
          else if n = 3 then (Ok PPong, p)
          else (Err PeerOther, p)
     else let (message_id, index) = find_cap (ps_shared_capabilities p) (n - 16) 0
          in if length (ps_shared_capabilities p) \<le> index then (Err PeerOther, p)
             else (Ok (PSubprotocol (ci_name (ps_shared_capabilities p ! index))
                            \<lparr>msg_id = message_id, msg_data = data\<rparr>), p))"
proof -
  have "rl_uint R 64 (rl_out R (RUint n)) = Some n" using rlp_okD_whole(4) [OF assms(1), of n 64] assms(2) by simp
  then show ?thesis using assms(3,4) split_id_uint [OF assms(1,2)]
    by (auto simp: poll_next_def poll_value_def Let_def split: option.split prod.split)
qed

text \<open>The two ends of a connection with one capability.\<close>

definition single_cap :: "capability_info \<Rightarrow> 's peer_stream \<Rightarrow> bool" where
  "single_cap cap p \<longleftrightarrow> ps_shared_capabilities p = [cap] \<and> \<not> ps_disconnected p \<and> ci_length cap \<le> 112"

lemma sendable_payload:
  assumes "rlp_ok R" "sendable cap m" "single_cap cap p"
  obtains n payload where "peer_payload R m p = Some (n, payload)" "n < 128" "length payload \<le> 2 ^ 23"
    "(m = PPing \<and> n = 2) \<or> (m = PPong \<and> n = 3) \<or>
     (\<exists>msg. m = PSubprotocol (ci_name cap) msg \<and> n = 16 + msg_id msg \<and> msg_id msg < ci_length cap \<and> payload = msg_data msg)"
proof -
  have "length (rl_out R (RList [])) \<le> 9" using rlp_okD(10) [OF assms(1), of "[]"] by simp
  then show ?thesis using that assms(2,3)
    by (cases m) (auto simp: peer_payload_def sendable_def single_cap_def cap_offset_def)
qed

lemma single_capability_message:
  assumes R: "rlp_ok R" and Z: "snappy_ok Z"
    and ends: "single_cap cap a" "single_cap cap b" "ps_snappy a = ps_snappy b" and m: "sendable cap m"
  obtains d where "start_send R Z m a = (Ok (Some d), a)" "length d < 2 ^ 24"
    "poll_next R Z (Some (Ok d)) b = (Some (Ok m), b)"
proof -
  obtain n payload where n: "peer_payload R m a = Some (n, payload)" "n < 128" "length payload \<le> 2 ^ 23"
    "(m = PPing \<and> n = 2) \<or> (m = PPong \<and> n = 3) \<or>
     (\<exists>msg. m = PSubprotocol (ci_name cap) msg \<and> n = 16 + msg_id msg \<and> msg_id msg < ci_length cap \<and> payload = msg_data msg)"
    using sendable_payload [OF R m ends(1)] .
  have a: "\<not> ps_disconnected a" and b: "\<not> ps_disconnected b" and caps: "ps_shared_capabilities b = [cap]"
    using ends by (simp_all add: single_cap_def)
  obtain z where z: "start_send R Z m a =
       (Ok (Some (rl_out R (RUint n) @ z)), if (\<exists>r. m = PDisconnect r) then a\<lparr>ps_disconnected := True\<rparr> else a)"
    "length (rl_out R (RUint n) @ z) < 2 ^ 24" "decompress Z (ps_snappy b) z = Ok payload"
    using start_send_payload [OF R Z a n(1-3), unfolded ends(3)] .
  have "poll_next R Z (Some (Ok (rl_out R (RUint n) @ z))) b = (Some (Ok m), b)"
    unfolding poll_next_number [OF R n(2) b z(3)] using n(4) by (elim disjE exE conjE) (simp_all add: caps)
  moreover have "\<not> (\<exists>r. m = PDisconnect r)" using m by (auto simp: sendable_def)
  ultimately show ?thesis using that z(1,2) by simp
qed

text \<open>
  On a connection with one shared capability every ping, pong and capability message comes out
  at the other end as it was sent, with compression or without.
\<close>

theorem single_capability_roundtrip:
  assumes "rlp_ok R" "snappy_ok Z" "single_cap cap a" "single_cap cap b" "ps_snappy a = ps_snappy b"
    and "sendable cap m"
  shows "\<exists>d. start_send R Z m a = (Ok (Some d), a) \<and> poll_next R Z (Some (Ok d)) b = (Some (Ok m), b)"
  using single_capability_message [OF assms] by metis

text \<open>
  C1. The search for the capability of a message is off by one. With one shared capability of length
  \<open>l\<close> the id \<open>l\<close>, which no message has, is accepted; only larger ones are refused.
\<close>

theorem single_capability_range:
  assumes "rlp_ok R" "ps_shared_capabilities p = [cap]" "\<not> ps_disconnected p" "\<not> ps_snappy p" "n < 112"
  shows "poll_next R Z (Some (Ok (rl_out R (RUint (16 + n)) @ data))) p =
    (Some (if n \<le> ci_length cap then Ok (PSubprotocol (ci_name cap) \<lparr>msg_id = n, msg_data = data\<rparr>)
           else Err PeerOther), p)"
  using assms by (subst poll_next_number [where data = data]) (auto simp: decompress_def)

text \<open>
  C34. With two shared capabilities, the first not longer than the second, the first message of the
  second is delivered to the first, under the id just behind its last one.
\<close>

theorem second_capability_misrouted:
  assumes "rlp_ok R" "snappy_ok Z" "ps_shared_capabilities a = [c1, c2]" "ps_shared_capabilities b = [c1, c2]"
    and "ps_snappy a = ps_snappy b" "\<not> ps_disconnected a" "\<not> ps_disconnected b"
    and "ci_name c1 \<noteq> ci_name c2" "ci_length c1 \<le> ci_length c2" "0 < ci_length c2" "ci_length c1 < 112"
    and "length data \<le> 2 ^ 23"
  shows "\<exists>d. start_send R Z (PSubprotocol (ci_name c2) \<lparr>msg_id = 0, msg_data = data\<rparr>) a = (Ok (Some d), a) \<and>
     poll_next R Z (Some (Ok d)) b =
       (Some (Ok (PSubprotocol (ci_name c1) \<lparr>msg_id = ci_length c1, msg_data = data\<rparr>)), b)"
proof -
  let ?m = "PSubprotocol (ci_name c2) \<lparr>msg_id = 0, msg_data = data\<rparr>"
  have payload: "peer_payload R ?m a = Some (16 + ci_length c1, data)"
    using assms(3,8,10) by (auto simp: peer_payload_def cap_offset_def)
  have n: "16 + ci_length c1 < 128" using assms(11) by simp
  obtain z where z: "start_send R Z ?m a = (Ok (Some (rl_out R (RUint (16 + ci_length c1)) @ z)), a)"
      "decompress Z (ps_snappy b) z = Ok data"
    using start_send_payload [OF assms(1,2,6) payload n assms(12)] assms(5) by auto
  have "poll_next R Z (Some (Ok (rl_out R (RUint (16 + ci_length c1)) @ z))) b =
       (Some (Ok (PSubprotocol (ci_name c1) \<lparr>msg_id = ci_length c1, msg_data = data\<rparr>)), b)"
    unfolding poll_next_number [OF assms(1) n assms(7) z(2)] using assms(4,9) by simp
  with z(1) show ?thesis by blast
qed

text \<open>
  The disconnect message one end writes is not understood by the other: it encodes the reason as
  a number, the reader expects a list, so the reason is lost and the stream reports an error.
\<close>

theorem disconnect_not_understood:
  assumes "rlp_ok R" "snappy_ok Z" "ps_snappy a = ps_snappy b" "\<not> ps_disconnected a" "\<not> ps_disconnected b"
  shows "\<exists>d. start_send R Z (PDisconnect reason) a = (Ok (Some d), a\<lparr>ps_disconnected := True\<rparr>) \<and>
     poll_next R Z (Some (Ok d)) b = (Some (Err PeerOther), b\<lparr>ps_disconnected := True\<rparr>)"
proof -
  have short: "length (rl_out R (RUint (reason_to_u8 reason))) \<le> 2 ^ 23"
    by (simp add: reason_payload_short [OF assms(1)])
  have payload: "peer_payload R (PDisconnect reason) a = Some (1, rl_out R (RUint (reason_to_u8 reason)))"
    by (simp add: peer_payload_def)
  obtain z where z: "start_send R Z (PDisconnect reason) a =
      (Ok (Some (rl_out R (RUint 1) @ z)), a\<lparr>ps_disconnected := True\<rparr>)"
      "decompress Z (ps_snappy b) z = Ok (rl_out R (RUint (reason_to_u8 reason)))"
    using start_send_payload [OF assms(1,2,4) payload _ short] assms(3) by auto
  have "poll_next R Z (Some (Ok (rl_out R (RUint 1) @ z))) b = (Some (Err PeerOther), b\<lparr>ps_disconnected := True\<rparr>)"
    by (subst poll_next_number [OF assms(1) _ assms(5) z(2)]) (simp_all add: rlp_okD_whole [OF assms(1)])
  with z(1) show ?thesis by blast
qed

text \<open>
  A run of a peer stream: the operations its owner calls, in their order, with their results. After
  a panic the task is gone, so the run is over.
\<close>

datatype peer_op = OpSend peer_message | OpPoll "(ecies_error, bytes) outcome option"

datatype peer_result =
    RSent "(peer_error, bytes option) outcome"
  | RPolled "(peer_error, peer_message) outcome option"

fun peer_op_run :: "rlp_api \<Rightarrow> snappy_api \<Rightarrow> peer_op \<Rightarrow> 's peer_stream \<Rightarrow> peer_result \<times> 's peer_stream" where
  "peer_op_run R Z (OpSend m) p = apfst RSent (start_send R Z m p)"
| "peer_op_run R Z (OpPoll item) p = apfst RPolled (poll_next R Z item p)"

fun peer_run :: "rlp_api \<Rightarrow> snappy_api \<Rightarrow> peer_op list \<Rightarrow> 's peer_stream \<Rightarrow> peer_result list \<times> 's peer_stream" where
  "peer_run R Z [] p = ([], p)"
| "peer_run R Z (x # xs) p =
     (let (r, p) = peer_op_run R Z x p; (rs, p) = peer_run R Z xs p in (r # rs, p))"

fun silent_result :: "peer_op \<Rightarrow> peer_result" where
  "silent_result (OpSend m) = RSent (Err PeerBrokenPipe)"
| "silent_result (OpPoll item) = RPolled None"

lemma disconnected_silent: "ps_disconnected p \<Longrightarrow> peer_run R Z xs p = (map silent_result xs, p)"
proof (induction xs)
  case Nil
  then show ?case by simp
next
  case (Cons x xs)
  then show ?case by (cases x) (simp_all add: start_send_def poll_next_def)
qed

lemma peer_run_append:
  "peer_run R Z (xs @ ys) p =
     (let (rs, p) = peer_run R Z xs p; (ss, p) = peer_run R Z ys p in (rs @ ss, p))"
  by (induction xs arbitrary: p) (auto simp: Let_def split: prod.split)

lemma send_disconnect_disconnects: "ps_disconnected (snd (start_send R Z (PDisconnect r) p))"
proof (cases "ps_disconnected p \<or> \<not> ps_snappy p")
  case True
  then show ?thesis by (auto simp: start_send_def peer_payload_def)
next
  case False
  then show ?thesis
    by (cases "sn_compress Z (rl_out R (RUint (reason_to_u8 r)))") (auto simp: start_send_def peer_payload_def)
qed

text \<open>
  A disconnect is final. Whatever is called on a peer stream after it has sent a disconnect
  message, nothing more is sent and nothing more is received.
\<close>

theorem disconnect_silences:
  "\<exists>r. fst (peer_run R Z (xs @ OpSend (PDisconnect reason) # ys) p) =
     fst (peer_run R Z xs p) @ r # map silent_result ys"
proof -
  let ?p = "snd (peer_run R Z xs p)"
  let ?q = "snd (start_send R Z (PDisconnect reason) ?p)"
  have "peer_run R Z ys ?q = (map silent_result ys, ?q)"
    by (rule disconnected_silent [OF send_disconnect_disconnects])
  then show ?thesis
    by (simp add: peer_run_append Let_def apfst_def map_prod_def split_beta)
qed

text \<open>
  An empty frame makes the receiving peer stream panic: the other side only has to write a message
  of no bytes on the encrypted connection.
\<close>

theorem empty_frame_panics:
  assumes "crypto_ok C" "codec_linked a b" "\<not> ps_disconnected p"
  shows "\<exists>f a' b'. (\<forall>buf. codec_send R C rnd [] buf a = Some (buf @ f, a')) \<and>
     (\<forall>rest. codec_recv R C b (f @ rest) = Some ([], b', rest)) \<and>
     poll_next R Z (Some (Ok [])) p = (Some Panic, p)"
proof -
  have "poll_next R Z (Some (Ok [])) p = (Some Panic, p)"
    using assms(3) by (simp add: poll_next_def poll_value_def split_id_def)
  then show ?thesis using codec_one_message [OF assms(1,2), of "[]" R rnd] by auto
qed

section \<open>Peers over the encrypted connection\<close>

text \<open>The peer stream on top of the codec: \<open>ps_stream\<close> is the codec, the buffers are those of the transport.\<close>

definition peer_send :: "rlp_api \<Rightarrow> ('sk, 'pk, 'c) crypto \<Rightarrow> snappy_api \<Rightarrow> 'sk enc_rand \<Rightarrow> peer_message \<Rightarrow> bytes
    \<Rightarrow> ('sk, 'pk, 'c) codec peer_stream \<Rightarrow> (bytes \<times> ('sk, 'pk, 'c) codec peer_stream) option" where
  "peer_send R C Z rnd m buf p =
     (case start_send R Z m p of
        (Ok (Some d), p') \<Rightarrow>
          map_option (\<lambda>(out, c). (out, p'\<lparr>ps_stream := c\<rparr>)) (codec_send R C rnd d buf (ps_stream p'))
      | (Ok None, p') \<Rightarrow> Some (buf, p')
      | _ \<Rightarrow> None)"

definition peer_recv :: "rlp_api \<Rightarrow> ('sk, 'pk, 'c) crypto \<Rightarrow> snappy_api \<Rightarrow> ('sk, 'pk, 'c) codec peer_stream \<Rightarrow> bytes
    \<Rightarrow> (peer_message \<times> ('sk, 'pk, 'c) codec peer_stream \<times> bytes) option" where
  "peer_recv R C Z p buf =
     (case codec_recv R C (ps_stream p) buf of
        Some (d, c, rest) \<Rightarrow>
          (case poll_next R Z (Some (Ok d)) p of
             (Some (Ok m), p') \<Rightarrow> Some (m, p'\<lparr>ps_stream := c\<rparr>, rest)
           | _ \<Rightarrow> None)
      | None \<Rightarrow> None)"

definition peers_linked :: "capability_info \<Rightarrow> ('sk, 'pk, 'c) codec peer_stream \<Rightarrow> ('sk, 'pk, 'c) codec peer_stream \<Rightarrow> bool" where
  "peers_linked cap a b \<longleftrightarrow> single_cap cap a \<and> single_cap cap b \<and> ps_snappy a = ps_snappy b \<and>
     codec_linked (ps_stream a) (ps_stream b)"

lemma peer_one_message:
  assumes R: "rlp_ok R" and C: "crypto_ok C" and Z: "snappy_ok Z" and l: "peers_linked cap a b" and m: "sendable cap m"
  shows "\<exists>f a' b'. (\<forall>buf. peer_send R C Z rnd m buf a = Some (buf @ f, a')) \<and>
     (\<forall>rest. peer_recv R C Z b (f @ rest) = Some (m, b', rest)) \<and> peers_linked cap a' b'"
proof -
  have l: "single_cap cap a" "single_cap cap b" "ps_snappy a = ps_snappy b" "codec_linked (ps_stream a) (ps_stream b)"
    using l by (simp_all add: peers_linked_def)
  obtain d where d: "start_send R Z m a = (Ok (Some d), a)" "length d < 2 ^ 24"
      "poll_next R Z (Some (Ok d)) b = (Some (Ok m), b)"
    using single_capability_message [OF R Z l(1-3) m] .
  obtain f a' b' where f: "\<And>buf. codec_send R C rnd d buf (ps_stream a) = Some (buf @ f, a')"
      "\<And>rest. codec_recv R C (ps_stream b) (f @ rest) = Some (d, b', rest)" "codec_linked a' b'"
    using codec_one_message [OF C l(4) d(2)] by metis
  have "peers_linked cap (a\<lparr>ps_stream := a'\<rparr>) (b\<lparr>ps_stream := b'\<rparr>)"
    using l f(3) by (simp add: peers_linked_def single_cap_def)
  then show ?thesis using d f(1,2) by (auto simp: peer_send_def peer_recv_def)
qed

interpretation peer_link: framed_link "peer_send R C Z rnd" "peer_recv R C Z"
  "\<lambda>a b. rlp_ok R \<and> crypto_ok C \<and> snappy_ok Z \<and> peers_linked cap a b" "sendable cap" for R C Z rnd cap
  by unfold_locales (use peer_one_message in blast)

text \<open>
  C22. From end to end: two peer streams with one shared capability on a connected pair of codecs
  deliver every sequence of pings, pongs and capability messages completely and in order, whatever
  the compression and however the bytes are cut into pieces, and can go on from there.
\<close>

theorem peer_messages_delivered:
  assumes "rlp_ok R" "crypto_ok C" "snappy_ok Z" "peers_linked cap a b" "\<forall>m \<in> set ms. sendable cap m"
  shows "\<exists>f a' b'. (\<forall>buf. send_all (peer_send R C Z rnd) ms buf a = Some (buf @ f, a')) \<and>
     (\<forall>rest. recv_all (peer_recv R C Z) (length ms) b (f @ rest) = Some (ms, b', rest)) \<and> peers_linked cap a' b'"
  using peer_link.all_messages [of R C Z cap a b ms rnd] assms by blast

section \<open>Witnesses\<close>

definition demo_snappy :: snappy_api where
  "demo_snappy = \<lparr>sn_compress = Some, sn_decompress_len = (\<lambda>z. Some (length z)), sn_decompress = Some\<rparr>"

lemma demo_snappy_ok: "snappy_ok demo_snappy"
  by (simp add: snappy_ok_def demo_snappy_def)

definition eth_name :: cap_name where "eth_name = [101, 116, 104]"
definition les_name :: cap_name where "les_name = [108, 101, 115]"

definition eth_cap :: "nat \<Rightarrow> capability_info" where
  "eth_cap v = \<lparr>ci_name = eth_name, ci_version = v, ci_length = 17\<rparr>"

definition les_cap :: capability_info where
  "les_cap = \<lparr>ci_name = les_name, ci_version = 2, ci_length = 21\<rparr>"

definition demo_peer :: "capability_info list \<Rightarrow> bool \<Rightarrow> (byte, byte, unit) codec peer_stream" where
  "demo_peer caps snappy = \<lparr>ps_stream = demo_codec, ps_client_version = [], ps_shared_capabilities = caps,
     ps_port = 30303, ps_id = replicate 64 1, ps_remote_id = replicate 64 2, ps_snappy = snappy,
     ps_disconnected = False\<rparr>"

lemma demo_single: "single_cap (eth_cap 66) (demo_peer [eth_cap 66] z)"
  by (simp add: single_cap_def demo_peer_def eth_cap_def)

theorem share_caps_newest_witness:
  "distinct (map ci_name (share_caps [eth_cap 65, eth_cap 66, les_cap] (capability_messages [eth_cap 65, eth_cap 66])))"
proof -
  have "distinct (map capability_id_of [eth_cap 65, eth_cap 66, les_cap])"
    by (simp add: eth_cap_def les_cap_def capability_id_of_def)
  then show ?thesis
    using share_caps_newest [of "[eth_cap 65, eth_cap 66, les_cap]" "capability_messages [eth_cap 65, eth_cap 66]"]
    by blast
qed

theorem peers_agree_witness:
  "\<exists>pa pb. fst (peer_new demo_rlp demo_crypto demo_snappy () (replicate 64 2) 1 V5 [] [eth_cap 65, eth_cap 66] 30303
      (Some (Ok (outbound_hello demo_rlp (own_hello demo_crypto 2 V5 [] [eth_cap 66, les_cap] 30304))))) = Ok pa \<and>
    fst (peer_new demo_rlp demo_crypto demo_snappy () (replicate 64 1) 2 V5 [] [eth_cap 66, les_cap] 30304
      (Some (Ok (outbound_hello demo_rlp (own_hello demo_crypto 1 V5 [] [eth_cap 65, eth_cap 66] 30303))))) = Ok pb \<and>
    map capability_id_of (ps_shared_capabilities pa) = map capability_id_of (ps_shared_capabilities pb)"
  using peers_agree [where cva = "[]" and porta = 30303 and as = "[eth_cap 65, eth_cap 66]" and cvb = "[]" and portb = 30304
      and bs = "[eth_cap 66, les_cap]" and va = V5 and vb = V5 and ka = 1 and kb = 2 and ta = "()" and tb = "()"
      and ida = "replicate 64 2" and idb = "replicate 64 1",
      OF demo_rlp_ok demo_crypto_ok demo_snappy_ok _ _ _ _ _ _ _ _ refl refl refl refl]
  by (simp add: eth_cap_def les_cap_def eth_name_def les_name_def capability_id_of_def cap_name_ok_def utf8_tail_def)

theorem single_capability_roundtrip_witness:
  "\<exists>d. start_send demo_rlp demo_snappy (PSubprotocol eth_name \<lparr>msg_id = 3, msg_data = [1, 2]\<rparr>) (demo_peer [eth_cap 66] True) =
      (Ok (Some d), demo_peer [eth_cap 66] True) \<and>
    poll_next demo_rlp demo_snappy (Some (Ok d)) (demo_peer [eth_cap 66] True) =
      (Some (Ok (PSubprotocol eth_name \<lparr>msg_id = 3, msg_data = [1, 2]\<rparr>)), demo_peer [eth_cap 66] True)"
  by (rule single_capability_roundtrip [OF demo_rlp_ok demo_snappy_ok demo_single demo_single refl])
     (simp add: sendable_def eth_cap_def)

theorem single_capability_range_witness:
  "poll_next demo_rlp demo_snappy (Some (Ok (rl_out demo_rlp (RUint (16 + 17)) @ [5]))) (demo_peer [eth_cap 66] False) =
    (Some (Ok (PSubprotocol eth_name \<lparr>msg_id = 17, msg_data = [5]\<rparr>)), demo_peer [eth_cap 66] False)"
  using single_capability_range [OF demo_rlp_ok, of "demo_peer [eth_cap 66] False" "eth_cap 66" 17 demo_snappy "[5]"]
  by (simp add: demo_peer_def eth_cap_def)

theorem second_capability_misrouted_witness:
  "\<exists>d. start_send demo_rlp demo_snappy (PSubprotocol les_name \<lparr>msg_id = 0, msg_data = [9]\<rparr>) (demo_peer [eth_cap 66, les_cap] True) =
      (Ok (Some d), demo_peer [eth_cap 66, les_cap] True) \<and>
    poll_next demo_rlp demo_snappy (Some (Ok d)) (demo_peer [eth_cap 66, les_cap] True) =
      (Some (Ok (PSubprotocol eth_name \<lparr>msg_id = 17, msg_data = [9]\<rparr>)), demo_peer [eth_cap 66, les_cap] True)"
  using second_capability_misrouted [OF demo_rlp_ok demo_snappy_ok, of "demo_peer [eth_cap 66, les_cap] True" "eth_cap 66" les_cap
      "demo_peer [eth_cap 66, les_cap] True" "[9]"]
  by (simp add: demo_peer_def eth_cap_def les_cap_def eth_name_def les_name_def)

theorem disconnect_not_understood_witness:
  "\<exists>d. start_send demo_rlp demo_snappy (PDisconnect UselessPeer) (demo_peer [] True) =
      (Ok (Some d), (demo_peer [] True)\<lparr>ps_disconnected := True\<rparr>) \<and>
    poll_next demo_rlp demo_snappy (Some (Ok d)) (demo_peer [] True) =
      (Some (Err PeerOther), (demo_peer [] True)\<lparr>ps_disconnected := True\<rparr>)"
  by (rule disconnect_not_understood [OF demo_rlp_ok demo_snappy_ok]) (simp_all add: demo_peer_def)

theorem empty_frame_panics_witness:
  "\<exists>f a' b'. (\<forall>buf. codec_send demo_rlp demo_crypto demo_rand [] buf demo_codec = Some (buf @ f, a')) \<and>
     (\<forall>rest. codec_recv demo_rlp demo_crypto demo_codec (f @ rest) = Some ([], b', rest)) \<and>
     poll_next demo_rlp demo_snappy (Some (Ok [])) (demo_peer [] True) = (Some Panic, demo_peer [] True)"
  by (rule empty_frame_panics [OF demo_crypto_ok demo_codec_linked]) (simp add: demo_peer_def)

theorem peer_messages_delivered_witness:
  "\<exists>f a' b'. (\<forall>buf. send_all (peer_send demo_rlp demo_crypto demo_snappy demo_rand) [PPing, PPong] buf
        (demo_peer [eth_cap 66] True) = Some (buf @ f, a')) \<and>
     (\<forall>rest. recv_all (peer_recv demo_rlp demo_crypto demo_snappy) (length [PPing, PPong]) (demo_peer [eth_cap 66] True) (f @ rest) =
        Some ([PPing, PPong], b', rest)) \<and> peers_linked (eth_cap 66) a' b'"
  by (rule peer_messages_delivered [OF demo_rlp_ok demo_crypto_ok demo_snappy_ok])
     (simp_all add: peers_linked_def demo_single sendable_def, simp add: demo_peer_def demo_codec_linked)

end
