(* ===== verification/Connection.thy ===== *)
theory Connection
  imports Peer
begin

text \<open>
  \<open>PeerStream::connect\<close> and \<open>PeerStream::incoming\<close> of \<^verbatim>\<open>devp2p/src/peer.rs\<close> on the bytes of the
  transport: the encrypted handshake of \<open>ECIESStream\<close>, then the hello exchange over it. Both ends send
  their hello before they read the other's.
\<close>

definition stream_next :: "rlp_api \<Rightarrow> ('sk, 'pk, 'c) crypto \<Rightarrow> ('sk, 'pk, 'c) codec \<Rightarrow> bytes
    \<Rightarrow> (ecies_error, bytes) outcome option \<times> ('sk, 'pk, 'c) codec \<times> bytes" where
  "stream_next R C c buf =
     (case decode R C c buf of
        (Ok None, c, rest) \<Rightarrow> (None, c, rest)
      | (Ok (Some v), c, rest) \<Rightarrow> (stream_item (Some (Ok v)), c, rest)
      | (Err e, c, rest) \<Rightarrow> (Some (Err e), c, rest)
      | (Panic, c, rest) \<Rightarrow> (Some Panic, c, rest))"

text \<open>
  \<open>PeerStream::new\<close> on an encrypted stream. The result comes with what was written to the transport
  and what is left of the input; \<open>None\<close> of \<open>stream_next\<close> stands for an input that ends here.
\<close>

definition new_over_stream :: "rlp_api \<Rightarrow> ('sk, 'pk, 'c) crypto \<Rightarrow> snappy_api \<Rightarrow> ('sk, 'pk, 'c) ecies_stream \<Rightarrow> 'sk
    \<Rightarrow> 'sk enc_rand \<Rightarrow> protocol_version \<Rightarrow> bytes \<Rightarrow> capability_info list \<Rightarrow> nat
    \<Rightarrow> (peer_error, ('sk, 'pk, 'c) codec peer_stream) outcome \<times> bytes \<times> bytes" where
  "new_over_stream R C Z s secret_key rnd version client_version capabilities port =
     (case codec_send R C rnd (outbound_hello R (own_hello C secret_key version client_version capabilities port)) []
             (es_codec s) of
        None \<Rightarrow> (Panic, [], es_buf s)
      | Some (out, c) \<Rightarrow>
          (case stream_next R C c (es_buf s) of
             (item, c, rest) \<Rightarrow>
               (case peer_new R C Z c (es_remote_id s) secret_key version client_version capabilities port item of
                  (r, hello # msgs) \<Rightarrow>
                    (case send_all (codec_send R C rnd) msgs out c of
                       Some (out, _) \<Rightarrow> (r, out, rest)
                     | None \<Rightarrow> (Panic, out, rest))
                | (r, []) \<Rightarrow> (r, out, rest))))"

definition peer_connect :: "rlp_api \<Rightarrow> ('sk, 'pk, 'c) crypto \<Rightarrow> snappy_api \<Rightarrow> 'sk \<Rightarrow> bytes \<Rightarrow> bytes \<Rightarrow> 'sk
    \<Rightarrow> 'sk enc_rand \<Rightarrow> protocol_version \<Rightarrow> bytes \<Rightarrow> capability_info list \<Rightarrow> nat \<Rightarrow> bytes
    \<Rightarrow> (peer_error, ('sk, 'pk, 'c) codec peer_stream) outcome \<times> bytes \<times> bytes" where
  "peer_connect R C Z secret_key remote_id nonce eph rnd version client_version capabilities port input =
     (case stream_connect R C secret_key remote_id nonce eph rnd input of
        Ok (s, out) \<Rightarrow>
          (case new_over_stream R C Z s secret_key rnd version client_version capabilities port of
             (r, out', rest) \<Rightarrow> (r, out @ out', rest))
      | Err e \<Rightarrow> (Err (PeerEcies e), [], input)
      | Panic \<Rightarrow> (Panic, [], input))"

definition peer_incoming :: "rlp_api \<Rightarrow> ('sk, 'pk, 'c) crypto \<Rightarrow> snappy_api \<Rightarrow> 'sk \<Rightarrow> bytes \<Rightarrow> 'sk
    \<Rightarrow> 'sk enc_rand \<Rightarrow> protocol_version \<Rightarrow> bytes \<Rightarrow> capability_info list \<Rightarrow> nat \<Rightarrow> bytes
    \<Rightarrow> (peer_error, ('sk, 'pk, 'c) codec peer_stream) outcome \<times> bytes \<times> bytes" where
  "peer_incoming R C Z secret_key nonce eph rnd version client_version capabilities port input =
     (case stream_incoming R C secret_key nonce eph rnd input of
        Ok (s, out) \<Rightarrow>
          (case new_over_stream R C Z s secret_key rnd version client_version capabilities port of
             (r, out', rest) \<Rightarrow> (r, out @ out', rest))
      | Err e \<Rightarrow> (Err (PeerEcies e), [], input)
      | Panic \<Rightarrow> (Panic, [], input))"

text \<open>One end of the hello exchange, given the frames in both directions.\<close>

lemma new_over_stream_ok:
  assumes "rlp_ok R" "snappy_ok Z" "hello_ok h" "share_caps caps (hm_capabilities h) \<noteq> []"
    and "codec_send R C rnd (outbound_hello R (own_hello C sk v cv caps port)) [] (es_codec s) = Some (f, c1)"
    and "decode R C c1 (es_buf s) = (Ok (Some (IngressMessage (outbound_hello R h))), c2, rest)"
  shows "new_over_stream R C Z s sk rnd v cv caps port =
    (Ok \<lparr>ps_stream = c2, ps_client_version = cv, ps_shared_capabilities = share_caps caps (hm_capabilities h),
         ps_port = port, ps_id = pk2id C (cr_public C sk), ps_remote_id = es_remote_id s, ps_snappy = (v = V5),
         ps_disconnected = False\<rparr>, f, rest)"
proof -
  have "snd (peer_new R C Z c2 (es_remote_id s) sk v cv caps port (Some (Ok (outbound_hello R h)))) =
      [outbound_hello R (own_hello C sk v cv caps port)]"
    using handle_outbound_hello [OF assms(1,3)] assms(4) by (simp add: peer_new_def Let_def)
  then obtain r where "peer_new R C Z c2 (es_remote_id s) sk v cv caps port (Some (Ok (outbound_hello R h))) =
      (r, [outbound_hello R (own_hello C sk v cv caps port)])"
    by (metis prod.collapse)
  with peer_new_hello [OF assms(1,2,3), of C c2 "es_remote_id s" sk v cv caps port] assms(4-6)
  show ?thesis by (simp add: new_over_stream_def stream_next_def Let_def)
qed

lemma own_hello_caps: "hm_capabilities (own_hello C sk v cv caps port) = capability_messages caps"
  by (simp add: own_hello_def)

text \<open>With nothing in common an end says why it leaves.\<close>

lemma new_over_stream_none:
  assumes ok: "rlp_ok R" "crypto_ok C" "snappy_ok Z" and h: "hello_ok h" "share_caps caps (hm_capabilities h) = []"
    and sent: "codec_send R C rnd (outbound_hello R (own_hello C sk v cv caps port)) [] c = Some (f, c1)"
    and read: "\<And>rest. decode R C c1 (m @ rest) = (Ok (Some (IngressMessage (outbound_hello R h))), c2, rest)" and half: "codec_half c2 d"
  shows "\<exists>g. \<forall>rest. new_over_stream R C Z \<lparr>es_codec = c, es_buf = m @ rest, es_remote_id = i\<rparr> sk rnd v cv caps port =
    (Err NoSharedCapabilities, f @ g, rest)"
proof -
  let ?p = "\<lparr>ps_stream = c2, ps_client_version = cv, ps_shared_capabilities = [], ps_port = port, ps_id = pk2id C (cr_public C sk),
     ps_remote_id = i, ps_snappy = (v = V5), ps_disconnected = False\<rparr>"
  have payload: "peer_payload R (PDisconnect UselessPeer) ?p = Some (1, rl_out R (RUint (reason_to_u8 UselessPeer)))"
    by (simp add: peer_payload_def)
  have short: "length (rl_out R (RUint (reason_to_u8 UselessPeer))) \<le> 2 ^ 23"
    using reason_payload_short [OF ok(1), of UselessPeer] by simp
  have alive: "\<not> ps_disconnected ?p" and small: "(1 :: nat) < 128" by simp_all
  obtain z where z: "start_send R Z (PDisconnect UselessPeer) ?p =
      (Ok (Some (rl_out R (RUint 1) @ z)), if (\<exists>r. PDisconnect UselessPeer = PDisconnect r) then ?p\<lparr>ps_disconnected := True\<rparr> else ?p)"
    "length (rl_out R (RUint 1) @ z) < 2 ^ 24"
    by (rule start_send_payload [OF ok(1,3) alive payload small short]) (rule that)
  obtain g c3 where g: "\<And>buf. codec_send R C rnd (rl_out R (RUint 1) @ z) buf c2 = Some (buf @ g, c3)"
    using codec_half_message [OF ok(2) half z(2), of R rnd] by metis
  have "peer_new R C Z c2 i sk v cv caps port (Some (Ok (outbound_hello R h))) =
      (Err NoSharedCapabilities, [outbound_hello R (own_hello C sk v cv caps port), rl_out R (RUint 1) @ z])"
    using handle_outbound_hello [OF ok(1) h(1)] h(2) z(1) by (simp add: peer_new_def Let_def)
  then show ?thesis using sent read g by (intro exI [of _ g]) (simp add: new_over_stream_def stream_next_def)
qed

text \<open>The bytes of the two handshakes, with the hellos: each end reads the other's after it has sent its own.\<close>

lemma hello_crosses:
  assumes C: "crypto_ok C" and half: "codec_half a b" and short: "length d < 2 ^ 24"
    and sent: "codec_send R C rnd' e [] b = Some (g, b1)" and keeps: "\<forall>c. codec_half c b \<longrightarrow> codec_half c b1"
  shows "\<exists>f a1 b2. (\<forall>buf. codec_send R C rnd d buf a = Some (buf @ f, a1)) \<and> (\<forall>c. codec_half c a \<longrightarrow> codec_half c a1) \<and>
    (\<forall>rest. decode R C b1 (f @ rest) = (Ok (Some (IngressMessage d)), b2, rest)) \<and> codec_half a1 b2 \<and>
    (\<forall>c. codec_half b1 c \<longrightarrow> codec_half b2 c)"
proof -
  obtain f a1 b2 where "\<And>buf. codec_send R C rnd d buf a = Some (buf @ f, a1)"
    "\<And>rest. decode R C b1 (f @ rest) = (Ok (Some (IngressMessage d)), b2, rest)" "codec_half a1 b2"
    "\<And>c. codec_half c a \<Longrightarrow> codec_half c a1" "\<And>c. codec_half b1 c \<Longrightarrow> codec_half b2 c"
    using codec_half_message [OF C keeps [rule_format, OF half] short, of R rnd] by metis
  then show ?thesis by blast
qed

lemma handshakes_cross:
  assumes ok: "rlp_ok R" "crypto_ok C"
    and rand: "length nc = 32" "length ns = 32" "length (er_iv rc) = 16" "length (er_iv rs) = 16" "er_pad rc \<le> 300"
    and short: "length dc < 2 ^ 24" "length ds < 2 ^ 24"
  obtains m1 m2 ca cb fc ca1 ca2 fs cb1 cb2 where
    "\<And>x. stream_connect R C kc (pk2id C (cr_public C ks)) nc ec rc (m2 @ x) =
       Ok (\<lparr>es_codec = ca, es_buf = x, es_remote_id = pk2id C (cr_public C ks)\<rparr>, m1)"
    "\<And>y. stream_incoming R C ks ns es rs (m1 @ y) = Ok (\<lparr>es_codec = cb, es_buf = y, es_remote_id = pk2id C (cr_public C kc)\<rparr>, m2)"
    "codec_send R C rc dc [] ca = Some (fc, ca1)" "\<And>rest. decode R C ca1 (fs @ rest) = (Ok (Some (IngressMessage ds)), ca2, rest)"
    "codec_send R C rs ds [] cb = Some (fs, cb1)" "\<And>rest. decode R C cb1 (fc @ rest) = (Ok (Some (IngressMessage dc)), cb2, rest)"
    "codec_linked ca2 cb2"
proof -
  obtain m1 m2 ca cb where hsk: "\<And>x y. stream_connect R C kc (pk2id C (cr_public C ks)) nc ec rc (m2 @ x) =
       Ok (\<lparr>es_codec = ca, es_buf = x, es_remote_id = pk2id C (cr_public C ks)\<rparr>, m1) \<and>
     stream_incoming R C ks ns es rs (m1 @ y) =
       Ok (\<lparr>es_codec = cb, es_buf = y, es_remote_id = pk2id C (cr_public C kc)\<rparr>, m2) \<and> codec_linked ca cb"
    using handshake_connects [OF ok(2,1) rand] by metis
  then have ab: "codec_half ca cb" and ba: "codec_half cb ca" by (simp_all add: codec_linked_halves)
  obtain fs cb1 where fs: "\<And>buf. codec_send R C rs ds buf cb = Some (buf @ fs, cb1)" "\<forall>d. codec_half d cb \<longrightarrow> codec_half d cb1"
    using codec_half_message [OF ok(2) ba short(2), of R rs] by metis
  have sent: "codec_send R C rs ds [] cb = Some (fs, cb1)" using fs(1) [of "[]"] by simp
  obtain fc ca1 cb2 where c: "\<forall>buf. codec_send R C rc dc buf ca = Some (buf @ fc, ca1)" "\<forall>d. codec_half d ca \<longrightarrow> codec_half d ca1"
    "\<forall>rest. decode R C cb1 (fc @ rest) = (Ok (Some (IngressMessage dc)), cb2, rest)" "codec_half ca1 cb2"
    "\<forall>c. codec_half cb1 c \<longrightarrow> codec_half cb2 c"
    using hello_crosses [OF ok(2) ab short(1) sent fs(2), of rc] by (elim exE conjE) (rule that)
  have sent': "codec_send R C rc dc [] ca = Some (fc, ca1)" using c(1) by simp
  obtain fs' cb1' ca2 where d: "\<forall>buf. codec_send R C rs ds buf cb = Some (buf @ fs', cb1')"
    "\<forall>rest. decode R C ca1 (fs' @ rest) = (Ok (Some (IngressMessage ds)), ca2, rest)" "codec_half cb1' ca2"
    "\<forall>c. codec_half ca1 c \<longrightarrow> codec_half ca2 c"
    using hello_crosses [OF ok(2) ba short(2) sent' c(2), of rs] by (elim exE conjE) (rule that)
  have "fs' = fs" "cb1' = cb1" using d(1) sent by simp_all
  then have "codec_linked ca2 cb2" using c(4,5) d(3,4) by (simp add: codec_linked_halves)
  then show ?thesis using that [OF hsk [THEN conjunct1] hsk [THEN conjunct2, THEN conjunct1] sent' _ sent _] c(3) d(2) \<open>fs' = fs\<close> by simp
qed

lemma peers_handshake:
  assumes ok: "rlp_ok R" "crypto_ok C" "snappy_ok Z"
    and rand: "length nc = 32" "length ns = 32" "length (er_iv rc) = 16" "length (er_iv rs) = 16" "er_pad rc \<le> 300"
    and hc: "utf8_valid cvc" "pc < 2 ^ 16" "\<forall>c \<in> set capsc. cap_name_ok (ci_name c) \<and> ci_version c < 2 ^ 64"
      "length (outbound_hello R (own_hello C kc v cvc capsc pc)) < 2 ^ 24"
    and hs: "utf8_valid cvs" "ps < 2 ^ 16" "\<forall>c \<in> set capss. cap_name_ok (ci_name c) \<and> ci_version c < 2 ^ 64"
      "length (outbound_hello R (own_hello C ks v cvs capss ps)) < 2 ^ 24"
    and caps: "share_caps capsc (capability_messages capss) = [cap]" "share_caps capss (capability_messages capsc) = [cap]"
      "ci_length cap \<le> 112"
  shows "\<exists>a b out_c out_s. \<forall>x y.
    peer_connect R C Z kc (pk2id C (cr_public C ks)) nc ec rc v cvc capsc pc (out_s @ x) = (Ok a, out_c, x) \<and>
    peer_incoming R C Z ks ns es rs v cvs capss ps (out_c @ y) = (Ok b, out_s, y) \<and>
    ps_remote_id a = pk2id C (cr_public C ks) \<and> ps_remote_id b = pk2id C (cr_public C kc) \<and>
    peers_linked cap a b \<and> peers_linked cap b a"
proof -
  let ?hc = "own_hello C kc v cvc capsc pc" and ?hs = "own_hello C ks v cvs capss ps"
  have okc: "hello_ok ?hc" and oks: "hello_ok ?hs"
    using own_hello_ok [OF ok(2)] hc(1-3) hs(1-3) by blast+
  obtain m1 m2 ca cb fc ca1 ca2 fs cb1 cb2 where h:
    "\<And>x. stream_connect R C kc (pk2id C (cr_public C ks)) nc ec rc (m2 @ x) =
       Ok (\<lparr>es_codec = ca, es_buf = x, es_remote_id = pk2id C (cr_public C ks)\<rparr>, m1)"
    "\<And>y. stream_incoming R C ks ns es rs (m1 @ y) = Ok (\<lparr>es_codec = cb, es_buf = y, es_remote_id = pk2id C (cr_public C kc)\<rparr>, m2)"
    "codec_send R C rc (outbound_hello R ?hc) [] ca = Some (fc, ca1)"
    "\<And>rest. decode R C ca1 (fs @ rest) = (Ok (Some (IngressMessage (outbound_hello R ?hs))), ca2, rest)"
    "codec_send R C rs (outbound_hello R ?hs) [] cb = Some (fs, cb1)"
    "\<And>rest. decode R C cb1 (fc @ rest) = (Ok (Some (IngressMessage (outbound_hello R ?hc))), cb2, rest)"
    "codec_linked ca2 cb2"
    using handshakes_cross [OF ok(1,2) rand hc(4) hs(4)] by metis
  let ?a = "\<lparr>ps_stream = ca2, ps_client_version = cvc, ps_shared_capabilities = [cap], ps_port = pc,
     ps_id = pk2id C (cr_public C kc), ps_remote_id = pk2id C (cr_public C ks), ps_snappy = (v = V5), ps_disconnected = False\<rparr>"
  let ?b = "\<lparr>ps_stream = cb2, ps_client_version = cvs, ps_shared_capabilities = [cap], ps_port = ps,
     ps_id = pk2id C (cr_public C ks), ps_remote_id = pk2id C (cr_public C kc), ps_snappy = (v = V5), ps_disconnected = False\<rparr>"
  have "peer_connect R C Z kc (pk2id C (cr_public C ks)) nc ec rc v cvc capsc pc ((m2 @ fs) @ x) = (Ok ?a, m1 @ fc, x)" for x
    using new_over_stream_ok [OF ok(1,3) oks, of capsc C rc kc v cvc pc
        "\<lparr>es_codec = ca, es_buf = fs @ x, es_remote_id = pk2id C (cr_public C ks)\<rparr>" fc ca1 ca2 x] h(1) [of "fs @ x"] h(3,4) caps(1)
    by (simp add: peer_connect_def own_hello_caps)
  moreover have "peer_incoming R C Z ks ns es rs v cvs capss ps ((m1 @ fc) @ y) = (Ok ?b, m2 @ fs, y)" for y
    using new_over_stream_ok [OF ok(1,3) okc, of capss C rs ks v cvs ps
        "\<lparr>es_codec = cb, es_buf = fc @ y, es_remote_id = pk2id C (cr_public C kc)\<rparr>" fs cb1 cb2 y] h(2) [of "fc @ y"] h(5,6) caps(2)
    by (simp add: peer_incoming_def own_hello_caps)
  moreover have "peers_linked cap ?a ?b" "peers_linked cap ?b ?a"
    using h(7) codec_linked_sym [OF h(7)] caps(3) by (simp_all add: peers_linked_def single_cap_def)
  ultimately show ?thesis by (intro exI [of _ ?a] exI [of _ ?b] exI [of _ "m1 @ fc"] exI [of _ "m2 @ fs"]) simp
qed

text \<open>Two ends that have nothing in common part, and each has told the other.\<close>

lemma strangers_part:
  assumes ok: "rlp_ok R" "crypto_ok C" "snappy_ok Z"
    and rand: "length nc = 32" "length ns = 32" "length (er_iv rc) = 16" "length (er_iv rs) = 16" "er_pad rc \<le> 300"
    and hc: "utf8_valid cvc" "pc < 2 ^ 16" "\<forall>c \<in> set capsc. cap_name_ok (ci_name c) \<and> ci_version c < 2 ^ 64"
      "length (outbound_hello R (own_hello C kc v cvc capsc pc)) < 2 ^ 24"
    and hs: "utf8_valid cvs" "ps < 2 ^ 16" "\<forall>c \<in> set capss. cap_name_ok (ci_name c) \<and> ci_version c < 2 ^ 64"
      "length (outbound_hello R (own_hello C ks v cvs capss ps)) < 2 ^ 24"
    and caps: "capability_id_of ` set capsc \<inter> capability_id_of ` set capss = {}"
  shows "\<exists>out_c bye_c out_s bye_s. \<forall>x y.
    peer_connect R C Z kc (pk2id C (cr_public C ks)) nc ec rc v cvc capsc pc (out_s @ x) = (Err NoSharedCapabilities, out_c @ bye_c, x) \<and>
    peer_incoming R C Z ks ns es rs v cvs capss ps (out_c @ y) = (Err NoSharedCapabilities, out_s @ bye_s, y)"
proof -
  let ?hc = "own_hello C kc v cvc capsc pc" and ?hs = "own_hello C ks v cvs capss ps"
  have okc: "hello_ok ?hc" and oks: "hello_ok ?hs"
    using own_hello_ok [OF ok(2)] hc(1-3) hs(1-3) by blast+
  have none: "share_caps capsc (hm_capabilities ?hs) = []" "share_caps capss (hm_capabilities ?hc) = []"
    using caps by (simp_all add: own_hello_caps share_caps_empty Int_commute)
  obtain m1 m2 ca cb fc ca1 ca2 fs cb1 cb2 where h:
    "\<And>x. stream_connect R C kc (pk2id C (cr_public C ks)) nc ec rc (m2 @ x) =
       Ok (\<lparr>es_codec = ca, es_buf = x, es_remote_id = pk2id C (cr_public C ks)\<rparr>, m1)"
    "\<And>y. stream_incoming R C ks ns es rs (m1 @ y) = Ok (\<lparr>es_codec = cb, es_buf = y, es_remote_id = pk2id C (cr_public C kc)\<rparr>, m2)"
    "codec_send R C rc (outbound_hello R ?hc) [] ca = Some (fc, ca1)"
    "\<And>rest. decode R C ca1 (fs @ rest) = (Ok (Some (IngressMessage (outbound_hello R ?hs))), ca2, rest)"
    "codec_send R C rs (outbound_hello R ?hs) [] cb = Some (fs, cb1)"
    "\<And>rest. decode R C cb1 (fc @ rest) = (Ok (Some (IngressMessage (outbound_hello R ?hc))), cb2, rest)"
    "codec_linked ca2 cb2"
    using handshakes_cross [OF ok(1,2) rand hc(4) hs(4)] by metis
  have half: "codec_half ca2 cb2" "codec_half cb2 ca2" using h(7) by (simp_all add: codec_linked_halves)
  obtain gc where gc: "\<forall>x. new_over_stream R C Z \<lparr>es_codec = ca, es_buf = fs @ x, es_remote_id = pk2id C (cr_public C ks)\<rparr>
      kc rc v cvc capsc pc = (Err NoSharedCapabilities, fc @ gc, x)"
    using new_over_stream_none [OF ok oks none(1) h(3,4) half(1)] by blast
  obtain gs where gs: "\<forall>x. new_over_stream R C Z \<lparr>es_codec = cb, es_buf = fc @ x, es_remote_id = pk2id C (cr_public C kc)\<rparr>
      ks rs v cvs capss ps = (Err NoSharedCapabilities, fs @ gs, x)"
    using new_over_stream_none [OF ok okc none(2) h(5,6) half(2)] by blast
  have "peer_connect R C Z kc (pk2id C (cr_public C ks)) nc ec rc v cvc capsc pc ((m2 @ fs) @ x) = (Err NoSharedCapabilities, (m1 @ fc) @ gc, x) \<and>
    peer_incoming R C Z ks ns es rs v cvs capss ps ((m1 @ fc) @ y) = (Err NoSharedCapabilities, (m2 @ fs) @ gs, y)" for x y
    using h(1) [of "fs @ x"] h(2) [of "fc @ y"] gc gs by (simp add: peer_connect_def peer_incoming_def)
  then show ?thesis by blast
qed

text \<open>
  C2. Two sentries that dial each other get a working connection. With one capability in common, the
  client that dials the id of the server and the server that accepts complete both handshakes, on
  whatever bytes follow them; each knows the other's id, and the two peer streams are linked, so that
  from then on messages go both ways.
\<close>

theorem peers_connect:
  assumes ok: "rlp_ok R" "crypto_ok C" "snappy_ok Z"
    and rand: "length nc = 32" "length ns = 32" "length (er_iv rc) = 16" "length (er_iv rs) = 16" "er_pad rc \<le> 300"
    and hc: "utf8_valid cvc" "pc < 2 ^ 16" "\<forall>c \<in> set capsc. cap_name_ok (ci_name c) \<and> ci_version c < 2 ^ 64"
      "length (outbound_hello R (own_hello C kc v cvc capsc pc)) < 2 ^ 24"
    and hs: "utf8_valid cvs" "ps < 2 ^ 16" "\<forall>c \<in> set capss. cap_name_ok (ci_name c) \<and> ci_version c < 2 ^ 64"
      "length (outbound_hello R (own_hello C ks v cvs capss ps)) < 2 ^ 24"
    and caps: "share_caps capsc (capability_messages capss) = [cap]" "share_caps capss (capability_messages capsc) = [cap]"
      "ci_length cap \<le> 112"
  shows "\<exists>a b out_c out_s. \<forall>x y.
    peer_connect R C Z kc (pk2id C (cr_public C ks)) nc ec rc v cvc capsc pc (out_s @ x) = (Ok a, out_c, x) \<and>
    peer_incoming R C Z ks ns es rs v cvs capss ps (out_c @ y) = (Ok b, out_s, y) \<and>
    ps_remote_id a = pk2id C (cr_public C ks) \<and> ps_remote_id b = pk2id C (cr_public C kc) \<and>
    peers_linked cap a b \<and> peers_linked cap b a"
  by (rule peers_handshake [OF assms])

section \<open>Witness\<close>

lemma demo_uint_length:
  assumes "n < 2 ^ 64"
  shows "length (rl_out demo_rlp (RUint n)) \<le> 12"
proof -
  have "length (digits256 n) \<le> 8" using length_digits256 [of n 8] assms by simp
  moreover from this have "length (tagged 129 (digits256 n)) \<le> length (digits256 n) + 2 + 2 * 1"
    by (intro length_tagged) simp
  ultimately show ?thesis by (simp add: demo_rlp_def)
qed

lemma demo_hello_short:
  assumes "length cv \<le> 100" "p < 2 ^ 16"
  shows "length (outbound_hello demo_rlp (own_hello demo_crypto k v cv [eth_cap 66] p)) < 2 ^ 24"
proof -
  let ?o = "rl_out demo_rlp"
  let ?cap = "RList [RData eth_name, RUint 66]"
  have n: "length (?o (RData eth_name)) \<le> 12" "length (?o (RUint 66)) \<le> 12" "length (?o (RData cv)) \<le> 109"
    using rlp_okD(9) [OF demo_rlp_ok, of eth_name] demo_uint_length [of 66] rlp_okD(9) [OF demo_rlp_ok, of cv] assms(1)
    by (simp_all add: eth_name_def)
  have c: "length (?o ?cap) \<le> 33" using rlp_okD(10) [OF demo_rlp_ok, of "[RData eth_name, RUint 66]"] n by simp
  have cs: "length (?o (RList [?cap])) \<le> 42" using rlp_okD(10) [OF demo_rlp_ok, of "[?cap]"] c by simp
  have i: "length (?o (RData (pk2id demo_crypto (cr_public demo_crypto k)))) \<le> 73"
    using rlp_okD(9) [OF demo_rlp_ok, of "pk2id demo_crypto (cr_public demo_crypto k)"] length_pk2id [OF demo_crypto_ok, of k]
    by simp
  have u: "length (?o (RUint (version_to_usize v))) \<le> 12" "length (?o (RUint p)) \<le> 12" "length (?o (RUint 0)) \<le> 12"
    using demo_uint_length assms(2) by (cases v; simp)+
  let ?items = "[RUint (version_to_usize v), RData cv, RList [?cap], RUint p, RData (pk2id demo_crypto (cr_public demo_crypto k))]"
  have "length (?o (RList ?items)) \<le> 300" using rlp_okD(10) [OF demo_rlp_ok, of ?items] n(3) cs i u by simp
  then show ?thesis using u(3)
    by (simp add: outbound_hello_def hello_rlp_def own_hello_def capability_messages_def capability_message_rlp_def
        cap_name_rlp_def eth_cap_def)
qed

theorem peers_connect_witness:
  "\<exists>a b out_c out_s. \<forall>x y.
    peer_connect demo_rlp demo_crypto demo_snappy 1 (pk2id demo_crypto (cr_public demo_crypto 2)) (replicate 32 8) 5 demo_rand
      V5 [] [eth_cap 66] 30303 (out_s @ x) = (Ok a, out_c, x) \<and>
    peer_incoming demo_rlp demo_crypto demo_snappy 2 (replicate 32 9) 6 demo_rand
      V5 [] [eth_cap 66] 30303 (out_c @ y) = (Ok b, out_s, y) \<and>
    ps_remote_id a = pk2id demo_crypto (cr_public demo_crypto 2) \<and>
    ps_remote_id b = pk2id demo_crypto (cr_public demo_crypto 1) \<and>
    peers_linked (eth_cap 66) a b \<and> peers_linked (eth_cap 66) b a"
proof (rule peers_connect [OF demo_rlp_ok demo_crypto_ok demo_snappy_ok])
  show "share_caps [eth_cap 66] (capability_messages [eth_cap 66]) = [eth_cap 66]"
    "share_caps [eth_cap 66] (capability_messages [eth_cap 66]) = [eth_cap 66]"
    by (simp_all add: share_caps_def retain_newest_def matching_caps_def capability_messages_def)
  show "length (outbound_hello demo_rlp (own_hello demo_crypto 1 V5 [] [eth_cap 66] 30303)) < 2 ^ 24"
    "length (outbound_hello demo_rlp (own_hello demo_crypto 2 V5 [] [eth_cap 66] 30303)) < 2 ^ 24"
    by (rule demo_hello_short; simp)+
qed (simp_all add: demo_rand_def eth_cap_def eth_name_def cap_name_ok_def)

end
