(* ===== verification/Eth.thy ===== *)
theory Eth
  imports Peer
begin

text \<open>
  The messages of the \<^verbatim>\<open>eth\<close> capability the sentry handles: \<^verbatim>\<open>src/eth.rs\<close>, the identifiers of
  \<^verbatim>\<open>src/grpc.rs\<close> and the requests of \<^verbatim>\<open>src/services/provider.rs\<close>.
\<close>

definition capability_name :: cap_name where "capability_name = [101, 116, 104]"

datatype message_id =
    Status | NewBlockHashes | Transactions | GetBlockHeaders | BlockHeaders | GetBlockBodies
  | BlockBodies | NewBlock | NewPooledTransactionHashes | GetPooledTransactions
  | PooledTransactions | GetNodeData | NodeData | GetReceipts | Receipts

fun mid_to_usize :: "message_id \<Rightarrow> nat" where
  "mid_to_usize Status = 0"
| "mid_to_usize NewBlockHashes = 1"
| "mid_to_usize Transactions = 2"
| "mid_to_usize GetBlockHeaders = 3"
| "mid_to_usize BlockHeaders = 4"
| "mid_to_usize GetBlockBodies = 5"
| "mid_to_usize BlockBodies = 6"
| "mid_to_usize NewBlock = 7"
| "mid_to_usize NewPooledTransactionHashes = 8"
| "mid_to_usize GetPooledTransactions = 9"
| "mid_to_usize PooledTransactions = 10"
| "mid_to_usize GetNodeData = 13"
| "mid_to_usize NodeData = 14"
| "mid_to_usize GetReceipts = 15"
| "mid_to_usize Receipts = 16"

definition all_message_ids :: "message_id list" where
  "all_message_ids = [Status, NewBlockHashes, Transactions, GetBlockHeaders, BlockHeaders, GetBlockBodies,
     BlockBodies, NewBlock, NewPooledTransactionHashes, GetPooledTransactions, PooledTransactions,
     GetNodeData, NodeData, GetReceipts, Receipts]"

definition mid_from_usize :: "nat \<Rightarrow> message_id option" where
  "mid_from_usize n = find (\<lambda>m. mid_to_usize m = n) all_message_ids"

lemma mid_from_to [simp]: "mid_from_usize (mid_to_usize m) = Some m"
  by (cases m) (simp_all add: mid_from_usize_def all_message_ids_def)

lemma mid_to_usize_less: "mid_to_usize m < 17"
  by (cases m) simp_all

text \<open>\<open>control::InboundMessageId\<close> and the identifiers of outbound messages, from \<^verbatim>\<open>src/grpc.rs\<close>.\<close>

datatype inbound_message_id = InNewBlockHashes | InBlockHeaders | InBlockBodies | InNewBlock | InNodeData

fun inbound_id_of :: "message_id \<Rightarrow> inbound_message_id option" where
  "inbound_id_of NewBlockHashes = Some InNewBlockHashes"
| "inbound_id_of BlockHeaders = Some InBlockHeaders"
| "inbound_id_of BlockBodies = Some InBlockBodies"
| "inbound_id_of NewBlock = Some InNewBlock"
| "inbound_id_of NodeData = Some InNodeData"
| "inbound_id_of _ = None"

definition from_outbound_message_id :: "int \<Rightarrow> message_id option" where
  "from_outbound_message_id i =
     (if i = 0 then Some GetBlockHeaders
      else if i = 1 then Some GetBlockBodies
      else if i = 2 then Some GetNodeData
      else None)"

text \<open>
  The fork identifiers of the \<^verbatim>\<open>ethereum-forkid\<close> crate are a parameter: their encoding, and a filter
  that can be made, asked for the current identifier, and validate one.
\<close>

record ('ff, 'fid) fork_api =
  fk_new :: "u64 \<Rightarrow> bytes \<Rightarrow> u64 list \<Rightarrow> 'ff"
  fk_current :: "'ff \<Rightarrow> 'fid"
  fk_validate :: "'ff \<Rightarrow> 'fid \<Rightarrow> bool"
  fk_rlp :: "'fid \<Rightarrow> rlp"
  fk_decode :: "bytes \<Rightarrow> 'fid option"

definition fork_ok :: "rlp_api \<Rightarrow> ('ff, 'fid) fork_api \<Rightarrow> bool" where
  "fork_ok R F \<longleftrightarrow> (\<forall>i r. fk_decode F (rl_out R (fk_rlp F i) @ r) = Some i)"

record forks =
  fk_genesis :: bytes
  fk_forks :: "u64 list"

record status_data =
  sd_network_id :: u64
  sd_total_difficulty :: nat
  sd_best_hash :: bytes
  sd_fork_data :: forks

record 'fid status_message =
  sm_protocol_version :: nat
  sm_network_id :: u64
  sm_total_difficulty :: nat
  sm_best_hash :: bytes
  sm_genesis_hash :: bytes
  sm_fork_id :: 'fid

definition status_rlp :: "('ff, 'fid) fork_api \<Rightarrow> 'fid status_message \<Rightarrow> rlp" where
  "status_rlp F s = RList [RUint (sm_protocol_version s), RUint (unat (sm_network_id s)),
     RUint (sm_total_difficulty s), RData (sm_best_hash s), RData (sm_genesis_hash s), fk_rlp F (sm_fork_id s)]"

definition status_decode :: "rlp_api \<Rightarrow> ('ff, 'fid) fork_api \<Rightarrow> bytes \<Rightarrow> 'fid status_message option" where
  "status_decode R F d =
     Option.bind (Option.bind (rl_at R d 0) (rl_uint R 64)) (\<lambda>protocol_version.
     Option.bind (Option.bind (rl_at R d 1) (rl_uint R 64)) (\<lambda>network_id.
     Option.bind (Option.bind (rl_at R d 2) (rl_uint R 256)) (\<lambda>total_difficulty.
     Option.bind (Option.bind (rl_at R d 3) (rl_hash R 32)) (\<lambda>best_hash.
     Option.bind (Option.bind (rl_at R d 4) (rl_hash R 32)) (\<lambda>genesis_hash.
     Option.bind (Option.bind (rl_at R d 5) (fk_decode F)) (\<lambda>fork_id.
     Some \<lparr>sm_protocol_version = protocol_version, sm_network_id = word_of_nat network_id,
           sm_total_difficulty = total_difficulty, sm_best_hash = best_hash,
           sm_genesis_hash = genesis_hash, sm_fork_id = fork_id\<rparr>))))))"

definition status_ok :: "'fid status_message \<Rightarrow> bool" where
  "status_ok s \<longleftrightarrow> sm_protocol_version s < 2 ^ 64 \<and> sm_total_difficulty s < 2 ^ 256 \<and>
     length (sm_best_hash s) = 32 \<and> length (sm_genesis_hash s) = 32"

text \<open>A block is asked for by hash or by number; a payload of 32 bytes is a hash.\<close>

datatype block_id = BHash bytes | BNumber u64

fun block_id_rlp :: "block_id \<Rightarrow> rlp" where
  "block_id_rlp (BHash h) = RData h"
| "block_id_rlp (BNumber n) = RUint (unat n)"

definition block_id_decode :: "rlp_api \<Rightarrow> bytes \<Rightarrow> block_id option" where
  "block_id_decode R d =
     (if rl_size R d = 32 then map_option BHash (rl_hash R 32 d)
      else map_option (\<lambda>n. BNumber (word_of_nat n)) (rl_uint R 64 d))"

fun block_id_ok :: "block_id \<Rightarrow> bool" where
  "block_id_ok (BHash h) = (length h = 32)"
| "block_id_ok (BNumber n) = True"

record get_block_headers =
  gb_block :: block_id
  gb_max_headers :: u64
  gb_skip :: u64
  gb_reverse :: bool

definition get_block_headers_rlp :: "get_block_headers \<Rightarrow> rlp" where
  "get_block_headers_rlp g = RList [block_id_rlp (gb_block g), RUint (unat (gb_max_headers g)),
     RUint (unat (gb_skip g)), RUint (of_bool (gb_reverse g))]"

definition get_block_headers_decode :: "rlp_api \<Rightarrow> bytes \<Rightarrow> get_block_headers option" where
  "get_block_headers_decode R d =
     Option.bind (Option.bind (rl_at R d 0) (block_id_decode R)) (\<lambda>block.
     Option.bind (Option.bind (rl_at R d 1) (rl_uint R 64)) (\<lambda>max_headers.
     Option.bind (Option.bind (rl_at R d 2) (rl_uint R 64)) (\<lambda>skip.
     Option.bind (Option.bind (rl_at R d 3) (rl_bool R)) (\<lambda>reverse.
     Some \<lparr>gb_block = block, gb_max_headers = word_of_nat max_headers, gb_skip = word_of_nat skip,
           gb_reverse = reverse\<rparr>))))"

lemma unat_u64_less: "unat (n :: u64) < 2 ^ 64"
  using unsigned_less [where w = n and 'a = nat] by simp

lemma uint_u64:
  assumes "rlp_ok R"
  shows "rl_uint R 64 (rl_out R (RUint (unat (n :: u64))) @ r) = Some (unat n)"
  using rlp_okD(4) [OF assms unat_u64_less] .

lemma uint_u64_whole:
  assumes "rlp_ok R"
  shows "rl_uint R 64 (rl_out R (RUint (unat (n :: u64)))) = Some (unat n)"
  using rlp_okD_whole(4) [OF assms unat_u64_less] .

interpretation status_codec: rlp_codec "rlp_ok R \<and> fork_ok R F" "rl_out R" "rl_list R" "status_rlp F" "status_decode R F" status_ok
  for R and F :: "('ff, 'fid) fork_api"
proof
  fix s :: "'fid status_message" and r
  assume ok: "rlp_ok R \<and> fork_ok R F" and s: "status_ok s"
  then have R: "rlp_ok R" by blast
  have "fk_decode F (rl_out R (fk_rlp F i)) = Some i" for i
    using ok by (metis append_Nil2 fork_ok_def)
  then show "status_decode R F (rl_out R (status_rlp F s) @ r) = Some s"
    using s by (simp add: status_decode_def status_rlp_def status_ok_def rlp_okD [OF R] rlp_okD_whole [OF R]
        uint_u64_whole [OF R])
qed (simp add: rlp_okD)

lemma block_id_dec_enc:
  assumes R: "rlp_ok R" and b: "block_id_ok b"
  shows "block_id_decode R (rl_out R (block_id_rlp b) @ r) = Some b"
proof (cases b)
  case (BHash h)
  then show ?thesis using b by (simp add: block_id_decode_def rlp_okD [OF R])
next
  case (BNumber n)
  have "rl_size R (rl_out R (RUint (unat n)) @ r) \<noteq> 32" using rlp_okD(7) [OF R unat_u64_less [of n], of r] by simp
  then show ?thesis using BNumber by (simp add: block_id_decode_def uint_u64 [OF R])
qed

interpretation block_id_codec: rlp_codec "rlp_ok R" "rl_out R" "rl_list R" block_id_rlp "block_id_decode R" block_id_ok for R
  by unfold_locales (simp_all add: block_id_dec_enc rlp_okD)

interpretation headers_codec: rlp_codec "rlp_ok R" "rl_out R" "rl_list R" get_block_headers_rlp
  "get_block_headers_decode R" "\<lambda>g. block_id_ok (gb_block g)" for R
  by unfold_locales
     (simp_all add: get_block_headers_decode_def get_block_headers_rlp_def rlp_okD uint_u64_whole
        block_id_codec.dec_enc_whole rlp_okD_whole(10))

text \<open>
  C26. The messages of the \<open>eth\<close> capability round-trip: decoding what was encoded gives back a status
  message, a block identifier and a header request, whatever bytes follow, and a block number is
  never taken for a hash.
\<close>

theorem eth_messages_roundtrip:
  assumes "rlp_ok R" "fork_ok R F"
  shows "(\<forall>s r. status_ok s \<longrightarrow> status_decode R F (rl_out R (status_rlp F s) @ r) = Some s) \<and>
     (\<forall>b r. block_id_ok b \<longrightarrow> block_id_decode R (rl_out R (block_id_rlp b) @ r) = Some b) \<and>
     (\<forall>g r. block_id_ok (gb_block g) \<longrightarrow>
        get_block_headers_decode R (rl_out R (get_block_headers_rlp g) @ r) = Some g)"
  using status_codec.dec_enc block_id_codec.dec_enc headers_codec.dec_enc assms by blast

definition demo_fork :: "(unit, bytes) fork_api" where
  "demo_fork = \<lparr>fk_new = (\<lambda>b g fs. ()), fk_current = (\<lambda>f. [1, 2]), fk_validate = (\<lambda>f i. i = [1, 2]),
     fk_rlp = RData, fk_decode = rl_data demo_rlp\<rparr>"

lemma demo_fork_ok: "fork_ok demo_rlp demo_fork"
  by (simp add: fork_ok_def demo_fork_def rlp_okD [OF demo_rlp_ok])

theorem eth_messages_roundtrip_witness:
  "block_id_decode demo_rlp (rl_out demo_rlp (block_id_rlp (BNumber 70000)) @ [1]) = Some (BNumber 70000)"
  using eth_messages_roundtrip [OF demo_rlp_ok demo_fork_ok, THEN conjunct2, THEN conjunct1,
    rule_format, of "BNumber 70000" "[1]"] by simp

end
