(* ===== verification/Block_Tracker.thy ===== *)
theory Block_Tracker
  imports Prelude
begin

text \<open>
  \<open>BlockTracker\<close> of \<^verbatim>\<open>src/main.rs\<close>: the block each peer is known to have, and the peers by block.
  The hash map is an association list with distinct keys, the \<open>BTreeMap\<close> a sorted one; the hash
  sets of peers are sets. The two maps are inverse to each other, and the component refines a plain
  map from peers to blocks.
\<close>

type_synonym peer_id = bytes

record block_tracker =
  block_by_peer :: "(peer_id \<times> u64) list"
  peers_by_block :: "(u64 \<times> peer_id set) list"

definition empty_tracker :: block_tracker where
  "empty_tracker = \<lparr>block_by_peer = [], peers_by_block = []\<rparr>"

text \<open>
  An occupied entry loses the peer, and goes when it is empty: the same lines in
  \<open>set_block_number\<close> and \<open>remove_peer\<close>.
\<close>

definition drop_from_block :: "peer_id \<Rightarrow> u64 \<Rightarrow> (u64 \<times> peer_id set) list \<Rightarrow> (u64 \<times> peer_id set) list" where
  "drop_from_block peer block m =
     (case map_of m block of
        None \<Rightarrow> m
      | Some s \<Rightarrow>
          let s = s - {peer}
          in if s = {} then AList.delete block m else bt_insert block s m)"

definition set_block_number :: "peer_id \<Rightarrow> u64 \<Rightarrow> block_tracker \<Rightarrow> block_tracker" where
  "set_block_number peer block t =
     (let old = map_of (block_by_peer t) peer;
          t = t\<lparr>block_by_peer := AList.update peer block (block_by_peer t)\<rparr>;
          t = (case old of
                 Some old_block \<Rightarrow> t\<lparr>peers_by_block := drop_from_block peer old_block (peers_by_block t)\<rparr>
               | None \<Rightarrow> t);
          s = (case map_of (peers_by_block t) block of None \<Rightarrow> {} | Some s \<Rightarrow> s)
      in t\<lparr>peers_by_block := bt_insert block (insert peer s) (peers_by_block t)\<rparr>)"

definition remove_peer :: "peer_id \<Rightarrow> block_tracker \<Rightarrow> block_tracker" where
  "remove_peer peer t =
     (let old = map_of (block_by_peer t) peer;
          t = t\<lparr>block_by_peer := AList.delete peer (block_by_peer t)\<rparr>
      in case old of
           Some block \<Rightarrow> t\<lparr>peers_by_block := drop_from_block peer block (peers_by_block t)\<rparr>
         | None \<Rightarrow> t)"

definition peers_with_min_block :: "u64 \<Rightarrow> block_tracker \<Rightarrow> peer_id set" where
  "peers_with_min_block block t = \<Union>(set (map snd (filter (\<lambda>e. block \<le> fst e) (peers_by_block t))))"

section \<open>The two maps are inverse\<close>

definition tracker_inv :: "block_tracker \<Rightarrow> bool" where
  "tracker_inv t \<longleftrightarrow> bt_sorted (peers_by_block t) \<and> distinct (map fst (block_by_peer t)) \<and>
     (\<forall>b s. map_of (peers_by_block t) b = Some s \<longrightarrow> s \<noteq> {}) \<and>
     (\<forall>b p. (\<exists>s. map_of (peers_by_block t) b = Some s \<and> p \<in> s) \<longleftrightarrow> map_of (block_by_peer t) p = Some b)"

lemma bt_sorted_distinct: "bt_sorted m \<Longrightarrow> distinct (map fst m)"
  by (simp add: strict_sorted_iff)

lemma bt_sorted_delete: "bt_sorted m \<Longrightarrow> bt_sorted (AList.delete k m)"
  by (induction m) (auto simp: AList.delete_eq)

lemma map_of_drop_from_block:
  assumes "bt_sorted m"
  shows "map_of (drop_from_block peer block m) b =
    (if b = block
     then (case map_of m block of None \<Rightarrow> None | Some s \<Rightarrow> if s - {peer} = {} then None else Some (s - {peer}))
     else map_of m b)"
  using assms by (auto simp: drop_from_block_def Let_def map_of_bt_insert AList.delete_conv' split: option.splits)

lemma bt_sorted_drop: "bt_sorted m \<Longrightarrow> bt_sorted (drop_from_block peer block m)"
  by (simp add: drop_from_block_def Let_def bt_insert_sorted bt_sorted_delete split: option.split)

lemma remove_peer_inv:
  assumes "tracker_inv t"
  shows "tracker_inv (remove_peer peer t)"
    and "map_of (block_by_peer (remove_peer peer t)) = (map_of (block_by_peer t))(peer := None)"
proof -
  have s: "bt_sorted (peers_by_block t)" and d: "distinct (map fst (block_by_peer t))"
    and ne: "\<And>b s. map_of (peers_by_block t) b = Some s \<Longrightarrow> s \<noteq> {}"
    and iff: "\<And>b p. (\<exists>s. map_of (peers_by_block t) b = Some s \<and> p \<in> s) \<longleftrightarrow> map_of (block_by_peer t) p = Some b"
    using assms by (auto simp: tracker_inv_def)
  show m: "map_of (block_by_peer (remove_peer peer t)) = (map_of (block_by_peer t))(peer := None)"
    by (simp add: remove_peer_def Let_def AList.delete_conv' split: option.split)
  have b: "map_of (peers_by_block (remove_peer peer t)) b =
      (case map_of (peers_by_block t) b of None \<Rightarrow> None | Some s \<Rightarrow> if s - {peer} = {} then None else Some (s - {peer}))" for b
  proof (cases "map_of (block_by_peer t) peer")
    case None
    then have "peer \<notin> s" if "map_of (peers_by_block t) b = Some s" for s
      using iff [of b peer] that by auto
    then show ?thesis using None ne by (auto simp: remove_peer_def Let_def split: option.splits)
  next
    case (Some block)
    then have "peer \<notin> s" if "map_of (peers_by_block t) b = Some s" "b \<noteq> block" for s
      using iff [of b peer] that by auto
    then show ?thesis using Some ne
      by (auto simp: remove_peer_def Let_def map_of_drop_from_block [OF s] split: option.splits)
  qed
  have "bt_sorted (peers_by_block (remove_peer peer t))"
    using s by (simp add: remove_peer_def Let_def bt_sorted_drop split: option.split)
  moreover have "distinct (map fst (block_by_peer (remove_peer peer t)))"
    using d by (simp add: remove_peer_def Let_def distinct_delete split: option.split)
  moreover have "s \<noteq> {}" if "map_of (peers_by_block (remove_peer peer t)) b = Some s" for b s
    using that ne unfolding b by (auto split: option.splits if_splits)
  moreover have "(\<exists>s. map_of (peers_by_block (remove_peer peer t)) b = Some s \<and> p \<in> s) \<longleftrightarrow>
      map_of (block_by_peer (remove_peer peer t)) p = Some b" for b p
    using iff [of b p] unfolding b m by (auto split: option.splits if_splits)
  ultimately show "tracker_inv (remove_peer peer t)" by (simp add: tracker_inv_def)
qed

lemma set_block_number_after_remove:
  "peers_by_block (set_block_number peer block t) =
     (let m = peers_by_block (remove_peer peer t)
      in bt_insert block (insert peer (case map_of m block of None \<Rightarrow> {} | Some s \<Rightarrow> s)) m)"
  "map_of (block_by_peer (set_block_number peer block t)) = (map_of (block_by_peer t))(peer \<mapsto> block)"
  "block_by_peer (set_block_number peer block t) = AList.update peer block (block_by_peer t)"
  by (auto simp: set_block_number_def remove_peer_def Let_def update_conv' split: option.split)

lemma set_block_number_inv:
  assumes "tracker_inv t"
  shows "tracker_inv (set_block_number peer block t)"
proof -
  let ?r = "remove_peer peer t" and ?t = "set_block_number peer block t"
  note r = remove_peer_inv [OF assms, of peer]
  have s: "bt_sorted (peers_by_block ?r)"
    and ne: "\<And>b s. map_of (peers_by_block ?r) b = Some s \<Longrightarrow> s \<noteq> {}"
    and iff: "\<And>b p. (\<exists>s. map_of (peers_by_block ?r) b = Some s \<and> p \<in> s) \<longleftrightarrow> map_of (block_by_peer ?r) p = Some b"
    using r(1) by (auto simp: tracker_inv_def)
  have b: "map_of (peers_by_block ?t) =
      (map_of (peers_by_block ?r))(block \<mapsto> insert peer (case map_of (peers_by_block ?r) block of None \<Rightarrow> {} | Some s \<Rightarrow> s))"
    by (simp add: set_block_number_after_remove(1) Let_def map_of_bt_insert [OF s])
  have "bt_sorted (peers_by_block ?t)"
    using s by (simp add: set_block_number_after_remove(1) Let_def bt_insert_sorted)
  moreover have "distinct (map fst (block_by_peer ?t))"
    using assms by (simp add: set_block_number_after_remove(3) tracker_inv_def distinct_update)
  moreover have "s \<noteq> {}" if "map_of (peers_by_block ?t) c = Some s" for c s
    using that ne unfolding b by (auto split: option.splits if_splits)
  moreover have "(\<exists>s. map_of (peers_by_block ?t) c = Some s \<and> p \<in> s) \<longleftrightarrow> map_of (block_by_peer ?t) p = Some c" for c p
    using iff [of c p] iff [of c peer] iff [of block p] unfolding b set_block_number_after_remove(2) r(2)
    by (auto split: option.splits if_splits)
  ultimately show ?thesis by (simp add: tracker_inv_def)
qed

lemma peers_with_min_block_abs:
  assumes "tracker_inv t"
  shows "peers_with_min_block n t = {p. \<exists>b \<ge> n. map_of (block_by_peer t) p = Some b}"
proof -
  have d: "distinct (map fst (peers_by_block t))"
    using assms bt_sorted_distinct by (auto simp: tracker_inv_def)
  have "p \<in> peers_with_min_block n t \<longleftrightarrow> (\<exists>b s. map_of (peers_by_block t) b = Some s \<and> p \<in> s \<and> n \<le> b)" for p
    using d by (force simp: peers_with_min_block_def)
  also have "\<dots> p \<longleftrightarrow> (\<exists>b \<ge> n. map_of (block_by_peer t) p = Some b)" for p
    using assms unfolding tracker_inv_def by blast
  finally show ?thesis by auto
qed

text \<open>
  The contract of a tracker, as the capability server and the sentry service use it: a map from
  peers to blocks.
\<close>

locale peer_tracker =
  fixes blocks :: "'t \<Rightarrow> peer_id \<Rightarrow> u64 option"
    and set_block :: "peer_id \<Rightarrow> u64 \<Rightarrow> 't \<Rightarrow> 't"
    and remove :: "peer_id \<Rightarrow> 't \<Rightarrow> 't"
    and at_least :: "u64 \<Rightarrow> 't \<Rightarrow> peer_id set"
    and ok :: "'t \<Rightarrow> bool"
  assumes set_ok: "ok t \<Longrightarrow> ok (set_block p b t)"
    and remove_ok: "ok t \<Longrightarrow> ok (remove p t)"
    and blocks_set: "ok t \<Longrightarrow> blocks (set_block p b t) = (blocks t)(p \<mapsto> b)"
    and blocks_remove: "ok t \<Longrightarrow> blocks (remove p t) = (blocks t)(p := None)"
    and at_least_blocks: "ok t \<Longrightarrow> at_least n t = {p. \<exists>b \<ge> n. blocks t p = Some b}"
begin

lemma at_least_all: "ok t \<Longrightarrow> at_least 0 t = dom (blocks t)"
  by (auto simp: at_least_blocks)

lemma at_least_mono: "ok t \<Longrightarrow> m \<le> n \<Longrightarrow> at_least n t \<subseteq> at_least m t"
  by (auto simp: at_least_blocks)

lemma at_least_set: "ok t \<Longrightarrow> at_least n (set_block p b t) = (if n \<le> b then insert p (at_least n t) else at_least n t - {p})"
  by (auto simp: at_least_blocks set_ok blocks_set)

lemma at_least_remove: "ok t \<Longrightarrow> at_least n (remove p t) = at_least n t - {p}"
  by (auto simp: at_least_blocks remove_ok blocks_remove)

end

interpretation tracker: peer_tracker "\<lambda>t. map_of (block_by_peer t)" set_block_number remove_peer
  peers_with_min_block tracker_inv
  by unfold_locales
    (simp_all add: set_block_number_inv remove_peer_inv set_block_number_after_remove(2) peers_with_min_block_abs)

text \<open>
  C18. The block tracker is a map from peers to blocks. Setting a block and removing a peer keep the
  two maps inverse to each other, and \<open>peers_with_min_block\<close> returns exactly the peers whose last
  set block is at least the one asked for.
\<close>

theorem block_tracker_refines:
  assumes "tracker_inv t"
  shows "tracker_inv (set_block_number p b t) \<and> tracker_inv (remove_peer p t) \<and>
    map_of (block_by_peer (set_block_number p b t)) = (map_of (block_by_peer t))(p \<mapsto> b) \<and>
    map_of (block_by_peer (remove_peer p t)) = (map_of (block_by_peer t))(p := None) \<and>
    peers_with_min_block n t = {q. \<exists>c \<ge> n. map_of (block_by_peer t) q = Some c}"
  using tracker.set_ok tracker.remove_ok tracker.blocks_set tracker.blocks_remove tracker.at_least_blocks assms
  by blast

lemma empty_tracker_inv: "tracker_inv empty_tracker"
  by (simp add: tracker_inv_def empty_tracker_def)

theorem block_tracker_refines_witness:
  "peers_with_min_block 5 (set_block_number [2] 3 (set_block_number [1] 7 empty_tracker)) = {[1]}"
proof -
  have i: "tracker_inv (set_block_number [2] 3 (set_block_number [1] 7 empty_tracker))"
    by (intro set_block_number_inv empty_tracker_inv)
  have "map_of (block_by_peer (set_block_number [2] 3 (set_block_number [1] 7 empty_tracker))) = [[2] \<mapsto> 3, [1] \<mapsto> 7]"
    by (simp add: set_block_number_def empty_tracker_def)
  moreover have "peers_with_min_block 5 (set_block_number [2] 3 (set_block_number [1] 7 empty_tracker)) =
      {q. \<exists>c \<ge> 5. map_of (block_by_peer (set_block_number [2] 3 (set_block_number [1] 7 empty_tracker))) q = Some c}"
    using block_tracker_refines [OF i, of "[1]" 7 5] by (elim conjE)
  ultimately show ?thesis by auto
qed

end
