(* ===== verification/Cap_Server.thy ===== *)
theory Cap_Server
  imports Eth Block_Tracker
begin

text \<open>
  \<open>CapabilityServerImpl\<close> of \<^verbatim>\<open>src/main.rs\<close>: what the sentry does with the peers the swarm brings. A
  pipe of a peer is the events it is still to be sent: the first ones, then those of a channel with
  room for one. The data provider, the control service and the fork filter are parameters. Each
  handler runs to its next \<open>await\<close> on a peer's channel as one step: \<open>on_peer_event\<close> returns the
  event it is about to put there.
\<close>

section \<open>Events\<close>

datatype inbound_event = InDisconnect "disconnect_reason option" | InMessage cap_name message

datatype outbound_event = OutDisconnect disconnect_reason | OutMessage cap_name message

record inbound_message =
  im_id :: inbound_message_id
  im_data :: bytes
  im_peer_id :: bytes

record pipes =
  pp_first :: "outbound_event list"
  pp_queue :: "outbound_event list"

record 'ff cap_server =
  peer_pipes :: "(peer_id \<times> pipes) list"
  cs_tracker :: block_tracker
  cs_status :: "(status_data \<times> 'ff) option"
  valid_peers :: "peer_id set"

text \<open>
  What a build of the program fixes: whether arithmetic checks for overflow, as it does unless the profile
  is \<open>release\<close>, and the size of a header in memory.
\<close>

record build =
  bd_checked :: bool
  bd_header_size :: nat

text \<open>The services the server calls: results of the data provider's queries, errors included.\<close>

record ('ff, 'fid) cap_env =
  env_build :: build
  env_rlp :: rlp_api
  env_fork :: "('ff, 'fid) fork_api"
  env_resolve :: "bytes \<Rightarrow> (unit, u64 option) outcome"
  env_headers :: "block_id list \<Rightarrow> rlp option list"
  env_bodies :: "bytes list \<Rightarrow> rlp option list"

definition new_cap_server :: "'ff cap_server" where
  "new_cap_server = \<lparr>peer_pipes = [], cs_tracker = empty_tracker, cs_status = None, valid_peers = {}\<rparr>"

section \<open>Operations\<close>

text \<open>\<open>setup_peer\<close>: the assertion fails after the pipes have been replaced.\<close>

definition setup_peer :: "peer_id \<Rightarrow> pipes \<Rightarrow> ('ff cap_server, unit, unit) st" where
  "setup_peer peer p =
     st_bind st_get (\<lambda>s.
     st_bind (st_modify (\<lambda>s. s\<lparr>peer_pipes := AList.update peer p (peer_pipes s)\<rparr>)) (\<lambda>_.
     if map_of (peer_pipes s) peer \<noteq> None then st_lift Panic
     else st_modify (\<lambda>s. s\<lparr>cs_tracker := set_block_number peer 0 (cs_tracker s)\<rparr>)))"

definition get_pipes :: "peer_id \<Rightarrow> 'ff cap_server \<Rightarrow> pipes option" where
  "get_pipes peer s = map_of (peer_pipes s) peer"

definition teardown_peer :: "peer_id \<Rightarrow> 'ff cap_server \<Rightarrow> 'ff cap_server" where
  "teardown_peer peer s = s\<lparr>peer_pipes := AList.delete peer (peer_pipes s),
     cs_tracker := remove_peer peer (cs_tracker s), valid_peers := valid_peers s - {peer}\<rparr>"

definition all_peers :: "'ff cap_server \<Rightarrow> peer_id set" where
  "all_peers s = set (map fst (peer_pipes s))"

definition connected_peers :: "'ff cap_server \<Rightarrow> nat" where
  "connected_peers s = card (valid_peers s)"

text \<open>Arithmetic of \<open>u64\<close>: out of range it panics in a build that checks, and wraps in one that does not.\<close>

definition checked :: "bool \<Rightarrow> bool \<Rightarrow> u64 \<Rightarrow> ('e, u64) outcome" where
  "checked check fits v = (if check \<and> \<not> fits then Panic else Ok v)"

definition u64_add :: "bool \<Rightarrow> u64 \<Rightarrow> u64 \<Rightarrow> ('e, u64) outcome" where
  "u64_add check a b = checked check (unat a + unat b < 2 ^ 64) (a + b)"

definition u64_mul :: "bool \<Rightarrow> u64 \<Rightarrow> u64 \<Rightarrow> ('e, u64) outcome" where
  "u64_mul check a b = checked check (unat a * unat b < 2 ^ 64) (a * b)"

definition u64_sub :: "bool \<Rightarrow> u64 \<Rightarrow> u64 \<Rightarrow> ('e, u64) outcome" where
  "u64_sub check a b = checked check (unat b \<le> unat a) (a - b)"

text \<open>
  A vector for so many items is reserved at once, and panics when it has more bytes than an \<open>isize\<close> has
  values. That the memory is there is not modelled.
\<close>

definition vec_fits :: "nat \<Rightarrow> nat \<Rightarrow> bool" where
  "vec_fits item_size n \<longleftrightarrow> item_size * n < 2 ^ 63"

fun map_outcome :: "('a \<Rightarrow> ('e, 'b) outcome) \<Rightarrow> 'a list \<Rightarrow> ('e, 'b list) outcome" where
  "map_outcome f [] = Ok []"
| "map_outcome f (x # xs) = bind_outcome (f x) (\<lambda>y. bind_outcome (map_outcome f xs) (\<lambda>ys. Ok (y # ys)))"

text \<open>The numbers of the headers asked for, from an anchor: the closure for one of them, and all of them.\<close>

definition header_number :: "bool \<Rightarrow> u64 \<Rightarrow> get_block_headers \<Rightarrow> nat \<Rightarrow> ('e, u64) outcome" where
  "header_number check anchor selector i =
     bind_outcome (u64_add check (gb_skip selector) 1) (\<lambda>skip.
     bind_outcome (u64_mul check skip (word_of_nat i)) (\<lambda>offset.
     if gb_reverse selector then u64_sub check anchor offset else u64_add check anchor offset))"

definition header_numbers :: "bool \<Rightarrow> u64 \<Rightarrow> get_block_headers \<Rightarrow> ('e, u64 list) outcome" where
  "header_numbers check anchor selector =
     (if vec_fits 8 (unat (gb_max_headers selector))
      then map_outcome (header_number check anchor selector) [0 ..< unat (gb_max_headers selector)]
      else Panic)"

text \<open>The block the numbers start from: none when the provider does not know it or fails.\<close>

definition query_anchor :: "('ff, 'fid) cap_env \<Rightarrow> get_block_headers \<Rightarrow> (disconnect_reason, u64 option) outcome" where
  "query_anchor env selector =
     (case gb_block selector of
        BNumber num \<Rightarrow> Ok (Some num)
      | BHash hash \<Rightarrow> (case env_resolve env hash of Ok height \<Rightarrow> Ok height | Err _ \<Rightarrow> Ok None | Panic \<Rightarrow> Panic))"

definition requested_numbers :: "('ff, 'fid) cap_env \<Rightarrow> get_block_headers \<Rightarrow> (disconnect_reason, u64 list) outcome" where
  "requested_numbers env selector =
     bind_outcome (query_anchor env selector) (\<lambda>anchor.
     case anchor of None \<Rightarrow> Ok [] | Some num \<Rightarrow> header_numbers (bd_checked (env_build env)) num selector)"

text \<open>The results up to the first error.\<close>

fun until_error :: "'a option list \<Rightarrow> 'a list" where
  "until_error [] = []"
| "until_error (None # xs) = []"
| "until_error (Some x # xs) = x # until_error xs"

text \<open>A \<open>BlockId\<close> is a hash of 32 bytes or a number, with its tag.\<close>

definition BLOCK_ID_SIZE :: nat where "BLOCK_ID_SIZE = 40"

text \<open>
  The answer to a request for headers: the ids of the blocks are collected for the provider, and a vector
  for as many headers is reserved before any of them comes.
\<close>

definition answer_headers :: "('ff, 'fid) cap_env \<Rightarrow> bytes \<Rightarrow> (disconnect_reason, message) outcome" where
  "answer_headers env data =
     bind_outcome (of_option ProtocolBreach (get_block_headers_decode (env_rlp env) data)) (\<lambda>selector.
     bind_outcome (requested_numbers env selector) (\<lambda>selector.
     if vec_fits BLOCK_ID_SIZE (length selector) \<and> vec_fits (bd_header_size (env_build env)) (length selector)
     then let output = until_error (env_headers env (map BNumber selector))
          in Ok \<lparr>msg_id = mid_to_usize BlockHeaders, msg_data = rl_out (env_rlp env) (RList output)\<rparr>
     else Panic))"

definition answer_bodies :: "('ff, 'fid) cap_env \<Rightarrow> bytes \<Rightarrow> (disconnect_reason, message) outcome" where
  "answer_bodies env data =
     bind_outcome (of_option ProtocolBreach
       (Option.bind (rl_list (env_rlp env) data) (\<lambda>xs. those (map (rl_hash (env_rlp env) 32) xs)))) (\<lambda>blocks.
     let output = List.map_filter id (env_bodies env blocks)
     in Ok \<lparr>msg_id = mid_to_usize BlockBodies, msg_data = rl_out (env_rlp env) (RList output)\<rparr>)"

text \<open>\<open>handle_event\<close>: the reply or the reason to disconnect, and what is forwarded to the control service.\<close>

definition handle_status :: "('ff, 'fid) cap_env \<Rightarrow> peer_id \<Rightarrow> bytes
    \<Rightarrow> ('ff cap_server, disconnect_reason, message option) st" where
  "handle_status env peer data =
     st_bind (st_lift (of_option ProtocolBreach (status_decode (env_rlp env) (env_fork env) data))) (\<lambda>v.
     st_bind st_get (\<lambda>s.
     case cs_status s of
       None \<Rightarrow> st_ret None
     | Some (_, fork_filter) \<Rightarrow>
         if fk_validate (env_fork env) fork_filter (sm_fork_id v)
         then st_bind (st_modify (\<lambda>s. s\<lparr>valid_peers := insert peer (valid_peers s)\<rparr>)) (\<lambda>_. st_ret None)
         else st_lift (Err UselessPeer)))"

definition handle_event :: "('ff, 'fid) cap_env \<Rightarrow> peer_id \<Rightarrow> inbound_event \<Rightarrow> 'ff cap_server
    \<Rightarrow> ((disconnect_reason, message option) outcome \<times> inbound_message list) \<times> 'ff cap_server" where
  "handle_event env peer event s =
     (case event of
        InDisconnect reason \<Rightarrow> ((Ok None, []), teardown_peer peer s)
      | InMessage _ msg \<Rightarrow>
          let valid_peer = peer \<in> valid_peers s;
              data = msg_data msg
          in case mid_from_usize (msg_id msg) of
               None \<Rightarrow> ((Ok None, []), s)
             | Some mid \<Rightarrow>
                 if mid = Status then apfst (\<lambda>r. (r, [])) (handle_status env peer data s)
                 else if mid = GetBlockHeaders \<and> valid_peer
                 then ((bind_outcome (answer_headers env data) (\<lambda>m. Ok (Some m)), []), s)
                 else if mid = GetBlockBodies \<and> valid_peer
                 then ((bind_outcome (answer_bodies env data) (\<lambda>m. Ok (Some m)), []), s)
                 else if (mid = BlockHeaders \<or> mid = BlockBodies \<or> mid = NewBlock \<or> mid = NewBlockHashes) \<and> valid_peer
                 then (case inbound_id_of mid of
                         None \<Rightarrow> ((Panic, []), s)
                       | Some i \<Rightarrow> ((Ok None, [\<lparr>im_id = i, im_data = data, im_peer_id = peer\<rparr>]), s))
                 else if mid = GetPooledTransactions \<and> valid_peer
                 then ((Ok (Some \<lparr>msg_id = mid_to_usize PooledTransactions,
                                  msg_data = rl_out (env_rlp env) (RList [])\<rparr>), []), s)
                 else ((Ok None, []), s))"

section \<open>The capability server interface\<close>

definition first_events :: "('ff, 'fid) cap_env \<Rightarrow> (cap_name \<times> nat) list \<Rightarrow> 'ff cap_server
    \<Rightarrow> (unit, outbound_event list) outcome" where
  "first_events env caps s =
     (case cs_status s of
        Some (status_data, fork_filter) \<Rightarrow>
          bind_outcome (unwrap (map_of caps capability_name)) (\<lambda>version.
          Ok [OutMessage capability_name
                \<lparr>msg_id = mid_to_usize Status,
                 msg_data = rl_out (env_rlp env) (status_rlp (env_fork env)
                   \<lparr>sm_protocol_version = version, sm_network_id = sd_network_id status_data,
                    sm_total_difficulty = sd_total_difficulty status_data,
                    sm_best_hash = sd_best_hash status_data,
                    sm_genesis_hash = fk_genesis (sd_fork_data status_data),
                    sm_fork_id = fk_current (env_fork env) fork_filter\<rparr>)\<rparr>])
      | None \<Rightarrow> Ok [OutDisconnect DisconnectRequested])"

definition on_peer_connect :: "('ff, 'fid) cap_env \<Rightarrow> peer_id \<Rightarrow> (cap_name \<times> nat) list
    \<Rightarrow> ('ff cap_server, unit, unit) st" where
  "on_peer_connect env peer caps =
     st_bind st_get (\<lambda>s.
     st_bind (st_lift (first_events env caps s)) (\<lambda>first.
     setup_peer peer \<lparr>pp_first = first, pp_queue = []\<rparr>))"

text \<open>\<open>on_peer_event\<close> up to the \<open>send\<close>: \<open>sender(peer).unwrap()\<close> panics for a peer without pipes.\<close>

definition on_peer_event :: "('ff, 'fid) cap_env \<Rightarrow> peer_id \<Rightarrow> inbound_event \<Rightarrow> 'ff cap_server
    \<Rightarrow> ((unit, outbound_event option) outcome \<times> inbound_message list) \<times> 'ff cap_server" where
  "on_peer_event env peer event s =
     (let ((r, fwd), s) = handle_event env peer event s;
          ev = (case r of
                  Ok None \<Rightarrow> Ok None
                | Ok (Some m) \<Rightarrow> Ok (Some (OutMessage capability_name m))
                | Err reason \<Rightarrow> Ok (Some (OutDisconnect reason))
                | Panic \<Rightarrow> Panic)
      in ((bind_outcome ev (\<lambda>e. if e \<noteq> None \<and> get_pipes peer s = None then Panic else Ok e), fwd), s))"

text \<open>The channel of a peer has room for one event; a send into a full one waits (\<open>None\<close>).\<close>

definition pipe_send :: "peer_id \<Rightarrow> outbound_event \<Rightarrow> 'ff cap_server \<Rightarrow> 'ff cap_server option" where
  "pipe_send peer ev s =
     (case get_pipes peer s of
        None \<Rightarrow> Some s
      | Some p \<Rightarrow>
          if pp_queue p = []
          then Some (s\<lparr>peer_pipes := AList.update peer (p\<lparr>pp_queue := [ev]\<rparr>) (peer_pipes s)\<rparr>)
          else None)"

text \<open>\<open>next\<close>: the first events, then those of the channel; \<open>Ok None\<close> waits for one.\<close>

definition next_event :: "peer_id \<Rightarrow> ('ff cap_server, unit, outbound_event option) st" where
  "next_event peer =
     st_bind st_get (\<lambda>s.
     st_bind (st_lift (unwrap (get_pipes peer s))) (\<lambda>p.
     case pp_first p of
       ev # evs \<Rightarrow>
         st_bind (st_modify (\<lambda>s. s\<lparr>peer_pipes := AList.update peer (p\<lparr>pp_first := evs\<rparr>) (peer_pipes s)\<rparr>)) (\<lambda>_.
         st_ret (Some ev))
     | [] \<Rightarrow>
         (case pp_queue p of
            ev # evs \<Rightarrow>
              st_bind (st_modify (\<lambda>s. s\<lparr>peer_pipes := AList.update peer (p\<lparr>pp_queue := evs\<rparr>) (peer_pipes s)\<rparr>)) (\<lambda>_.
              st_ret (Some ev))
          | [] \<Rightarrow> st_ret None)))"

text \<open>
  One round of the status updater: the status of the control service, else of the data provider. A panic
  ends the task, and the status stays as it is.
\<close>

definition fetch_status :: "('ff, 'fid) cap_env \<Rightarrow> (unit, status_data) outcome \<Rightarrow> (unit, status_data) outcome
    \<Rightarrow> (unit, status_data \<times> 'ff) outcome" where
  "fetch_status env control_status provider_status =
     bind_outcome (case control_status of Err _ \<Rightarrow> provider_status | r \<Rightarrow> r) (\<lambda>status_data.
     bind_outcome (env_resolve env (sd_best_hash status_data)) (\<lambda>height.
     bind_outcome (of_option () height) (\<lambda>best_block.
     Ok (status_data, fk_new (env_fork env) best_block (fk_genesis (sd_fork_data status_data))
                        (fk_forks (sd_fork_data status_data))))))"

definition update_status :: "('ff, 'fid) cap_env \<Rightarrow> (unit, status_data) outcome \<Rightarrow> (unit, status_data) outcome
    \<Rightarrow> 'ff cap_server \<Rightarrow> 'ff cap_server" where
  "update_status env control_status provider_status s =
     s\<lparr>cs_status := (case fetch_status env control_status provider_status of
        Ok v \<Rightarrow> Some v | Err _ \<Rightarrow> None | Panic \<Rightarrow> cs_status s)\<rparr>"

section \<open>The contract of a capability server\<close>

text \<open>
  What the swarm promises and expects of the \<open>CapabilityServer\<close> trait: it announces a peer once
  until it has reported its disconnect, and then no call for a known peer panics, but for messages that
  the server cannot take.
\<close>

datatype server_call = CallConnect peer_id "(cap_name \<times> nat) list" | CallEvent peer_id inbound_event | CallNext peer_id

fun well_ordered :: "((cap_name \<times> nat) list \<Rightarrow> bool) \<Rightarrow> (message \<Rightarrow> bool) \<Rightarrow> peer_id set \<Rightarrow> server_call list \<Rightarrow> bool" where
  "well_ordered cok mok K [] \<longleftrightarrow> True"
| "well_ordered cok mok K (CallConnect p caps # cs) \<longleftrightarrow> p \<notin> K \<and> cok caps \<and> well_ordered cok mok (insert p K) cs"
| "well_ordered cok mok K (CallEvent p (InMessage c m) # cs) \<longleftrightarrow> p \<in> K \<and> mok m \<and> well_ordered cok mok K cs"
| "well_ordered cok mok K (CallEvent p (InDisconnect r) # cs) \<longleftrightarrow> well_ordered cok mok (K - {p}) cs"
| "well_ordered cok mok K (CallNext p # cs) \<longleftrightarrow> p \<in> K \<and> well_ordered cok mok K cs"

text \<open>The calls one after the other; a panic ends the run.\<close>

fun server_call_run :: "(peer_id \<Rightarrow> (cap_name \<times> nat) list \<Rightarrow> ('s, unit, unit) st)
    \<Rightarrow> (peer_id \<Rightarrow> inbound_event \<Rightarrow> ('s, unit, outbound_event option) st)
    \<Rightarrow> (peer_id \<Rightarrow> ('s, unit, outbound_event option) st)
    \<Rightarrow> server_call \<Rightarrow> ('s, unit, outbound_event option) st" where
  "server_call_run con evt nxt (CallConnect p caps) = st_bind (con p caps) (\<lambda>_. st_ret None)"
| "server_call_run con evt nxt (CallEvent p e) = evt p e"
| "server_call_run con evt nxt (CallNext p) = nxt p"

fun server_run :: "(server_call \<Rightarrow> ('s, unit, outbound_event option) st) \<Rightarrow> server_call list \<Rightarrow> 's
    \<Rightarrow> (unit, outbound_event option list) outcome \<times> 's" where
  "server_run call [] s = (Ok [], s)"
| "server_run call (c # cs) s =
     (case call c s of
        (Ok r, s') \<Rightarrow> apfst (\<lambda>x. bind_outcome x (\<lambda>rs. Ok (r # rs))) (server_run call cs s')
      | (Err e, s') \<Rightarrow> (Err e, s')
      | (Panic, s') \<Rightarrow> (Panic, s'))"

locale capability_server =
  fixes con :: "peer_id \<Rightarrow> (cap_name \<times> nat) list \<Rightarrow> ('s, unit, unit) st"
    and evt :: "peer_id \<Rightarrow> inbound_event \<Rightarrow> ('s, unit, outbound_event option) st"
    and nxt :: "peer_id \<Rightarrow> ('s, unit, outbound_event option) st"
    and known :: "'s \<Rightarrow> peer_id set"
    and ok :: "'s \<Rightarrow> bool"
    and caps_ok :: "(cap_name \<times> nat) list \<Rightarrow> bool"
    and msg_ok :: "message \<Rightarrow> bool"
  assumes con_ok: "ok s \<Longrightarrow> p \<notin> known s \<Longrightarrow> caps_ok caps \<Longrightarrow>
      \<exists>s'. con p caps s = (Ok (), s') \<and> ok s' \<and> known s' = insert p (known s)"
    and message_ok: "ok s \<Longrightarrow> p \<in> known s \<Longrightarrow> msg_ok m \<Longrightarrow>
      \<exists>r s'. evt p (InMessage c m) s = (Ok r, s') \<and> ok s' \<and> known s' = known s"
    and disconnect_ok: "ok s \<Longrightarrow>
      \<exists>s'. evt p (InDisconnect reason) s = (Ok None, s') \<and> ok s' \<and> known s' = known s - {p}"
    and next_ok: "ok s \<Longrightarrow> p \<in> known s \<Longrightarrow> \<exists>r s'. nxt p s = (Ok r, s') \<and> ok s' \<and> known s' = known s"
begin

lemma call_ok:
  assumes "ok s" "well_ordered caps_ok msg_ok (known s) (c # cs)"
  shows "\<exists>r s'. server_call_run con evt nxt c s = (Ok r, s') \<and> ok s' \<and> well_ordered caps_ok msg_ok (known s') cs"
proof (cases c)
  case (CallConnect p caps)
  then show ?thesis using con_ok [OF assms(1), of p caps] assms(2) by (auto simp: st_bind_def)
next
  case (CallEvent p e)
  show ?thesis
  proof (cases e)
    case (InDisconnect r)
    then show ?thesis using disconnect_ok [OF assms(1), of p r] assms(2) CallEvent by auto
  next
    case (InMessage n m)
    then show ?thesis using message_ok [OF assms(1), of p m n] assms(2) CallEvent by auto
  qed
next
  case (CallNext p)
  then show ?thesis using next_ok [OF assms(1), of p] assms(2) by auto
qed

lemma run_ok:
  assumes "ok s" "well_ordered caps_ok msg_ok (known s) cs"
  shows "\<exists>rs s'. server_run (server_call_run con evt nxt) cs s = (Ok rs, s') \<and> length rs = length cs \<and> ok s'"
  using assms
proof (induction cs arbitrary: s)
  case Nil
  then show ?case by simp
next
  case (Cons c cs)
  obtain r s' where c: "server_call_run con evt nxt c s = (Ok r, s')" "ok s'" "well_ordered caps_ok msg_ok (known s') cs"
    using call_ok [OF Cons.prems] by blast
  from Cons.IH [OF c(2,3)] c(1) show ?case by auto
qed

end

section \<open>The invariant of the server\<close>

text \<open>
  The pipes and the tracker know the same peers, valid peers are among them, and every block number
  in the tracker is 0: nothing in the program sets another.
\<close>

definition server_inv :: "'ff cap_server \<Rightarrow> bool" where
  "server_inv s \<longleftrightarrow> tracker_inv (cs_tracker s) \<and>
     map_of (block_by_peer (cs_tracker s)) = (\<lambda>p. if p \<in> all_peers s then Some 0 else None) \<and>
     valid_peers s \<subseteq> all_peers s"

lemma all_peers_simps [simp]:
  "all_peers (s\<lparr>cs_tracker := t\<rparr>) = all_peers s"
  "all_peers (s\<lparr>valid_peers := v\<rparr>) = all_peers s"
  "all_peers (s\<lparr>cs_status := v'\<rparr>) = all_peers s"
  "all_peers (s\<lparr>peer_pipes := AList.update p x (peer_pipes s)\<rparr>) = insert p (all_peers s)"
  "all_peers (s\<lparr>peer_pipes := AList.delete p (peer_pipes s)\<rparr>) = all_peers s - {p}"
  by (simp_all add: all_peers_def dom_update delete_keys)

lemma get_pipes_iff: "get_pipes p s = None \<longleftrightarrow> p \<notin> all_peers s"
  by (simp add: get_pipes_def all_peers_def map_of_eq_None_iff)

lemma all_peers_teardown [simp]: "all_peers (teardown_peer p s) = all_peers s - {p}"
  by (simp add: teardown_peer_def)

lemma teardown_inv: "server_inv s \<Longrightarrow> server_inv (teardown_peer p s)"
  unfolding server_inv_def all_peers_teardown
  by (auto simp: teardown_peer_def remove_peer_inv fun_eq_iff)

lemma setup_peer_ok:
  assumes "server_inv s" "p \<notin> all_peers s"
  shows "\<exists>s'. setup_peer p x s = (Ok (), s') \<and> server_inv s' \<and> all_peers s' = insert p (all_peers s)"
proof -
  have "map_of (peer_pipes s) p = None" using assms(2) get_pipes_iff [of p s] by (simp add: get_pipes_def)
  then have "setup_peer p x s = (Ok (), s\<lparr>peer_pipes := AList.update p x (peer_pipes s),
      cs_tracker := set_block_number p 0 (cs_tracker s)\<rparr>)" (is "_ = (_, ?s)")
    by (simp add: setup_peer_def)
  moreover have "all_peers ?s = insert p (all_peers s)" by simp
  moreover have "server_inv ?s"
    using assms(1) unfolding server_inv_def \<open>all_peers ?s = insert p (all_peers s)\<close>
    by (auto simp: set_block_number_inv set_block_number_after_remove(2) fun_eq_iff)
  ultimately show ?thesis by blast
qed

lemma on_peer_connect_ok:
  assumes "server_inv s" "p \<notin> all_peers s" "map_of caps capability_name \<noteq> None"
  shows "\<exists>s'. on_peer_connect env p caps s = (Ok (), s') \<and> server_inv s' \<and> all_peers s' = insert p (all_peers s)"
proof -
  obtain evs where "first_events env caps s = Ok evs"
    using assms(3) by (cases "cs_status s") (auto simp: first_events_def)
  then show ?thesis using setup_peer_ok [OF assms(1,2)] by (simp add: on_peer_connect_def)
qed

lemma inv_keep [simp]:
  "server_inv (s\<lparr>cs_status := v\<rparr>) = server_inv s"
  "p \<in> all_peers s \<Longrightarrow> server_inv (s\<lparr>peer_pipes := AList.update p x (peer_pipes s)\<rparr>) = server_inv s"
  by (simp_all add: server_inv_def insert_absorb)

text \<open>
  The requests for headers that can be answered: the numbers fit the vectors they are collected in, and
  in a build that checks all of them are in range.
\<close>

definition in_range :: "u64 \<Rightarrow> get_block_headers \<Rightarrow> bool" where
  "in_range anchor g \<longleftrightarrow> (\<forall>i < unat (gb_max_headers g). unat (gb_skip g) + 1 < 2 ^ 64 \<and>
     (if gb_reverse g then (unat (gb_skip g) + 1) * i \<le> unat anchor
      else unat anchor + (unat (gb_skip g) + 1) * i < 2 ^ 64))"

definition query_fits :: "build \<Rightarrow> get_block_headers \<Rightarrow> bool" where
  "query_fits bd g \<longleftrightarrow> (\<forall>item_size \<in> {8, BLOCK_ID_SIZE, bd_header_size bd}. vec_fits item_size (unat (gb_max_headers g)))"

definition query_served :: "('ff, 'fid) cap_env \<Rightarrow> get_block_headers \<Rightarrow> bool" where
  "query_served env g \<longleftrightarrow>
     (case query_anchor env g of
        Ok (Some anchor) \<Rightarrow> query_fits (env_build env) g \<and> (bd_checked (env_build env) \<longrightarrow> in_range anchor g)
      | Ok None \<Rightarrow> True
      | _ \<Rightarrow> False)"

definition message_served :: "('ff, 'fid) cap_env \<Rightarrow> message \<Rightarrow> bool" where
  "message_served env m \<longleftrightarrow>
     (if mid_from_usize (msg_id m) = Some GetBlockHeaders
      then (case get_block_headers_decode (env_rlp env) (msg_data m) of None \<Rightarrow> True | Some g \<Rightarrow> query_served env g)
      else True)"

lemma map_outcome_Ok: "map_outcome (\<lambda>x. Ok (f x)) xs = Ok (map f xs)"
  by (induction xs) simp_all

lemma map_outcome_cases:
  "\<forall>x \<in> set xs. f x = (if P x then Ok (g x) else Panic) \<Longrightarrow>
   map_outcome f xs = (if \<forall>x \<in> set xs. P x then Ok (map g xs) else Panic)"
  by (induction xs) auto

lemma header_number_unchecked:
  "header_number False anchor g =
    (\<lambda>i. Ok (if gb_reverse g then anchor - (gb_skip g + 1) * word_of_nat i else anchor + (gb_skip g + 1) * word_of_nat i))"
  by (rule ext) (simp add: header_number_def u64_add_def u64_mul_def u64_sub_def checked_def)

text \<open>Whether the \<open>i\<close>-th number is in range.\<close>

definition number_in_range :: "u64 \<Rightarrow> get_block_headers \<Rightarrow> nat \<Rightarrow> bool" where
  "number_in_range anchor g i \<longleftrightarrow> unat (gb_skip g) + 1 < 2 ^ 64 \<and>
     (if gb_reverse g then (unat (gb_skip g) + 1) * i \<le> unat anchor
      else unat anchor + (unat (gb_skip g) + 1) * i < 2 ^ 64)"

lemma in_range_iff: "in_range anchor g \<longleftrightarrow> (\<forall>i \<in> set [0 ..< unat (gb_max_headers g)]. number_in_range anchor g i)"
  by (auto simp: in_range_def number_in_range_def)

lemma header_number_checked:
  assumes "i < 2 ^ 64"
  shows "(header_number True anchor g i :: ('e, u64) outcome) =
    (if number_in_range anchor g i
     then Ok (if gb_reverse g then anchor - (gb_skip g + 1) * word_of_nat i else anchor + (gb_skip g + 1) * word_of_nat i)
     else Panic)"
proof (cases "unat (gb_skip g) + 1 < 2 ^ 64")
  case False
  then show ?thesis by (simp add: header_number_def u64_add_def checked_def number_in_range_def)
next
  case True
  let ?d = "(unat (gb_skip g) + 1) * i" and ?o = "(gb_skip g + 1) * word_of_nat i"
  have small: "unat (word_of_nat k :: u64) = k" if "k < 2 ^ 64" for k
    using that by (simp add: unat_of_nat take_bit_eq_mod)
  have s: "unat (gb_skip g + 1) = unat (gb_skip g) + 1" using True unat_add_lem [of "gb_skip g" 1] by simp
  have "?o = (word_of_nat ?d :: u64)" by (simp add: distrib_right)
  then have o: "unat ?o = ?d" if "?d < 2 ^ 64" using small [OF that] by simp
  have add: "(u64_add True (gb_skip g) 1 :: ('e, u64) outcome) = Ok (gb_skip g + 1)" using True by (simp add: u64_add_def checked_def)
  have mul: "(u64_mul True (gb_skip g + 1) (word_of_nat i) :: ('e, u64) outcome) = (if ?d < 2 ^ 64 then Ok ?o else Panic)"
    unfolding u64_mul_def checked_def s small [OF assms] by (simp only: simp_thms if_not_P split: if_split) simp
  show ?thesis
  proof (cases "?d < 2 ^ 64")
    case d: True
    show ?thesis
      unfolding header_number_def add bind_outcome.simps mul if_P [OF d]
      unfolding u64_sub_def u64_add_def checked_def o [OF d] number_in_range_def
      using True by (auto simp del: add_mult_distrib distrib_right)
  next
    case False
    then have "\<not> number_in_range anchor g i"
      using unat_u64_less [of anchor] by (auto simp: number_in_range_def simp del: add_mult_distrib distrib_right)
    then show ?thesis
      unfolding header_number_def add bind_outcome.simps mul if_not_P [OF False] by simp
  qed
qed

text \<open>The numbers without the checks.\<close>

definition number_list :: "u64 \<Rightarrow> get_block_headers \<Rightarrow> u64 list" where
  "number_list anchor g =
     map (\<lambda>i. if gb_reverse g then anchor - (gb_skip g + 1) * word_of_nat i else anchor + (gb_skip g + 1) * word_of_nat i)
       [0 ..< unat (gb_max_headers g)]"

lemma header_numbers_eq:
  "(header_numbers check anchor g :: ('e, u64 list) outcome) =
     (if vec_fits 8 (unat (gb_max_headers g)) \<and> (check \<longrightarrow> in_range anchor g) then Ok (number_list anchor g) else Panic)"
proof (cases check)
  case True
  have less: "i < 2 ^ 64" if "i \<in> set [0 ..< unat (gb_max_headers g)]" for i
    using that unat_u64_less [of "gb_max_headers g"] by simp
  have "(map_outcome (header_number True anchor g) [0 ..< unat (gb_max_headers g)] :: ('e, u64 list) outcome) =
      (if in_range anchor g then Ok (number_list anchor g) else Panic)"
    unfolding in_range_iff number_list_def by (rule map_outcome_cases) (use header_number_checked less in blast)
  then show ?thesis using True by (simp add: header_numbers_def)
next
  case False
  then show ?thesis
    by (simp add: header_numbers_def number_list_def header_number_unchecked map_outcome_Ok)
qed

lemma header_numbers_OkD:
  assumes "header_numbers check anchor g = Ok ns"
  shows "ns = number_list anchor g" "length ns = unat (gb_max_headers g)"
  using assms by (auto simp: header_numbers_eq number_list_def split: if_splits)

lemma query_anchor_no_err: "query_anchor env g \<noteq> Err e"
  by (simp add: query_anchor_def split: block_id.split outcome.split)

lemma answer_headers_panics:
  assumes "get_block_headers_decode (env_rlp env) data = Some g"
  shows "answer_headers env data = Panic \<longleftrightarrow> \<not> query_served env g"
proof -
  have len: "length (number_list anchor g) = unat (gb_max_headers g)" for anchor by (simp add: number_list_def)
  have none: "vec_fits k 0" for k by (simp add: vec_fits_def)
  show ?thesis
    using assms len none query_anchor_no_err [of env g]
    by (cases "query_anchor env g")
       (auto simp: answer_headers_def requested_numbers_def header_numbers_eq query_served_def query_fits_def Let_def
         split: option.split)
qed

text \<open>What a message can change: the set of valid peers, by a status message.\<close>

lemma handle_message_state:
  assumes "handle_event env p (InMessage c m) s = (r, s')"
  shows "(fst r = Panic \<longleftrightarrow> p \<in> valid_peers s \<and> \<not> message_served env m) \<and>
    (s' = s \<or> s' = s\<lparr>valid_peers := insert p (valid_peers s)\<rparr>)"
proof -
  have "answer_bodies env d \<noteq> Panic" for d
    by (cases "Option.bind (rl_list (env_rlp env) d) (\<lambda>xs. those (map (rl_hash (env_rlp env) 32) xs))")
       (simp_all add: answer_bodies_def Let_def)
  moreover have lift: "bind_outcome x (\<lambda>m. Ok (Some m)) = Panic \<longleftrightarrow> x = Panic" for x :: "(disconnect_reason, message) outcome"
    by (cases x) simp_all
  moreover have headers: "answer_headers env (msg_data m) = Panic \<longleftrightarrow> \<not> message_served env m"
    if "mid_from_usize (msg_id m) = Some GetBlockHeaders"
    using that answer_headers_panics [of env "msg_data m"]
    by (cases "get_block_headers_decode (env_rlp env) (msg_data m)") (simp_all add: message_served_def answer_headers_def)
  moreover have served: "message_served env m" if "mid_from_usize (msg_id m) \<noteq> Some GetBlockHeaders"
    using that by (simp add: message_served_def)
  ultimately have h: "bind_outcome (answer_bodies env d) (\<lambda>m. Ok (Some m)) \<noteq> Panic" for d by blast
  have st: "fst (handle_status env p d s) \<noteq> Panic \<and> (snd (handle_status env p d s) = s \<or>
      snd (handle_status env p d s) = s\<lparr>valid_peers := insert p (valid_peers s)\<rparr>)" for d
    by (cases "status_decode (env_rlp env) (env_fork env) d"; cases "cs_status s")
       (auto simp: handle_status_def st_bind_def split: if_splits)
  show ?thesis
  proof (cases "mid_from_usize (msg_id m)")
    case None
    then show ?thesis using assms served by (auto simp: handle_event_def)
  next
    case (Some mid)
    consider "mid = Status" | "mid = GetBlockHeaders" | "mid \<noteq> Status" "mid \<noteq> GetBlockHeaders" by blast
    then show ?thesis
    proof cases
      case 1
      then have "message_served env m" using served Some by simp
      then show ?thesis using assms Some 1 st [of "msg_data m"]
        by (cases "handle_status env p (msg_data m) s") (auto simp: handle_event_def)
    next
      case 2
      then have "(r, s') = (if p \<in> valid_peers s then ((bind_outcome (answer_headers env (msg_data m)) (\<lambda>m. Ok (Some m)), []), s)
          else ((Ok None, []), s))"
        unfolding assms [symmetric] by (simp add: handle_event_def Some Let_def)
      moreover have "answer_headers env (msg_data m) = Panic \<longleftrightarrow> \<not> message_served env m" using headers Some 2 by simp
      ultimately show ?thesis by (simp add: lift split: if_splits)
    next
      case 3
      then have "message_served env m" using served Some by simp
      then show ?thesis using assms Some 3 h [of "msg_data m"]
        by (auto simp: handle_event_def Let_def split: if_splits)
    qed
  qed
qed

definition server_event :: "('ff, 'fid) cap_env \<Rightarrow> peer_id \<Rightarrow> inbound_event
    \<Rightarrow> ('ff cap_server, unit, outbound_event option) st" where
  "server_event env p e s = apfst fst (on_peer_event env p e s)"

lemma server_message_state:
  assumes "server_inv s" "p \<in> all_peers s" "server_event env p (InMessage c m) s = (r, s')"
  shows "server_inv s'" "all_peers s' = all_peers s"
    and "r = Panic \<longleftrightarrow> p \<in> valid_peers s \<and> \<not> message_served env m" and "\<forall>e. r \<noteq> Err e"
proof -
  obtain h s1 where h: "handle_event env p (InMessage c m) s = (h, s1)" by fastforce
  note st = handle_message_state [OF h]
  have s1: "all_peers s1 = all_peers s" "server_inv s1" using st assms(1,2) by (auto simp: server_inv_def)
  then have pipes: "get_pipes p s1 \<noteq> None" using assms(2) by (simp add: get_pipes_iff)
  have r: "s' = s1" "r = Panic \<longleftrightarrow> fst h = Panic" "\<forall>e. r \<noteq> Err e"
    using assms(3) h pipes by (cases "fst h"; auto simp: server_event_def on_peer_event_def split: option.splits prod.splits)+
  then show "server_inv s'" "all_peers s' = all_peers s" "r = Panic \<longleftrightarrow> p \<in> valid_peers s \<and> \<not> message_served env m"
    "\<forall>e. r \<noteq> Err e"
    using st s1 by simp_all
qed

lemma server_message_ok:
  assumes "server_inv s" "p \<in> all_peers s" "message_served env m"
  shows "\<exists>r s'. server_event env p (InMessage c m) s = (Ok r, s') \<and> server_inv s' \<and> all_peers s' = all_peers s"
proof -
  obtain r s' where e: "server_event env p (InMessage c m) s = (r, s')" by fastforce
  note st = server_message_state [OF assms(1,2) e]
  then show ?thesis using e assms(3) by (cases r) auto
qed

lemma server_disconnect_ok:
  assumes "server_inv s"
  shows "\<exists>s'. server_event env p (InDisconnect r) s = (Ok None, s') \<and> server_inv s' \<and> all_peers s' = all_peers s - {p}"
  using teardown_inv [OF assms, of p] by (simp add: server_event_def on_peer_event_def handle_event_def)

lemma next_event_ok:
  assumes "server_inv s" "p \<in> all_peers s"
  shows "\<exists>r s'. next_event p s = (Ok r, s') \<and> server_inv s' \<and> all_peers s' = all_peers s"
proof -
  obtain x where x: "get_pipes p s = Some x" using assms(2) get_pipes_iff [of p s] by auto
  show ?thesis using x assms
    by (cases "pp_first x"; cases "pp_queue x") (simp_all add: next_event_def insert_absorb)
qed

interpretation cap_srv: capability_server "on_peer_connect env" "server_event env" next_event all_peers server_inv
  "\<lambda>caps. map_of caps capability_name \<noteq> None" "message_served env" for env :: "('ff, 'fid) cap_env"
  by unfold_locales
     (rule on_peer_connect_ok server_message_ok server_disconnect_ok next_event_ok; assumption)+

text \<open>
  C19. When the server panics. Under the discipline of the swarm, by which a peer is announced with the
  \<open>eth\<close> capability and not again before its disconnect is reported, and messages are passed and events
  fetched only in between, every call of a run returns and the invariant holds at its end, as long as all
  requests for headers can be served: their numbers fit the vectors they are collected in, and are in
  range in a build that checks arithmetic. That is the exact condition: a message makes the server panic
  just when it is another request for headers, from a valid peer.
\<close>

theorem server_no_panic:
  assumes "server_inv s" "well_ordered (\<lambda>caps. map_of caps capability_name \<noteq> None) (message_served env) (all_peers s) cs"
  shows "(\<exists>rs s'. server_run (server_call_run (on_peer_connect env) (server_event env) next_event) cs s = (Ok rs, s') \<and>
      length rs = length cs \<and> server_inv s') \<and>
    (\<forall>p c m. p \<in> all_peers s \<longrightarrow>
      (fst (server_event env p (InMessage c m) s) = Panic \<longleftrightarrow> p \<in> valid_peers s \<and> \<not> message_served env m))"
proof (intro conjI allI impI)
  show "\<exists>rs s'. server_run (server_call_run (on_peer_connect env) (server_event env) next_event) cs s = (Ok rs, s') \<and>
      length rs = length cs \<and> server_inv s'"
    using assms by (rule cap_srv.run_ok)
  show "fst (server_event env p (InMessage c m) s) = Panic \<longleftrightarrow> p \<in> valid_peers s \<and> \<not> message_served env m"
    if "p \<in> all_peers s" for p c m
    using server_message_state(3) [OF assms(1) that] by (metis prod.collapse)
qed

section \<open>Who is served\<close>

lemma served_valid:
  assumes "handle_event env p (InMessage c m) s = ((r, fwd), s')" "p \<notin> valid_peers s"
  shows "(\<forall>reply. r \<noteq> Ok (Some reply)) \<and> fwd = []"
proof -
  have "r \<noteq> Ok (Some reply)" if "handle_status env p d s = (r, s')" for d reply
    using that by (cases "status_decode (env_rlp env) (env_fork env) d"; cases "cs_status s")
       (auto simp: handle_status_def st_bind_def split: if_splits)
  then show ?thesis using assms
    by (auto simp: handle_event_def Let_def apfst_def map_prod_def split: option.splits if_splits prod.splits)
qed

lemma newly_valid:
  assumes "handle_event env p (InMessage c m) s = ((r, fwd), s')" "q \<in> valid_peers s'" "q \<notin> valid_peers s"
  shows "q = p \<and> (\<exists>v d ff. msg_id m = 0 \<and> status_decode (env_rlp env) (env_fork env) (msg_data m) = Some v \<and>
     cs_status s = Some (d, ff) \<and> fk_validate (env_fork env) ff (sm_fork_id v))"
proof -
  have mid: "mid_from_usize n = Some Status \<Longrightarrow> n = 0" for n
    by (auto simp: mid_from_usize_def all_message_ids_def split: if_splits)
  have st: "s' \<noteq> s" using assms(2,3) by auto
  have "mid_from_usize (msg_id m) = Some Status \<and> handle_status env p (msg_data m) s = (r, s')"
    using assms(1) st by (auto simp: handle_event_def Let_def apfst_def map_prod_def
        split: option.splits if_splits prod.splits)
  then show ?thesis using st assms(2,3) mid
    by (cases "status_decode (env_rlp env) (env_fork env) (msg_data m)"; cases "cs_status s")
       (auto simp: handle_status_def st_bind_def split: if_splits)
qed

text \<open>
  C8. Only peers that have shown a compatible status are served. A message of any other peer is
  neither answered nor forwarded, and a peer becomes valid in one way only: by a status message whose
  fork identifier the current filter accepts.
\<close>

theorem only_valid_peers_served:
  "case handle_event env p (InMessage c m) s of ((r, fwd), s') \<Rightarrow>
     (p \<in> valid_peers s \<or> (\<forall>reply. r \<noteq> Ok (Some reply)) \<and> fwd = []) \<and>
     valid_peers s' - valid_peers s \<subseteq>
       {q. q = p \<and> (\<exists>v d ff. msg_id m = 0 \<and> status_decode (env_rlp env) (env_fork env) (msg_data m) = Some v \<and>
          cs_status s = Some (d, ff) \<and> fk_validate (env_fork env) ff (sm_fork_id v))}"
proof -
  obtain r fwd s' where h: "handle_event env p (InMessage c m) s = ((r, fwd), s')"
    by (cases "handle_event env p (InMessage c m) s") auto
  show ?thesis using served_valid [OF h] newly_valid [OF h] unfolding h by auto
qed

section \<open>The states the server reaches\<close>

text \<open>\<open>E\<close> holds the environments: the services may answer differently from call to call.\<close>

inductive server_step :: "('ff, 'fid) cap_env set \<Rightarrow> 'ff cap_server \<Rightarrow> 'ff cap_server \<Rightarrow> bool" for E where
  step_connect: "env \<in> E \<Longrightarrow> p \<notin> all_peers s \<Longrightarrow> on_peer_connect env p caps s = (r, s') \<Longrightarrow> server_step E s s'"
| step_message: "env \<in> E \<Longrightarrow> p \<in> all_peers s \<Longrightarrow> server_event env p (InMessage c m) s = (r, s') \<Longrightarrow> server_step E s s'"
| step_disconnect: "env \<in> E \<Longrightarrow> server_event env p (InDisconnect reason) s = (r, s') \<Longrightarrow> server_step E s s'"
| step_send: "pipe_send p ev s = Some s' \<Longrightarrow> server_step E s s'"
| step_next: "p \<in> all_peers s \<Longrightarrow> next_event p s = (r, s') \<Longrightarrow> server_step E s s'"
| step_status: "env \<in> E \<Longrightarrow> server_step E s (update_status env a b s)"

lemma server_step_inv: "server_step E s s' \<Longrightarrow> server_inv s \<Longrightarrow> server_inv s'"
proof (induction rule: server_step.induct)
  case (step_connect env p s caps r s')
  have "server_inv (snd (setup_peer p x s))" for x
    using setup_peer_ok [of s p x] step_connect by auto
  then show ?case using step_connect
    by (cases "first_events env caps s") (auto simp: on_peer_connect_def dest: sndI)
next
  case (step_message env p s c m r s')
  then show ?case using server_message_state(1) by blast
next
  case (step_disconnect env p reason s r s')
  then show ?case using server_disconnect_ok [of s env p reason] by auto
next
  case (step_send p ev s s')
  then show ?case by (auto simp: pipe_send_def get_pipes_iff split: option.splits if_splits)
     (metis get_pipes_iff inv_keep(2) option.distinct(1))
next
  case (step_next p s r s')
  then show ?case using next_event_ok [of s p] by auto
next
  case (step_status s env a b)
  then show ?case by (simp add: update_status_def)
qed

lemma new_server_inv: "server_inv new_cap_server"
  by (simp add: server_inv_def new_cap_server_def empty_tracker_inv all_peers_def fun_eq_iff)
     (simp add: empty_tracker_def)

interpretation server_sys: invariant_system "\<lambda>s. s = new_cap_server" "server_step E" server_inv
  for E :: "('ff, 'fid) cap_env set"
  by unfold_locales (auto simp: new_server_inv server_step_inv)

text \<open>
  Asking for peers by minimal block finds nobody: in every state the server reaches the tracker has the
  connected peers, all of them at block 0.
\<close>

lemma tracker_min_block:
  assumes "reach (\<lambda>s. s = new_cap_server) (server_step E) s"
  shows "peers_with_min_block n (cs_tracker s) = (if n = 0 then all_peers s else {})"
proof -
  have i: "server_inv s" by (rule server_sys.reach_inv [OF assms])
  then show ?thesis using tracker.at_least_blocks [of "cs_tracker s" n]
    by (auto simp: server_inv_def word_le_0_iff)
qed

text \<open>
  C35. A status message handled after the disconnect of its peer leaves the peer valid although it is
  gone, and a malformed one makes the handler panic: the ingress task of a peer can still run when the
  egress task has torn the peer down.
\<close>

theorem late_status_leaks:
  assumes "p \<notin> all_peers s" "cs_status s = Some (d, ff)"
    and "rlp_ok (env_rlp env)" "fork_ok (env_rlp env) (env_fork env)" "status_ok st"
    and "fk_validate (env_fork env) ff (sm_fork_id st)"
  shows "p \<in> valid_peers (snd (server_event env p (InMessage c
          \<lparr>msg_id = 0, msg_data = rl_out (env_rlp env) (status_rlp (env_fork env) st)\<rparr>) s)) \<and>
     (status_decode (env_rlp env) (env_fork env) bad = None \<longrightarrow>
        fst (server_event env p (InMessage c \<lparr>msg_id = 0, msg_data = bad\<rparr>) s) = Panic)"
proof -
  have mid: "mid_from_usize 0 = Some Status" using mid_from_to [of Status] by simp
  have dec: "status_decode (env_rlp env) (env_fork env) (rl_out (env_rlp env) (status_rlp (env_fork env) st)) = Some st"
    using status_codec.dec_enc_whole assms(3-5) by blast
  have "handle_status env p (rl_out (env_rlp env) (status_rlp (env_fork env) st)) s =
      (Ok None, s\<lparr>valid_peers := insert p (valid_peers s)\<rparr>)"
    using assms(2,6) dec by (simp add: handle_status_def)
  moreover have "handle_status env p bad s = (Err ProtocolBreach, s)"
    if "status_decode (env_rlp env) (env_fork env) bad = None"
    using that by (simp add: handle_status_def)
  moreover have "get_pipes p s = None" using assms(1) by (simp add: get_pipes_iff)
  ultimately show ?thesis
    by (simp add: server_event_def on_peer_event_def handle_event_def mid Let_def)
qed

text \<open>
  C1. The first event of a new peer is our status, under the version of \<open>eth\<close> it shares, as long as
  the server has a status; without one the peer is told to disconnect at once.
\<close>

theorem first_event_is_status:
  assumes "server_inv s" "p \<notin> all_peers s" "map_of caps capability_name = Some version"
    and "rlp_ok (env_rlp env)" "fork_ok (env_rlp env) (env_fork env)" "version < 2 ^ 64"
    and "\<forall>d ff. cs_status s = Some (d, ff) \<longrightarrow> sd_total_difficulty d < 2 ^ 256 \<and> length (sd_best_hash d) = 32 \<and>
       length (fk_genesis (sd_fork_data d)) = 32"
    and "on_peer_connect env p caps s = (Ok (), s1)" "next_event p s1 = (Ok (Some ev), s2)"
  shows "case cs_status s of
      None \<Rightarrow> ev = OutDisconnect DisconnectRequested
    | Some (d, ff) \<Rightarrow> \<exists>data st. ev = OutMessage capability_name \<lparr>msg_id = 0, msg_data = data\<rparr> \<and>
        status_decode (env_rlp env) (env_fork env) data = Some st \<and> sm_protocol_version st = version \<and>
        sm_network_id st = sd_network_id d \<and> sm_best_hash st = sd_best_hash d \<and>
        sm_fork_id st = fk_current (env_fork env) ff"
proof -
  have "map_of (peer_pipes s) p = None" using assms(2) get_pipes_iff [of p s] by (simp add: get_pipes_def)
  then have pipes: "\<exists>evs. first_events env caps s = Ok evs \<and> get_pipes p s1 = Some \<lparr>pp_first = evs, pp_queue = []\<rparr>"
    using assms(8) by (cases "first_events env caps s")
       (auto simp: on_peer_connect_def setup_peer_def get_pipes_def update_conv')
  show ?thesis
  proof (cases "cs_status s")
    case None
    then show ?thesis using pipes assms(9) by (auto simp: first_events_def next_event_def)
  next
    case (Some st)
    obtain d ff where st: "st = (d, ff)" by (cases st)
    let ?st = "\<lparr>sm_protocol_version = version, sm_network_id = sd_network_id d,
      sm_total_difficulty = sd_total_difficulty d, sm_best_hash = sd_best_hash d,
      sm_genesis_hash = fk_genesis (sd_fork_data d), sm_fork_id = fk_current (env_fork env) ff\<rparr>"
    have "status_ok ?st" using assms(6,7) Some st by (simp add: status_ok_def)
    then have "status_decode (env_rlp env) (env_fork env) (rl_out (env_rlp env) (status_rlp (env_fork env) ?st)) = Some ?st"
      using status_codec.dec_enc_whole assms(4,5) by blast
    moreover have "ev = OutMessage capability_name \<lparr>msg_id = 0, msg_data = rl_out (env_rlp env) (status_rlp (env_fork env) ?st)\<rparr>"
      using pipes assms(3,9) Some st by (auto simp: first_events_def next_event_def)
    ultimately show ?thesis using Some st by auto
  qed
qed

section \<open>The header query\<close>

text \<open>
  The numbers of a header query. While they fit a vector and the whole range stays within 64 bits, the
  \<open>i\<close>-th number is the anchor plus or minus \<open>i * (skip + 1)\<close>, and there are exactly as many as were
  asked for, in either kind of build.
\<close>

theorem header_numbers_exact:
  assumes "vec_fits 8 (unat (gb_max_headers g))" "in_range anchor g"
  shows "\<exists>ns. (header_numbers check anchor g :: ('e, u64 list) outcome) = Ok ns \<and> length ns = unat (gb_max_headers g) \<and>
     (\<forall>i < length ns. unat (ns ! i) =
       (if gb_reverse g then unat anchor - (unat (gb_skip g) + 1) * i
        else unat anchor + (unat (gb_skip g) + 1) * i))"
proof -
  have nth: "unat (number_list anchor g ! i) =
       (if gb_reverse g then unat anchor - (unat (gb_skip g) + 1) * i else unat anchor + (unat (gb_skip g) + 1) * i)"
    if i: "i < unat (gb_max_headers g)" for i
  proof -
    let ?d = "(unat (gb_skip g) + 1) * i" and ?o = "(gb_skip g + 1) * word_of_nat i"
    have r: "if gb_reverse g then ?d \<le> unat anchor else unat anchor + ?d < 2 ^ 64" using assms(2) i unfolding in_range_def by blast
    have small: "?d < 2 ^ 64" using r unat_u64_less [of anchor] by (auto split: if_splits)
    have "?o = (word_of_nat ?d :: u64)" by (simp add: distrib_right)
    moreover have "unat (word_of_nat k :: u64) = k" if "k < 2 ^ 64" for k
      using that by (simp add: unat_of_nat take_bit_eq_mod)
    from this [OF small] have "unat (word_of_nat ?d :: u64) = ?d" .
    ultimately have d: "unat ?o = ?d" by metis
    have "unat (anchor - ?o) = unat anchor - ?d" if "gb_reverse g"
      using r that d unat_sub [of ?o anchor] by (simp add: word_le_nat_alt)
    moreover have "unat (anchor + ?o) = unat anchor + ?d" if "\<not> gb_reverse g"
      using r that d unat_add_lem [of anchor ?o] by simp
    ultimately show ?thesis using i by (simp add: number_list_def)
  qed
  have len: "length (number_list anchor g) = unat (gb_max_headers g)" by (simp add: number_list_def)
  show ?thesis
    by (rule exI [of _ "number_list anchor g"]) (simp add: header_numbers_eq assms len nth)
qed

text \<open>
  Nothing keeps a query within its range. Asking backwards from a block for more headers than there are
  blocks before it wraps around to the largest block number, for any block; in a build that checks it
  panics.
\<close>

theorem header_numbers_wrap:
  assumes "gb_reverse g" "gb_skip g = 0" "unat anchor + 1 < unat (gb_max_headers g)" "vec_fits 8 (unat (gb_max_headers g))"
  shows "(\<exists>ns. (header_numbers False anchor g :: ('e, u64 list) outcome) = Ok ns \<and> ns ! (unat anchor + 1) = - 1) \<and>
    (header_numbers True anchor g :: ('e, u64 list) outcome) = Panic"
proof -
  have "number_list anchor g ! (unat anchor + 1) = - 1" using assms by (simp add: number_list_def)
  moreover have "\<not> in_range anchor g" using assms(1-3) by (auto simp: in_range_def)
  ultimately show ?thesis using assms(4) by (simp add: header_numbers_eq)
qed

section \<open>Witnesses\<close>

definition demo_build :: build where
  "demo_build = \<lparr>bd_checked = False, bd_header_size = 600\<rparr>"

definition demo_env :: "(unit, bytes) cap_env" where
  "demo_env = \<lparr>env_build = demo_build, env_rlp = demo_rlp, env_fork = demo_fork, env_resolve = (\<lambda>h. Ok (Some 100)),
     env_headers = map (\<lambda>b. Some (RUint 1)), env_bodies = map (\<lambda>b. None)\<rparr>"

definition demo_status :: status_data where
  "demo_status = \<lparr>sd_network_id = 1, sd_total_difficulty = 17, sd_best_hash = replicate 32 1,
     sd_fork_data = \<lparr>fk_genesis = replicate 32 2, fk_forks = []\<rparr>\<rparr>"

definition demo_server :: "unit cap_server" where
  "demo_server = new_cap_server\<lparr>cs_status := Some (demo_status, ())\<rparr>"

lemma demo_server_inv: "server_inv demo_server" "all_peers demo_server = {}"
  using new_server_inv by (simp_all add: demo_server_def) (simp add: new_cap_server_def all_peers_def)

definition demo_calls :: "server_call list" where
  "demo_calls = [CallConnect [1] [(capability_name, 65)], CallNext [1],
     CallEvent [1] (InMessage capability_name \<lparr>msg_id = 0, msg_data = []\<rparr>), CallEvent [1] (InDisconnect None)]"

text \<open>A valid peer that asks for \<open>2 ^ 60\<close> headers.\<close>

definition demo_served :: "unit cap_server" where
  "demo_served = demo_server\<lparr>peer_pipes := [([1], \<lparr>pp_first = [], pp_queue = []\<rparr>)],
     cs_tracker := set_block_number [1] 0 (cs_tracker demo_server), valid_peers := {[1]}\<rparr>"

definition huge_query :: get_block_headers where
  "huge_query = \<lparr>gb_block = BNumber 100, gb_max_headers = 2 ^ 60, gb_skip = 0, gb_reverse = False\<rparr>"

lemma demo_served_inv: "server_inv demo_served" "all_peers demo_served = {[1]}"
proof -
  have "setup_peer [1] \<lparr>pp_first = [], pp_queue = []\<rparr> demo_server =
      (Ok (), demo_server\<lparr>peer_pipes := [([1], \<lparr>pp_first = [], pp_queue = []\<rparr>)], cs_tracker := set_block_number [1] 0 (cs_tracker demo_server)\<rparr>)"
    by (simp add: setup_peer_def demo_server_def new_cap_server_def)
  then have i: "server_inv (demo_server\<lparr>peer_pipes := [([1], \<lparr>pp_first = [], pp_queue = []\<rparr>)], cs_tracker := set_block_number [1] 0 (cs_tracker demo_server)\<rparr>)"
    using setup_peer_ok [OF demo_server_inv(1), of "[1]" "\<lparr>pp_first = [], pp_queue = []\<rparr>"] demo_server_inv(2) by auto
  show all: "all_peers demo_served = {[1]}" by (simp add: demo_served_def all_peers_def)
  show "server_inv demo_served" using i all by (simp add: server_inv_def demo_served_def)
qed

theorem server_no_panic_witness:
  "(\<exists>rs s'. server_run (server_call_run (on_peer_connect demo_env) (server_event demo_env) next_event) demo_calls demo_server = (Ok rs, s') \<and>
      length rs = length demo_calls \<and> server_inv s') \<and>
   fst (server_event demo_env [1] (InMessage capability_name
     \<lparr>msg_id = 3, msg_data = rl_out demo_rlp (get_block_headers_rlp huge_query)\<rparr>) demo_served) = Panic"
proof -
  let ?m = "\<lparr>msg_id = 3, msg_data = rl_out demo_rlp (get_block_headers_rlp huge_query)\<rparr>"
  have "mid_from_usize 0 = Some Status" "mid_from_usize 3 = Some GetBlockHeaders"
    using mid_from_to [of Status] mid_from_to [of GetBlockHeaders] by simp_all
  moreover have "get_block_headers_decode demo_rlp (rl_out demo_rlp (get_block_headers_rlp huge_query)) = Some huge_query"
    by (rule headers_codec.dec_enc_whole) (simp_all add: demo_rlp_ok huge_query_def)
  ultimately have "\<not> message_served demo_env ?m" "message_served demo_env \<lparr>msg_id = 0, msg_data = []\<rparr>"
    by (simp_all add: message_served_def query_served_def query_anchor_def query_fits_def vec_fits_def huge_query_def demo_env_def)
  moreover have "well_ordered (\<lambda>caps. map_of caps capability_name \<noteq> None) (message_served demo_env) (all_peers demo_server) demo_calls"
    using calculation(2) by (simp add: demo_calls_def demo_server_inv(2))
  moreover have "well_ordered (\<lambda>caps. map_of caps capability_name \<noteq> None) (message_served demo_env) (all_peers demo_served) []" by simp
  moreover have "[1] \<in> valid_peers demo_served" by (simp add: demo_served_def)
  ultimately show ?thesis
    using server_no_panic [OF demo_server_inv(1), of demo_env demo_calls, THEN conjunct1]
      server_no_panic [OF demo_served_inv(1), of demo_env "[]", THEN conjunct2, rule_format, of "[1]" capability_name ?m] demo_served_inv(2)
    by simp
qed

theorem only_valid_peers_served_witness:
  "case handle_event demo_env [1] (InMessage capability_name \<lparr>msg_id = 9, msg_data = []\<rparr>) demo_server of ((r, fwd), s') \<Rightarrow>
     \<forall>reply. r \<noteq> Ok (Some reply)"
proof -
  have "[1] \<notin> valid_peers demo_server" by (simp add: demo_server_def new_cap_server_def)
  then show ?thesis
    using only_valid_peers_served [where env = demo_env and p = "[1]" and c = capability_name
      and m = "\<lparr>msg_id = 9, msg_data = []\<rparr>" and s = demo_server]
    by (auto split: prod.splits)
qed

theorem late_status_leaks_witness:
  "[1] \<in> valid_peers (snd (server_event demo_env [1] (InMessage capability_name \<lparr>msg_id = 0, msg_data = rl_out demo_rlp
     (status_rlp demo_fork \<lparr>sm_protocol_version = 65, sm_network_id = 1, sm_total_difficulty = 17,
        sm_best_hash = replicate 32 1, sm_genesis_hash = replicate 32 2, sm_fork_id = [1, 2]\<rparr>)\<rparr>) demo_server))"
proof -
  have "rlp_ok (env_rlp demo_env)" "fork_ok (env_rlp demo_env) (env_fork demo_env)"
    by (simp_all add: demo_env_def demo_rlp_ok demo_fork_ok)
  from late_status_leaks [of "[1]" demo_server demo_status "()" demo_env, OF _ _ this,
      of "\<lparr>sm_protocol_version = 65, sm_network_id = 1, sm_total_difficulty = 17,
        sm_best_hash = replicate 32 1, sm_genesis_hash = replicate 32 2, sm_fork_id = [1, 2]\<rparr>" capability_name "[]"]
  show ?thesis by (simp add: demo_server_inv(2)) (simp add: demo_server_def status_ok_def demo_env_def demo_fork_def)
qed

theorem first_event_is_status_witness:
  "\<exists>s1 s2 ev data st. on_peer_connect demo_env [1] [(capability_name, 65)] demo_server = (Ok (), s1) \<and>
     next_event [1] s1 = (Ok (Some ev), s2) \<and> ev = OutMessage capability_name \<lparr>msg_id = 0, msg_data = data\<rparr> \<and>
     status_decode demo_rlp demo_fork data = Some st \<and> sm_protocol_version st = 65"
proof -
  have R: "rlp_ok (env_rlp demo_env)" "fork_ok (env_rlp demo_env) (env_fork demo_env)"
    by (simp_all add: demo_env_def demo_rlp_ok demo_fork_ok)
  obtain s1 where s1: "on_peer_connect demo_env [1] [(capability_name, 65)] demo_server = (Ok (), s1)"
    using on_peer_connect_ok [OF demo_server_inv(1), of "[1]" "[(capability_name, 65)]" demo_env]
    by (auto simp: demo_server_inv(2))
  have "\<exists>ev s2. next_event [1] s1 = (Ok (Some ev), s2)"
    using s1 by (auto simp: on_peer_connect_def first_events_def demo_server_def new_cap_server_def setup_peer_def
        next_event_def get_pipes_def)
  then obtain ev s2 where ev: "next_event [1] s1 = (Ok (Some ev), s2)" by blast
  have "\<forall>d ff. cs_status demo_server = Some (d, ff) \<longrightarrow> sd_total_difficulty d < 2 ^ 256 \<and> length (sd_best_hash d) = 32 \<and>
       length (fk_genesis (sd_fork_data d)) = 32"
    by (simp add: demo_server_def demo_status_def)
  from first_event_is_status [OF demo_server_inv(1) _ _ R _ this s1 ev] s1 ev
  show ?thesis by (auto simp: demo_server_inv(2)) (auto simp: demo_server_def demo_env_def)
qed

definition demo_query :: "bool \<Rightarrow> get_block_headers" where
  "demo_query reverse = \<lparr>gb_block = BNumber 100, gb_max_headers = 5, gb_skip = 9, gb_reverse = reverse\<rparr>"

theorem header_numbers_exact_witness:
  "\<exists>ns. (header_numbers True 100 (demo_query True) :: (unit, u64 list) outcome) = Ok ns \<and> length ns = 5 \<and> unat (ns ! 4) = 60"
proof -
  have "vec_fits 8 (unat (gb_max_headers (demo_query True)))" "in_range 100 (demo_query True)"
    by (simp_all add: vec_fits_def in_range_def demo_query_def)
  from header_numbers_exact [OF this, where check = True and 'e = unit] show ?thesis by (auto simp: demo_query_def)
qed

theorem header_numbers_wrap_witness:
  "(\<exists>ns. (header_numbers False 3 \<lparr>gb_block = BNumber 3, gb_max_headers = 10, gb_skip = 0, gb_reverse = True\<rparr> :: (unit, u64 list) outcome) =
      Ok ns \<and> ns ! 4 = - 1)"
  using header_numbers_wrap [of "\<lparr>gb_block = BNumber 3, gb_max_headers = 10, gb_skip = 0, gb_reverse = True\<rparr>" 3, where 'e = unit]
  by (simp add: vec_fits_def)

end
