(* ===== verification/Sentry.thy ===== *)
theory Sentry
  imports Cap_Server
begin

text \<open>
  The gRPC service that sends messages to peers, \<^verbatim>\<open>src/services/sentry.rs\<close>. A request is refused when
  its peer id is not 64 bytes long. The sends to several peers run at the same time: those with room in
  their channel go through, the others wait, and the reply is there when none is left that waits. A hash set
  is iterated in an order \<open>iter\<close> of its own.
\<close>

record outbound_message_data =
  om_id :: int
  om_data :: bytes

datatype rpc_error = InvalidArgument

definition parse_peer_id :: "bytes \<Rightarrow> (rpc_error, peer_id) outcome" where
  "parse_peer_id d = (if length d = 64 then Ok d else Err InvalidArgument)"

text \<open>
  A round over the sends of a request that have not gone through yet: the peers that have got the event, and
  those whose channel is full, whose sends wait for a later round. A peer without a channel gets nothing. A
  send that waits stays with the channel it has found: a peer that goes and comes back meanwhile is not modelled.
\<close>

fun send_each :: "peer_id list \<Rightarrow> outbound_event \<Rightarrow> 'ff cap_server \<Rightarrow> (peer_id list \<times> peer_id list) \<times> 'ff cap_server" where
  "send_each [] ev s = (([], []), s)"
| "send_each (peer # peers) ev s =
     (if get_pipes peer s = None then send_each peers ev s
      else case pipe_send peer ev s of
             Some s' \<Rightarrow> apfst (apfst (Cons peer)) (send_each peers ev s')
           | None \<Rightarrow> apfst (apsnd (Cons peer)) (send_each peers ev s))"

text \<open>The reply, when nothing waits.\<close>

definition sent_peers :: "peer_id list \<times> peer_id list \<Rightarrow> peer_id list option" where
  "sent_peers r = (if snd r = [] then Some (fst r) else None)"

definition send_by_predicate :: "outbound_message_data option \<Rightarrow> ('ff cap_server \<Rightarrow> peer_id list)
    \<Rightarrow> 'ff cap_server \<Rightarrow> (peer_id list \<times> peer_id list) \<times> 'ff cap_server" where
  "send_by_predicate request pred s =
     (case request of
        None \<Rightarrow> (([], []), s)
      | Some data \<Rightarrow>
          (case from_outbound_message_id (om_id data) of
             None \<Rightarrow> (([], []), s)
           | Some i \<Rightarrow>
               send_each (pred s) (OutMessage capability_name \<lparr>msg_id = mid_to_usize i, msg_data = om_data data\<rparr>) s))"

definition penalize_peer :: "bytes \<Rightarrow> 'ff cap_server \<Rightarrow> (rpc_error, unit) outcome \<times> 'ff cap_server option" where
  "penalize_peer peer_id s =
     (case parse_peer_id peer_id of
        Ok peer \<Rightarrow> (Ok (), pipe_send peer (OutDisconnect DisconnectRequested) s)
      | Err e \<Rightarrow> (Err e, Some s)
      | Panic \<Rightarrow> (Panic, Some s))"

definition send_message_by_min_block :: "(peer_id set \<Rightarrow> peer_id list) \<Rightarrow> outbound_message_data option \<Rightarrow> u64
    \<Rightarrow> 'ff cap_server \<Rightarrow> (peer_id list \<times> peer_id list) \<times> 'ff cap_server" where
  "send_message_by_min_block iter data min_block =
     send_by_predicate data (\<lambda>s. iter (peers_with_min_block min_block (cs_tracker s)))"

definition send_message_by_id :: "bytes \<Rightarrow> outbound_message_data option
    \<Rightarrow> 'ff cap_server \<Rightarrow> (rpc_error, (peer_id list \<times> peer_id list) \<times> 'ff cap_server) outcome" where
  "send_message_by_id peer_id data s =
     bind_outcome (parse_peer_id peer_id) (\<lambda>peer. Ok (send_by_predicate data (\<lambda>_. [peer]) s))"

definition send_message_to_random_peers :: "(peer_id set \<Rightarrow> peer_id list) \<Rightarrow> u64 \<Rightarrow> outbound_message_data option
    \<Rightarrow> 'ff cap_server \<Rightarrow> (peer_id list \<times> peer_id list) \<times> 'ff cap_server" where
  "send_message_to_random_peers iter max_peers data =
     send_by_predicate data (\<lambda>s. take (unat max_peers) (iter (all_peers s)))"

definition send_message_to_all :: "(peer_id set \<Rightarrow> peer_id list) \<Rightarrow> outbound_message_data
    \<Rightarrow> 'ff cap_server \<Rightarrow> (peer_id list \<times> peer_id list) \<times> 'ff cap_server" where
  "send_message_to_all iter data = send_by_predicate (Some data) (\<lambda>s. iter (all_peers s))"

definition iter_ok :: "(peer_id set \<Rightarrow> peer_id list) \<Rightarrow> bool" where
  "iter_ok iter \<longleftrightarrow> (\<forall>S. finite S \<longrightarrow> set (iter S) = S \<and> distinct (iter S))"

lemma finite_all_peers: "finite (all_peers s)"
  by (simp add: all_peers_def)

section \<open>Delivery\<close>

lemma pipe_send_ok:
  assumes "get_pipes p s = Some x" "pp_queue x = []"
  shows "\<exists>s'. pipe_send p ev s = Some s' \<and>
    (\<forall>q. get_pipes q s' = (if q = p then Some (x\<lparr>pp_queue := [ev]\<rparr>) else get_pipes q s))"
  using assms by (simp add: pipe_send_def get_pipes_def update_conv')

lemma pipe_send_full: "get_pipes p s = Some x \<Longrightarrow> pp_queue x \<noteq> [] \<Longrightarrow> pipe_send p ev s = None"
  by (simp add: pipe_send_def)

text \<open>A channel that is full.\<close>

definition pipe_full :: "'ff cap_server \<Rightarrow> peer_id \<Rightarrow> bool" where
  "pipe_full s p \<longleftrightarrow> (case get_pipes p s of None \<Rightarrow> False | Some x \<Rightarrow> pp_queue x \<noteq> [])"

lemma send_each_ok:
  assumes "distinct peers" "\<forall>p \<in> set peers. get_pipes p s \<noteq> None"
  shows "\<exists>s'. send_each peers ev s = ((filter (\<lambda>p. \<not> pipe_full s p) peers, filter (pipe_full s) peers), s') \<and>
    (\<forall>p. get_pipes p s' = (if p \<in> set peers \<and> \<not> pipe_full s p then map_option (\<lambda>x. x\<lparr>pp_queue := [ev]\<rparr>) (get_pipes p s)
                         else get_pipes p s))"
  using assms
proof (induction peers arbitrary: s)
  case (Cons p peers)
  obtain x where x: "get_pipes p s = Some x" using Cons.prems(2) by auto
  show ?case
  proof (cases "pipe_full s p")
    case True
    then have "pipe_send p ev s = None" using x pipe_send_full by (simp add: pipe_full_def)
    moreover obtain s' where "send_each peers ev s = ((filter (\<lambda>p. \<not> pipe_full s p) peers, filter (pipe_full s) peers), s')"
      "\<And>q. get_pipes q s' = (if q \<in> set peers \<and> \<not> pipe_full s q then map_option (\<lambda>x. x\<lparr>pp_queue := [ev]\<rparr>) (get_pipes q s)
                           else get_pipes q s)"
      using Cons.IH [of s] Cons.prems by auto
    ultimately show ?thesis using True x by (intro exI [of _ s']) auto
  next
    case False
    then have "pp_queue x = []" using x by (simp add: pipe_full_def)
    then obtain s1 where s1: "pipe_send p ev s = Some s1"
        "\<And>q. get_pipes q s1 = (if q = p then Some (x\<lparr>pp_queue := [ev]\<rparr>) else get_pipes q s)"
      using pipe_send_ok [OF x] by blast
    have same: "pipe_full s1 q = pipe_full s q" if "q \<in> set peers" for q
      using that Cons.prems(1) by (auto simp: pipe_full_def s1(2))
    have "\<forall>q \<in> set peers. get_pipes q s1 \<noteq> None" using Cons.prems by (simp add: s1(2))
    with Cons.IH [of s1] Cons.prems(1) obtain s2 where
      "send_each peers ev s1 = ((filter (\<lambda>p. \<not> pipe_full s1 p) peers, filter (pipe_full s1) peers), s2)"
      "\<And>q. get_pipes q s2 = (if q \<in> set peers \<and> \<not> pipe_full s1 q then map_option (\<lambda>x. x\<lparr>pp_queue := [ev]\<rparr>) (get_pipes q s1)
                           else get_pipes q s1)" by auto
    moreover have "filter (\<lambda>p. \<not> pipe_full s1 p) peers = filter (\<lambda>p. \<not> pipe_full s p) peers"
      "filter (pipe_full s1) peers = filter (pipe_full s) peers"
      using same by (auto intro: filter_cong)
    ultimately show ?thesis using False x s1 same Cons.prems(1) by (intro exI [of _ s2]) auto
  qed
qed simp

lemma all_peers_pipes: "p \<in> all_peers s \<Longrightarrow> get_pipes p s \<noteq> None"
  by (simp add: get_pipes_iff)

text \<open>
  C32. A broadcast reaches every connected peer whose channel is not full, and waits for the others. Of
  \<open>send_message_to_all\<close> these peers get the message, under the number of its kind, as the next event of their
  channel, each once; the channels of the others are as they were and their sends wait; the reply is there
  exactly if none waits, and lists all peers. As soon as the waiting peers have room, the next round delivers
  to all of them. A request to random peers sends to as many peers as asked for, or all.
\<close>

theorem broadcast_delivers:
  fixes s :: "'ff cap_server"
  assumes "iter_ok iter" "from_outbound_message_id (om_id data) = Some i"
  shows "\<exists>sent waiting s' sent' waiting' s''. send_message_to_all iter data s = ((sent, waiting), s') \<and>
     set sent = {p \<in> all_peers s. \<not> pipe_full s p} \<and> set waiting = {p \<in> all_peers s. pipe_full s p} \<and>
     distinct (sent @ waiting) \<and>
     (\<forall>p \<in> set sent. \<exists>x. get_pipes p s' = Some x \<and>
        pp_queue x = [OutMessage capability_name \<lparr>msg_id = mid_to_usize i, msg_data = om_data data\<rparr>]) \<and>
     (\<forall>p. p \<notin> set sent \<longrightarrow> get_pipes p s' = get_pipes p s) \<and>
     sent_peers (sent, waiting) = (if \<exists>p \<in> all_peers s. pipe_full s p then None else Some (iter (all_peers s))) \<and>
     (\<forall>ev. \<forall>later :: 'ff cap_server. (\<forall>p \<in> set waiting. get_pipes p later \<noteq> None \<and> \<not> pipe_full later p) \<longrightarrow>
        fst (send_each waiting ev later) = (waiting, []) \<and>
        (\<forall>p \<in> set waiting. \<exists>x. get_pipes p (snd (send_each waiting ev later)) = Some x \<and> pp_queue x = [ev])) \<and>
     send_message_to_random_peers iter n (Some data) s = ((sent', waiting'), s'') \<and>
     length sent' + length waiting' = min (unat n) (card (all_peers s)) \<and> set sent' \<union> set waiting' \<subseteq> all_peers s"
proof -
  let ?ev = "OutMessage capability_name \<lparr>msg_id = mid_to_usize i, msg_data = om_data data\<rparr>"
  let ?all = "iter (all_peers s)" and ?some = "take (unat n) (iter (all_peers s))"
  let ?sent = "filter (\<lambda>p. \<not> pipe_full s p) ?all" and ?waiting = "filter (pipe_full s) ?all"
  have it: "set ?all = all_peers s" "distinct ?all"
    using assms(1) finite_all_peers by (auto simp: iter_ok_def)
  have known: "\<forall>p \<in> set ?all. get_pipes p s \<noteq> None" using it(1) all_peers_pipes by blast
  have some: "set ?some \<subseteq> all_peers s" "distinct ?some" using it set_take_subset by (metis, metis distinct_take)
  obtain s' where s': "send_each ?all ?ev s = ((?sent, ?waiting), s')"
    "\<And>p. get_pipes p s' = (if p \<in> all_peers s \<and> \<not> pipe_full s p then map_option (\<lambda>x. x\<lparr>pp_queue := [?ev]\<rparr>) (get_pipes p s) else get_pipes p s)"
    using send_each_ok [OF it(2) known, of ?ev] unfolding it(1) by blast
  obtain s'' where s'': "send_each ?some ?ev s = ((filter (\<lambda>p. \<not> pipe_full s p) ?some, filter (pipe_full s) ?some), s'')"
    using send_each_ok [OF some(2), of s ?ev] some(1) all_peers_pipes by blast
  have len: "length ?all = card (all_peers s)" using distinct_card [OF it(2)] it(1) by simp
  have later: "fst (send_each ?waiting ev t) = (?waiting, []) \<and>
      (\<forall>p \<in> set ?waiting. \<exists>x. get_pipes p (snd (send_each ?waiting ev t)) = Some x \<and> pp_queue x = [ev])"
    if "\<forall>p \<in> set ?waiting. get_pipes p t \<noteq> None \<and> \<not> pipe_full t p" for ev and t :: "'ff cap_server"
  proof -
    have w: "distinct ?waiting" "\<forall>p \<in> set ?waiting. get_pipes p t \<noteq> None" using it(2) that by auto
    have "filter (\<lambda>p. \<not> pipe_full t p) ?waiting = ?waiting" "filter (pipe_full t) ?waiting = []"
      using that by (auto simp: filter_empty_conv simp del: filter_filter intro!: filter_True)
    with send_each_ok [OF w, of ev] that show ?thesis by fastforce
  qed
  have got: "\<forall>p \<in> set ?sent. \<exists>x. get_pipes p s' = Some x \<and> pp_queue x = [?ev]"
    using s'(2) it(1) all_peers_pipes by fastforce
  have reply: "sent_peers (?sent, ?waiting) = (if \<exists>p \<in> all_peers s. pipe_full s p then None else Some ?all)"
    using it(1) by (auto simp: sent_peers_def filter_empty_conv filter_id_conv)
  have rand: "length (filter (\<lambda>p. \<not> pipe_full s p) ?some) + length (filter (pipe_full s) ?some) = min (unat n) (card (all_peers s))"
    using sum_length_filter_compl [of "pipe_full s" ?some] len by simp
  show ?thesis
  proof (intro exI conjI)
    show "send_message_to_all iter data s = ((?sent, ?waiting), s')"
      using s'(1) assms(2) by (simp add: send_message_to_all_def send_by_predicate_def)
    show "send_message_to_random_peers iter n (Some data) s =
        ((filter (\<lambda>p. \<not> pipe_full s p) ?some, filter (pipe_full s) ?some), s'')"
      using s'' assms(2) by (simp add: send_message_to_random_peers_def send_by_predicate_def)
    show "\<forall>ev. \<forall>later :: 'ff cap_server. (\<forall>p \<in> set ?waiting. get_pipes p later \<noteq> None \<and> \<not> pipe_full later p) \<longrightarrow>
        fst (send_each ?waiting ev later) = (?waiting, []) \<and>
        (\<forall>p \<in> set ?waiting. \<exists>x. get_pipes p (snd (send_each ?waiting ev later)) = Some x \<and> pp_queue x = [ev])"
      using later by blast
    show "set (filter (\<lambda>p. \<not> pipe_full s p) ?some) \<union> set (filter (pipe_full s) ?some) \<subseteq> all_peers s" using some(1) by auto
  qed (use it got reply rand s'(2) in auto)
qed

text \<open>
  A message by minimal block reaches nobody. In every state of the server a request with a minimal
  block above 0 returns no peer and sends nothing; with 0 it is sent to all.
\<close>

theorem min_block_request_useless:
  assumes "reach (\<lambda>s. s = new_cap_server) (server_step E) s" "iter_ok iter"
  shows "send_message_by_min_block iter (Some data) n s =
     (if n = 0 then send_message_to_all iter data s else (([], []), s))"
proof -
  have "iter {} = []" using assms(2) by (metis finite.emptyI iter_ok_def set_empty)
  then show ?thesis using tracker_min_block [OF assms(1), of n]
    by (auto simp: send_message_by_min_block_def send_message_to_all_def send_by_predicate_def split: option.split)
qed

section \<open>Witnesses\<close>

definition demo_iter :: "peer_id set \<Rightarrow> peer_id list" where
  "demo_iter S = sorted_list_of_set S"

lemma demo_iter_ok: "iter_ok demo_iter"
  by (simp add: iter_ok_def demo_iter_def)

text \<open>Two peers, one of them with a full channel.\<close>

definition demo_busy :: "unit cap_server" where
  "demo_busy = new_cap_server\<lparr>peer_pipes := [([1], \<lparr>pp_first = [], pp_queue = []\<rparr>),
     ([2], \<lparr>pp_first = [], pp_queue = [OutDisconnect DisconnectRequested]\<rparr>)]\<rparr>"

theorem broadcast_delivers_witness:
  "\<exists>sent waiting s'. send_message_to_all demo_iter \<lparr>om_id = 0, om_data = [5]\<rparr> demo_busy = ((sent, waiting), s') \<and>
     set sent = {[1]} \<and> set waiting = {[2]} \<and> sent_peers (sent, waiting) = None"
proof -
  have "all_peers demo_busy = {[1], [2]}" "\<not> pipe_full demo_busy [1]" "pipe_full demo_busy [2]"
    by (simp_all add: demo_busy_def all_peers_def pipe_full_def get_pipes_def)
  then have "{p \<in> all_peers demo_busy. \<not> pipe_full demo_busy p} = {[1]}" "{p \<in> all_peers demo_busy. pipe_full demo_busy p} = {[2]}"
    "\<exists>p \<in> all_peers demo_busy. pipe_full demo_busy p" by auto
  moreover have "from_outbound_message_id (om_id \<lparr>om_id = 0, om_data = [5]\<rparr>) = Some GetBlockHeaders"
    by (simp add: from_outbound_message_id_def)
  ultimately show ?thesis using broadcast_delivers [OF demo_iter_ok, of "\<lparr>om_id = 0, om_data = [5]\<rparr>" GetBlockHeaders demo_busy 0]
    by (elim meta_impE exE conjE) auto
qed

theorem min_block_request_useless_witness:
  "send_message_by_min_block demo_iter (Some \<lparr>om_id = 0, om_data = [5]\<rparr>) 1 (new_cap_server :: unit cap_server) =
     (([], []), new_cap_server)"
proof -
  have "reach (\<lambda>s. s = new_cap_server) (server_step {demo_env}) new_cap_server" by (rule reach_init) simp
  from min_block_request_useless [OF this demo_iter_ok] show ?thesis by simp
qed

end
