(* ===== verification/Node_Filter.thy ===== *)
theory Node_Filter
  imports Block_Tracker
begin

text \<open>
  The peer filter of the swarm, \<^verbatim>\<open>devp2p/src/node_filter.rs\<close>: the trait \<open>NodeFilter\<close> with its default
  method \<open>allow\<close>, and the filter in memory. The limit is an atomic the builder sets once.
\<close>

text \<open>The default method of the trait, over the two methods it calls.\<close>

definition filter_allow :: "('f \<Rightarrow> nat) \<Rightarrow> ('f \<Rightarrow> peer_id \<Rightarrow> bool) \<Rightarrow> 'f \<Rightarrow> nat \<Rightarrow> peer_id \<Rightarrow> bool" where
  "filter_allow max_peers is_banned f pool_size i \<longleftrightarrow> pool_size < max_peers f \<and> \<not> is_banned f i"

record memory_filter =
  peer_limiter :: nat
  ban_list :: "peer_id set"

definition new_memory_filter :: "nat \<Rightarrow> memory_filter" where
  "new_memory_filter limit = \<lparr>peer_limiter = limit, ban_list = {}\<rparr>"

definition memory_max_peers :: "memory_filter \<Rightarrow> nat" where
  "memory_max_peers f = peer_limiter f"

definition memory_is_banned :: "memory_filter \<Rightarrow> peer_id \<Rightarrow> bool" where
  "memory_is_banned f i \<longleftrightarrow> i \<in> ban_list f"

definition memory_ban :: "peer_id \<Rightarrow> memory_filter \<Rightarrow> memory_filter" where
  "memory_ban i f = f\<lparr>ban_list := insert i (ban_list f)\<rparr>"

locale node_filter =
  fixes max_peers :: "'f \<Rightarrow> nat"
    and is_banned :: "'f \<Rightarrow> peer_id \<Rightarrow> bool"
    and ban :: "peer_id \<Rightarrow> 'f \<Rightarrow> 'f"
  assumes max_ban: "max_peers (ban i f) = max_peers f"
    and banned_ban: "is_banned (ban i f) j \<longleftrightarrow> i = j \<or> is_banned f j"
begin

text \<open>Bans only ever take permissions away, and a banned peer stays out whatever the pool.\<close>

lemma allow_ban:
  "filter_allow max_peers is_banned (ban i f) n j \<longleftrightarrow> i \<noteq> j \<and> filter_allow max_peers is_banned f n j"
  by (auto simp: filter_allow_def max_ban banned_ban)

lemma allow_bans:
  "filter_allow max_peers is_banned (fold ban is f) n j \<longleftrightarrow> j \<notin> set is \<and> filter_allow max_peers is_banned f n j"
  by (induction "is" arbitrary: f) (auto simp: allow_ban)

text \<open>Admission keeps the pool within the limit.\<close>

lemma allow_room:
  assumes "filter_allow max_peers is_banned f (length m) i"
  shows "length (AList.update i x m) \<le> max_peers f"
  using assms by (simp add: filter_allow_def length_alist_update)

end

interpretation memory: node_filter memory_max_peers memory_is_banned memory_ban
  by unfold_locales (auto simp: memory_max_peers_def memory_is_banned_def memory_ban_def)

abbreviation memory_allow :: "memory_filter \<Rightarrow> nat \<Rightarrow> peer_id \<Rightarrow> bool" where
  "memory_allow \<equiv> filter_allow memory_max_peers memory_is_banned"

end
