(* ===== verification/Swarm.thy ===== *)
theory Swarm
  imports Cap_Server Node_Filter
begin

text \<open>
  The swarm of connected peers, \<^verbatim>\<open>devp2p/src/rlpx.rs\<close>: the map of peer states, incoming and outgoing
  connections, the dialer and the reaper. Everything the code does under the lock of the map is one
  operation; the tasks that call them interleave at will. The capability server is a parameter: its
  operation \<open>on_peer_connect\<close>.
\<close>

section \<open>Capability sets\<close>

text \<open>\<open>CapabilityId\<close> derives its order: by name, then by version.\<close>

instantiation capability_id_ext :: (linorder) linorder
begin

definition less_eq_capability_id_ext :: "'a capability_id_scheme \<Rightarrow> 'a capability_id_scheme \<Rightarrow> bool" where
  "less_eq_capability_id_ext a b \<longleftrightarrow> id_name a < id_name b \<or> id_name a = id_name b \<and>
     (id_version a < id_version b \<or> id_version a = id_version b \<and> capability_id.more a \<le> capability_id.more b)"

definition less_capability_id_ext :: "'a capability_id_scheme \<Rightarrow> 'a capability_id_scheme \<Rightarrow> bool" where
  "less_capability_id_ext a b \<longleftrightarrow> id_name a < id_name b \<or> id_name a = id_name b \<and>
     (id_version a < id_version b \<or> id_version a = id_version b \<and> capability_id.more a < capability_id.more b)"

instance
  by standard (auto simp: less_eq_capability_id_ext_def less_capability_id_ext_def intro: capability_id.equality)

end

record capability_set =
  cs_inner :: "(capability_id \<times> nat) list"
  capability_cache :: "capability_info list"

definition capability_set_from :: "(capability_id \<times> nat) list \<Rightarrow> capability_set" where
  "capability_set_from inner = \<lparr>cs_inner = inner,
     capability_cache = map (\<lambda>(i, len). \<lparr>ci_name = id_name i, ci_version = id_version i, ci_length = len\<rparr>) inner\<rparr>"

definition get_capabilities :: "capability_set \<Rightarrow> capability_info list" where
  "get_capabilities s = capability_cache s"

text \<open>The keys of a \<open>BTreeMap\<close> are distinct, so the capabilities of a set are.\<close>

lemma capability_set_distinct:
  assumes "bt_sorted inner"
  shows "distinct (map capability_id_of (get_capabilities (capability_set_from inner)))"
proof -
  have "map capability_id_of (get_capabilities (capability_set_from inner)) = map fst inner"
    by (auto simp: get_capabilities_def capability_set_from_def capability_id_of_def)
  then show ?thesis using bt_sorted_distinct [OF assms] by simp
qed

section \<open>The state\<close>

datatype peer_state = Connecting nat | Connected

fun is_connected :: "peer_state \<Rightarrow> bool" where
  "is_connected Connected = True"
| "is_connected (Connecting c) = False"

text \<open>
  A call of \<open>add_peer_inner\<close> is a future with its reaper task. The future has not been polled yet
  (\<open>Created\<close>), is connecting with the lock released (\<open>Dialing\<close>), has sent on the channel to the reaper
  (\<open>Adopted\<close>), or is gone, by returning or by being dropped.
\<close>

datatype phase = Created | Dialing | Adopted | Gone

record attempt =
  at_peer :: peer_id
  at_check :: bool
  at_phase :: phase
  at_polled :: bool
  at_reaped :: bool

record 's swarm =
  sw_mapping :: "(peer_id \<times> peer_state) list"
  sw_connecting :: u64
  sw_filter :: memory_filter
  sw_current_peers :: "peer_id set"
  sw_attempts :: "(nat \<times> attempt) list"
  sw_server :: 's

definition new_swarm :: "nat \<Rightarrow> 's \<Rightarrow> 's swarm" where
  "new_swarm max_peers server = \<lparr>sw_mapping = [], sw_connecting = 0, sw_filter = new_memory_filter max_peers,
     sw_current_peers = {}, sw_attempts = [], sw_server = server\<rparr>"

definition dialing :: "'s swarm \<Rightarrow> u64" where
  "dialing sw = sw_connecting sw"

section \<open>Operations\<close>

definition disconnect_peer :: "peer_id \<Rightarrow> 's swarm \<Rightarrow> bool \<times> 's swarm" where
  "disconnect_peer remote_id sw =
     (map_of (sw_mapping sw) remote_id \<noteq> None, sw\<lparr>sw_mapping := AList.delete remote_id (sw_mapping sw)\<rparr>)"

text \<open>The capabilities of a connected peer as a map from names to versions.\<close>

definition capability_map :: "capability_info list \<Rightarrow> (cap_name \<times> nat) list" where
  "capability_map caps = fold (\<lambda>c. AList.update (ci_name c) (ci_version c)) caps []"

type_synonym 's connect_fn = "peer_id \<Rightarrow> (cap_name \<times> nat) list \<Rightarrow> ('s, unit, unit) st"

text \<open>\<open>setup_peer_state\<close> announces the peer to the capability server; its tasks are in \<open>Peer_Tasks\<close>.\<close>

definition setup_peer_state :: "'s connect_fn \<Rightarrow> peer_id \<Rightarrow> capability_info list \<Rightarrow> ('s swarm, unit, unit) st" where
  "setup_peer_state con remote_id caps =
     (\<lambda>sw. case con remote_id (capability_map caps) (sw_server sw) of (r, s) \<Rightarrow> (r, sw\<lparr>sw_server := s\<rparr>))"

text \<open>
  \<open>handle_incoming\<close> drops connections from outside the configured range; the \<^verbatim>\<open>cidr\<close> crate decides
  what is in it.
\<close>

definition incoming_accepted :: "('ip \<Rightarrow> bool) option \<Rightarrow> 'ip \<Rightarrow> bool" where
  "incoming_accepted cidr ip = (case cidr of None \<Rightarrow> True | Some contains \<Rightarrow> contains ip)"

text \<open>\<open>handle_incoming_request\<close> with the result of the handshake.\<close>

definition handle_incoming_request :: "'s connect_fn \<Rightarrow> (unit, peer_id \<times> capability_info list) outcome
    \<Rightarrow> ('s swarm, unit, unit) st" where
  "handle_incoming_request con peer_res =
     (case peer_res of
        Ok (remote_id, caps) \<Rightarrow>
          st_bind st_get (\<lambda>sw.
          case map_of (sw_mapping sw) remote_id of
            Some _ \<Rightarrow> st_ret ()
          | None \<Rightarrow>
              if memory_allow (sw_filter sw) (length (sw_mapping sw)) remote_id
              then st_bind (setup_peer_state con remote_id caps) (\<lambda>_.
                   st_modify (\<lambda>sw. sw\<lparr>sw_mapping := AList.update remote_id Connected (sw_mapping sw)\<rparr>))
              else st_ret ())
      | Err _ \<Rightarrow> st_ret ()
      | Panic \<Rightarrow> st_lift Panic)"

definition set_attempt :: "nat \<Rightarrow> attempt \<Rightarrow> 's swarm \<Rightarrow> 's swarm" where
  "set_attempt cid a sw = sw\<lparr>sw_attempts := AList.update cid a (sw_attempts sw)\<rparr>"

text \<open>\<open>add_peer_inner\<close>: the call itself only spawns the reaper and returns the future.\<close>

definition add_peer_inner :: "nat \<Rightarrow> peer_id \<Rightarrow> bool \<Rightarrow> 's swarm \<Rightarrow> 's swarm" where
  "add_peer_inner cid remote_id check_peer =
     set_attempt cid \<lparr>at_peer = remote_id, at_check = check_peer, at_phase = Created, at_polled = False, at_reaped = False\<rparr>"

text \<open>The future up to the connection: count, and take the peer's entry if it is vacant.\<close>

definition add_peer_start :: "nat \<Rightarrow> attempt \<Rightarrow> 's swarm \<Rightarrow> 's swarm" where
  "add_peer_start cid a sw =
     (let sw = sw\<lparr>sw_connecting := sw_connecting sw + 1\<rparr>;
          connection_num = length (sw_mapping sw);
          remote_id = at_peer a
      in if map_of (sw_mapping sw) remote_id \<noteq> None \<or>
            at_check a \<and> \<not> memory_allow (sw_filter sw) connection_num remote_id
         then set_attempt cid (a\<lparr>at_phase := Gone, at_polled := True\<rparr>) sw
         else set_attempt cid (a\<lparr>at_phase := Dialing, at_polled := True\<rparr>)
                (sw\<lparr>sw_mapping := AList.update remote_id (Connecting cid) (sw_mapping sw)\<rparr>))"

text \<open>The rest of the future: adopt the connection, or give the entry up.\<close>

definition add_peer_finish :: "'s connect_fn \<Rightarrow> nat \<Rightarrow> attempt \<Rightarrow> (unit, capability_info list) outcome
    \<Rightarrow> ('s swarm, unit, bool) st" where
  "add_peer_finish con cid a peer_res =
     (let remote_id = at_peer a in
      st_bind (st_modify (set_attempt cid (a\<lparr>at_phase := Gone\<rparr>))) (\<lambda>_.
      st_bind st_get (\<lambda>sw.
      case map_of (sw_mapping sw) remote_id of
        None \<Rightarrow> st_ret False
      | Some peer_state \<Rightarrow>
          if is_connected peer_state then st_ret False
          else (case peer_res of
                  Ok caps \<Rightarrow>
                    st_bind (setup_peer_state con remote_id caps) (\<lambda>_.
                    st_bind (st_modify (\<lambda>sw. sw\<lparr>sw_mapping := AList.update remote_id Connected (sw_mapping sw)\<rparr>)) (\<lambda>_.
                    st_bind (st_modify (set_attempt cid (a\<lparr>at_phase := Adopted\<rparr>))) (\<lambda>_.
                    st_ret True)))
                | Err e \<Rightarrow>
                    st_bind (st_modify (\<lambda>sw. sw\<lparr>sw_mapping := AList.delete remote_id (sw_mapping sw)\<rparr>)) (\<lambda>_.
                    st_lift (Err e))
                | Panic \<Rightarrow> st_lift Panic))))"

text \<open>A future that is dropped at an \<open>await\<close> runs no more of its code; its channel to the reaper closes.\<close>

definition drop_future :: "nat \<Rightarrow> attempt \<Rightarrow> 's swarm \<Rightarrow> 's swarm" where
  "drop_future cid a = set_attempt cid (a\<lparr>at_phase := Gone\<rparr>)"

text \<open>The reaper task, once its channel has a message or is closed.\<close>

definition reap :: "nat \<Rightarrow> attempt \<Rightarrow> 's swarm \<Rightarrow> 's swarm" where
  "reap cid a sw =
     (let sw = (if at_phase a \<noteq> Adopted \<and> map_of (sw_mapping sw) (at_peer a) = Some (Connecting cid)
                then sw\<lparr>sw_mapping := AList.delete (at_peer a) (sw_mapping sw)\<rparr>
                else sw)
      in set_attempt cid (a\<lparr>at_reaped := True\<rparr>) (sw\<lparr>sw_connecting := sw_connecting sw - 1\<rparr>))"

text \<open>
  The dialer, when a discovered record arrives: it waits for one only while the pool is not full, and
  leaves out the peers it is adding already. Afterwards the peer is taken off that list.
\<close>

definition dialer_wants :: "'s swarm \<Rightarrow> bool" where
  "dialer_wants sw \<longleftrightarrow> length (sw_mapping sw) < memory_max_peers (sw_filter sw)"

definition dialer_add :: "nat \<Rightarrow> peer_id \<Rightarrow> 's swarm \<Rightarrow> 's swarm" where
  "dialer_add cid remote_id sw =
     (if remote_id \<in> sw_current_peers sw then sw
      else add_peer_inner cid remote_id True (sw\<lparr>sw_current_peers := insert remote_id (sw_current_peers sw)\<rparr>))"

definition dialer_done :: "peer_id \<Rightarrow> 's swarm \<Rightarrow> 's swarm" where
  "dialer_done remote_id sw = sw\<lparr>sw_current_peers := sw_current_peers sw - {remote_id}\<rparr>"

section \<open>The swarm as a state machine\<close>

text \<open>
  The steps of all tasks. A connection that has come up has shared capabilities \<open>caps\<close> the server
  accepts (\<open>cok\<close>). The egress task of a connected peer reports the disconnect to the server, and then
  takes the peer out of the map. Whatever else the server does (messages, events, new status) keeps its
  invariant and the peers it knows.
\<close>

inductive swarm_step :: "'s connect_fn \<Rightarrow> (peer_id \<Rightarrow> inbound_event \<Rightarrow> ('s, unit, outbound_event option) st)
    \<Rightarrow> ('s \<Rightarrow> peer_id set) \<Rightarrow> ('s \<Rightarrow> bool) \<Rightarrow> ((cap_name \<times> nat) list \<Rightarrow> bool) \<Rightarrow> 's swarm \<Rightarrow> 's swarm \<Rightarrow> bool"
  for con evt known ok cok where
  sw_incoming: "cok (capability_map caps) \<Longrightarrow>
    handle_incoming_request con (Ok (p, caps)) sw = (r, sw') \<Longrightarrow> swarm_step con evt known ok cok sw sw'"
| sw_add: "map_of (sw_attempts sw) cid = None \<Longrightarrow>
    swarm_step con evt known ok cok sw (add_peer_inner cid p check sw)"
| sw_dial: "map_of (sw_attempts sw) cid = None \<Longrightarrow> swarm_step con evt known ok cok sw (dialer_add cid p sw)"
| sw_done: "swarm_step con evt known ok cok sw (dialer_done p sw)"
| sw_start: "map_of (sw_attempts sw) cid = Some a \<Longrightarrow> at_phase a = Created \<Longrightarrow>
    swarm_step con evt known ok cok sw (add_peer_start cid a sw)"
| sw_finish: "map_of (sw_attempts sw) cid = Some a \<Longrightarrow> at_phase a = Dialing \<Longrightarrow> cok (capability_map caps) \<Longrightarrow>
    add_peer_finish con cid a (Ok caps) sw = (r, sw') \<Longrightarrow> swarm_step con evt known ok cok sw sw'"
| sw_fail: "map_of (sw_attempts sw) cid = Some a \<Longrightarrow> at_phase a = Dialing \<Longrightarrow>
    add_peer_finish con cid a (Err ()) sw = (r, sw') \<Longrightarrow> swarm_step con evt known ok cok sw sw'"
| sw_drop: "map_of (sw_attempts sw) cid = Some a \<Longrightarrow> at_phase a = Created \<or> at_phase a = Dialing \<Longrightarrow>
    swarm_step con evt known ok cok sw (drop_future cid a sw)"
| sw_reap: "map_of (sw_attempts sw) cid = Some a \<Longrightarrow> at_phase a = Adopted \<or> at_phase a = Gone \<Longrightarrow>
    \<not> at_reaped a \<Longrightarrow> swarm_step con evt known ok cok sw (reap cid a sw)"
| sw_teardown: "map_of (sw_mapping sw) p = Some Connected \<Longrightarrow> evt p (InDisconnect reason) (sw_server sw) = (r, s') \<Longrightarrow>
    swarm_step con evt known ok cok sw (sw\<lparr>sw_server := s'\<rparr>)"
| sw_remove: "map_of (sw_mapping sw) p = Some Connected \<Longrightarrow> p \<notin> known (sw_server sw) \<Longrightarrow>
    swarm_step con evt known ok cok sw (snd (disconnect_peer p sw))"
| sw_serve: "ok s' \<Longrightarrow> known s' = known (sw_server sw) \<Longrightarrow> swarm_step con evt known ok cok sw (sw\<lparr>sw_server := s'\<rparr>)"

text \<open>
  The entries of the map and the attempts belong together: an entry that is connecting has its attempt,
  which is still dialing or waits for its reaper, and a dialing attempt finds its own entry.
\<close>

definition att_ok :: "attempt \<Rightarrow> bool" where
  "att_ok a \<longleftrightarrow> (at_phase a = Created \<longrightarrow> \<not> at_polled a) \<and> (at_phase a = Dialing \<longrightarrow> at_polled a) \<and>
     (at_reaped a \<longrightarrow> at_phase a = Adopted \<or> at_phase a = Gone)"

definition entry_ok :: "peer_id \<Rightarrow> attempt \<Rightarrow> bool" where
  "entry_ok p a \<longleftrightarrow> at_peer a = p \<and> (at_phase a = Dialing \<or> at_phase a = Gone \<and> \<not> at_reaped a)"

definition maps_ok :: "(peer_id \<Rightarrow> peer_state option) \<Rightarrow> (nat \<Rightarrow> attempt option) \<Rightarrow> bool" where
  "maps_ok m att \<longleftrightarrow>
     (\<forall>p c. m p = Some (Connecting c) \<longrightarrow> (\<exists>a. att c = Some a \<and> entry_ok p a)) \<and>
     (\<forall>c a. att c = Some a \<longrightarrow> att_ok a \<and> (at_phase a = Dialing \<longrightarrow> m (at_peer a) = Some (Connecting c)))"

abbreviation attempts_ok :: "'s swarm \<Rightarrow> bool" where
  "attempts_ok sw \<equiv> maps_ok (map_of (sw_mapping sw)) (map_of (sw_attempts sw))"

lemma maps_okD:
  assumes "maps_ok m att"
  shows "m p = Some (Connecting c) \<Longrightarrow> \<exists>a. att c = Some a \<and> entry_ok p a"
    and "att c = Some a \<Longrightarrow> att_ok a"
    and "att c = Some a \<Longrightarrow> at_phase a = Dialing \<Longrightarrow> m (at_peer a) = Some (Connecting c)"
  using assms by (auto simp: maps_ok_def)

lemma maps_ok_set:
  assumes "maps_ok m att" "\<And>q. m q = Some (Connecting c) \<Longrightarrow> entry_ok q a" "att_ok a"
    and "at_phase a = Dialing \<Longrightarrow> m (at_peer a) = Some (Connecting c)"
  shows "maps_ok m (att(c \<mapsto> a))"
  unfolding maps_ok_def
proof (intro conjI allI impI)
  show "\<exists>b. (att(c \<mapsto> a)) d = Some b \<and> entry_ok q b" if "m q = Some (Connecting d)" for q d
    using that assms(2) maps_okD(1) [OF assms(1) that] by (cases "d = c") auto
  show "att_ok b" if "(att(c \<mapsto> a)) d = Some b" for d b
    using that assms(3) maps_okD(2) [OF assms(1)] by (auto split: if_splits)
  show "m (at_peer b) = Some (Connecting d)" if "(att(c \<mapsto> a)) d = Some b" "at_phase b = Dialing" for d b
    using that assms(4) maps_okD(3) [OF assms(1)] by (auto split: if_splits)
qed

lemma maps_ok_change:
  assumes "maps_ok m att" "\<forall>c a. att c = Some a \<longrightarrow> at_phase a = Dialing \<longrightarrow> at_peer a \<noteq> p"
    and "x = None \<or> x = Some Connected"
  shows "maps_ok (m(p := x)) att"
  using assms unfolding maps_ok_def by auto

lemma maps_ok_insert:
  assumes "maps_ok m att" "m p = None" "at_peer a = p" "at_phase a = Dialing" "att_ok a"
    and "\<And>q. m q \<noteq> Some (Connecting c)"
  shows "maps_ok (m(p \<mapsto> Connecting c)) (att(c \<mapsto> a))"
  unfolding maps_ok_def
proof (intro conjI allI impI)
  fix q d
  assume "(m(p \<mapsto> Connecting c)) q = Some (Connecting d)"
  then show "\<exists>b. (att(c \<mapsto> a)) d = Some b \<and> entry_ok q b"
    using assms maps_okD(1) [OF assms(1), of q d] by (auto simp: entry_ok_def split: if_splits)
next
  fix d b
  assume b: "(att(c \<mapsto> a)) d = Some b"
  then show "att_ok b" using assms(1,5) by (auto simp: maps_ok_def split: if_splits)
  assume "at_phase b = Dialing"
  then show "(m(p \<mapsto> Connecting c)) (at_peer b) = Some (Connecting d)"
    using b assms(2,3) maps_okD(3) [OF assms(1), of d b] by (auto split: if_splits)
qed

definition server_knows_connected :: "('s \<Rightarrow> peer_id set) \<Rightarrow> ('s \<Rightarrow> bool) \<Rightarrow> 's swarm \<Rightarrow> bool" where
  "server_knows_connected known ok sw \<longleftrightarrow> ok (sw_server sw) \<and>
     (\<forall>p \<in> known (sw_server sw). map_of (sw_mapping sw) p = Some Connected)"

definition pool_ok :: "'s swarm \<Rightarrow> bool" where
  "pool_ok sw \<longleftrightarrow> length (sw_mapping sw) \<le> memory_max_peers (sw_filter sw) \<or>
     (\<exists>c a. map_of (sw_attempts sw) c = Some a \<and> \<not> at_check a)"

lemmas swarm_ops = add_peer_inner_def dialer_add_def dialer_done_def add_peer_start_def drop_future_def
  reap_def disconnect_peer_def set_attempt_def

text \<open>How the operations change the two maps, as functions.\<close>

lemma map_of_mapping_update [simp]: "map_of (AList.update p x m) = (map_of m)(p \<mapsto> x)"
  by (rule update_conv')

lemma map_of_mapping_delete [simp]: "map_of (AList.delete p m) = (map_of m)(p := None)"
  by (rule AList.delete_conv')

text \<open>Only the attempt whose number an entry has is behind it.\<close>

lemma no_entry:
  assumes "maps_ok m att" "att c = Some a" "at_phase a = Created \<or> at_phase a = Adopted \<or> at_reaped a"
  shows "m q \<noteq> Some (Connecting c)"
  using maps_okD(1) [OF assms(1), of q c] maps_okD(2) [OF assms(1,2)] assms(2,3)
  by (auto simp: entry_ok_def att_ok_def)

lemma no_attempt: "maps_ok m att \<Longrightarrow> att c = None \<Longrightarrow> m q \<noteq> Some (Connecting c)"
  using maps_okD(1) [of m att q c] by auto

lemma entry_peer: "maps_ok m att \<Longrightarrow> att c = Some a \<Longrightarrow> m q = Some (Connecting c) \<Longrightarrow> q = at_peer a"
  using maps_okD(1) [of m att q c] by (auto simp: entry_ok_def)

lemma attempts_ok_add:
  assumes "attempts_ok sw" "map_of (sw_attempts sw) cid = None"
  shows "attempts_ok (add_peer_inner cid p check sw)"
proof -
  let ?a = "\<lparr>at_peer = p, at_check = check, at_phase = Created, at_polled = False, at_reaped = False\<rparr>"
  have "maps_ok (map_of (sw_mapping sw)) ((map_of (sw_attempts sw))(cid \<mapsto> ?a))"
    by (rule maps_ok_set [OF assms(1)]) (use no_attempt [OF assms] in \<open>auto simp: att_ok_def\<close>)
  then show ?thesis by (simp add: swarm_ops)
qed

lemma attempts_ok_dial:
  assumes "attempts_ok sw" "map_of (sw_attempts sw) cid = None"
  shows "attempts_ok (dialer_add cid p sw)"
  using assms attempts_ok_add [of "sw\<lparr>sw_current_peers := insert p (sw_current_peers sw)\<rparr>" cid p True]
  by (simp add: dialer_add_def)

lemma attempts_ok_start:
  assumes "attempts_ok sw" "map_of (sw_attempts sw) cid = Some a" "at_phase a = Created"
  shows "attempts_ok (add_peer_start cid a sw)"
proof -
  have a: "\<not> at_reaped a" using maps_okD(2) [OF assms(1,2)] assms(3) by (auto simp: att_ok_def)
  have no: "map_of (sw_mapping sw) q \<noteq> Some (Connecting cid)" for q
    using no_entry [OF assms(1,2)] assms(3) by blast
  have "maps_ok (map_of (sw_mapping sw)) ((map_of (sw_attempts sw))(cid \<mapsto> a\<lparr>at_phase := Gone, at_polled := True\<rparr>))"
    by (rule maps_ok_set [OF assms(1)]) (use no a in \<open>auto simp: att_ok_def\<close>)
  moreover have "maps_ok ((map_of (sw_mapping sw))(at_peer a \<mapsto> Connecting cid))
      ((map_of (sw_attempts sw))(cid \<mapsto> a\<lparr>at_phase := Dialing, at_polled := True\<rparr>))"
    if "map_of (sw_mapping sw) (at_peer a) = None"
    by (rule maps_ok_insert [OF assms(1) that]) (use no a in \<open>auto simp: att_ok_def\<close>)
  ultimately show ?thesis by (auto simp: swarm_ops Let_def)
qed

lemma attempts_ok_drop:
  assumes "attempts_ok sw" "map_of (sw_attempts sw) cid = Some a" "at_phase a = Created \<or> at_phase a = Dialing"
  shows "attempts_ok (drop_future cid a sw)"
proof -
  have a: "\<not> at_reaped a" using maps_okD(2) [OF assms(1,2)] assms(3) by (auto simp: att_ok_def)
  have "maps_ok (map_of (sw_mapping sw)) ((map_of (sw_attempts sw))(cid \<mapsto> a\<lparr>at_phase := Gone\<rparr>))"
    by (rule maps_ok_set [OF assms(1)]) (use a entry_peer [OF assms(1,2)] in \<open>auto simp: att_ok_def entry_ok_def\<close>)
  then show ?thesis by (simp add: swarm_ops)
qed

text \<open>Another dialing attempt for the peer of an entry does not exist.\<close>

lemma dialing_unique:
  assumes "maps_ok m att" "m (at_peer a) = Some (Connecting c)"
    and "att d = Some b" "at_phase b = Dialing" "at_peer b = at_peer a"
  shows "d = c"
  using maps_okD(3) [OF assms(1,3,4)] assms(2,5) by simp

lemma attempts_ok_reap:
  assumes "attempts_ok sw" "map_of (sw_attempts sw) cid = Some a" "at_phase a = Adopted \<or> at_phase a = Gone"
  shows "attempts_ok (reap cid a sw)"
proof -
  let ?m = "map_of (sw_mapping sw)" and ?att = "map_of (sw_attempts sw)" and ?a = "a\<lparr>at_reaped := True\<rparr>"
  have ok: "att_ok ?a" using assms(3) maps_okD(2) [OF assms(1,2)] by (auto simp: att_ok_def)
  show ?thesis
  proof (cases "at_phase a \<noteq> Adopted \<and> ?m (at_peer a) = Some (Connecting cid)")
    case True
    have "maps_ok (?m(at_peer a := None)) ?att"
      by (rule maps_ok_change [OF assms(1)])
         (use True assms(2,3) dialing_unique [OF assms(1), of a cid] in auto)
    then have "maps_ok (?m(at_peer a := None)) (?att(cid \<mapsto> ?a))"
      by (rule maps_ok_set) (use ok assms(3) entry_peer [OF assms(1,2)] in \<open>auto split: if_splits\<close>)
    then show ?thesis using True by (simp add: swarm_ops Let_def)
  next
    case False
    have "?m q \<noteq> Some (Connecting cid)" for q
      using False entry_peer [OF assms(1,2), of q] no_entry [OF assms(1,2), of q] assms(3) by auto
    then have "maps_ok ?m (?att(cid \<mapsto> ?a))"
      by (intro maps_ok_set [OF assms(1)]) (use ok assms(3) in auto)
    then show ?thesis using False by (auto simp: swarm_ops Let_def)
  qed
qed

lemma attempts_ok_remove:
  assumes "attempts_ok sw" "map_of (sw_mapping sw) p = Some Connected"
  shows "attempts_ok (snd (disconnect_peer p sw))"
proof -
  have "maps_ok ((map_of (sw_mapping sw))(p := None)) (map_of (sw_attempts sw))"
    by (rule maps_ok_change [OF assms(1)]) (use maps_okD(3) [OF assms(1)] assms(2) in fastforce)+
  then show ?thesis by (simp add: swarm_ops)
qed

text \<open>The connection of a dialing attempt fails, or it is adopted.\<close>

lemma attempts_ok_finish:
  assumes "attempts_ok sw" "map_of (sw_attempts sw) cid = Some a" "at_phase a = Dialing"
    and "x = None \<or> x = Some Connected" "b = a\<lparr>at_phase := Gone\<rparr> \<or> b = a\<lparr>at_phase := Adopted\<rparr>"
  shows "maps_ok ((map_of (sw_mapping sw))(at_peer a := x)) ((map_of (sw_attempts sw))(cid \<mapsto> b))"
proof -
  let ?m = "map_of (sw_mapping sw)" and ?att = "map_of (sw_attempts sw)"
  have m: "?m (at_peer a) = Some (Connecting cid)" by (rule maps_okD(3) [OF assms(1-3)])
  have a: "\<not> at_reaped a" using maps_okD(2) [OF assms(1,2)] assms(3) by (auto simp: att_ok_def)
  have gone: "maps_ok ?m (?att(cid \<mapsto> a\<lparr>at_phase := Gone\<rparr>))"
    by (rule maps_ok_set [OF assms(1)]) (use a entry_peer [OF assms(1,2)] in \<open>auto simp: att_ok_def entry_ok_def\<close>)
  have "maps_ok (?m(at_peer a := x)) (?att(cid \<mapsto> a\<lparr>at_phase := Gone\<rparr>))"
    by (rule maps_ok_change [OF gone _ assms(4)]) (use dialing_unique [OF assms(1) m] in auto)
  then have "maps_ok (?m(at_peer a := x)) (?att(cid \<mapsto> a\<lparr>at_phase := Gone\<rparr>, cid \<mapsto> b))"
    by (rule maps_ok_set)
       (use a assms(4,5) entry_peer [OF assms(1,2)] in \<open>auto simp: att_ok_def split: if_splits\<close>)
  then show ?thesis by simp
qed

section \<open>The counter of connection attempts\<close>

definition attempt_weight :: "attempt \<Rightarrow> int" where
  "attempt_weight a = of_bool (at_polled a) - of_bool (at_reaped a)"

definition in_flight :: "(nat \<Rightarrow> attempt option) \<Rightarrow> int" where
  "in_flight att = (\<Sum>c \<in> dom att. attempt_weight (the (att c)))"

lemma in_flight_set:
  assumes "finite (dom att)"
  shows "in_flight (att(c \<mapsto> a)) =
    in_flight att - (case att c of None \<Rightarrow> 0 | Some b \<Rightarrow> attempt_weight b) + attempt_weight a"
proof -
  let ?w = "\<lambda>att c. attempt_weight (the (att c))"
  have "in_flight (att(c \<mapsto> a)) = attempt_weight a + (\<Sum>d \<in> dom att - {c}. ?w (att(c \<mapsto> a)) d)"
    using assms by (simp add: in_flight_def sum.insert_remove)
  also have "(\<Sum>d \<in> dom att - {c}. ?w (att(c \<mapsto> a)) d) = (\<Sum>d \<in> dom att - {c}. ?w att d)"
    by (intro sum.cong) auto
  also have "\<dots> = in_flight att - (case att c of None \<Rightarrow> 0 | Some b \<Rightarrow> attempt_weight b)"
    using assms by (cases "att c") (auto simp: in_flight_def sum_diff1 domIff)
  finally show ?thesis by linarith
qed

definition counted :: "'s swarm \<Rightarrow> bool" where
  "counted sw \<longleftrightarrow> sw_connecting sw = word_of_int (in_flight (map_of (sw_attempts sw)))"

lemma counted_set:
  assumes "counted sw" "sw_attempts sw' = AList.update c a (sw_attempts sw)"
    and "sw_connecting sw' = sw_connecting sw +
      word_of_int (attempt_weight a - (case map_of (sw_attempts sw) c of None \<Rightarrow> 0 | Some b \<Rightarrow> attempt_weight b))"
  shows "counted sw'"
proof -
  have "finite (dom (map_of (sw_attempts sw)))" by (rule finite_dom_map_of)
  from in_flight_set [OF this, of c a] assms show ?thesis by (simp add: counted_def)
qed

lemma counted_same:
  "counted sw \<Longrightarrow> sw_attempts sw' = sw_attempts sw \<Longrightarrow> sw_connecting sw' = sw_connecting sw \<Longrightarrow> counted sw'"
  by (simp add: counted_def)

section \<open>The invariant\<close>

lemma pool_okI:
  assumes "pool_ok sw" "sw_filter sw' = sw_filter sw"
    and "length (sw_mapping sw') \<le> length (sw_mapping sw) \<or>
         memory_allow (sw_filter sw) (length (sw_mapping sw)) p \<and> length (sw_mapping sw') \<le> Suc (length (sw_mapping sw)) \<or>
         (\<exists>c a. map_of (sw_attempts sw') c = Some a \<and> \<not> at_check a)"
    and "\<And>c a. map_of (sw_attempts sw) c = Some a \<Longrightarrow> \<exists>b. map_of (sw_attempts sw') c = Some b \<and> at_check b = at_check a"
  shows "pool_ok sw'"
proof (cases "\<exists>c a. map_of (sw_attempts sw) c = Some a \<and> \<not> at_check a")
  case True
  then show ?thesis using assms(4) unfolding pool_ok_def by blast
next
  case False
  then have "length (sw_mapping sw) \<le> memory_max_peers (sw_filter sw)" using assms(1) by (auto simp: pool_ok_def)
  then show ?thesis using assms(2,3) by (auto simp: pool_ok_def filter_allow_def)
qed

lemma length_delete: "length (AList.delete k m) \<le> length m"
  by (simp add: AList.delete_eq)

definition swarm_inv :: "('s \<Rightarrow> peer_id set) \<Rightarrow> ('s \<Rightarrow> bool) \<Rightarrow> 's swarm \<Rightarrow> bool" where
  "swarm_inv known ok sw \<longleftrightarrow> distinct (map fst (sw_mapping sw)) \<and> attempts_ok sw \<and>
     server_knows_connected known ok sw \<and> pool_ok sw \<and> counted sw"

lemma swarm_invD:
  assumes "swarm_inv known ok sw"
  shows "distinct (map fst (sw_mapping sw))" "attempts_ok sw" "server_knows_connected known ok sw" "pool_ok sw" "counted sw"
  using assms by (simp_all add: swarm_inv_def)

context capability_server
begin

lemma setup_ok:
  assumes "server_knows_connected known ok sw" "map_of (sw_mapping sw) p \<noteq> Some Connected" "caps_ok (capability_map caps)"
  shows "\<exists>s'. setup_peer_state con p caps sw = (Ok (), sw\<lparr>sw_server := s'\<rparr>) \<and> ok s' \<and> known s' = insert p (known (sw_server sw))"
proof -
  have "ok (sw_server sw)" "p \<notin> known (sw_server sw)" using assms(1,2) by (auto simp: server_knows_connected_def)
  from con_ok [OF this assms(3)] show ?thesis by (auto simp: setup_peer_state_def)
qed

text \<open>An incoming connection: the state is as it was, or the peer is admitted and connected.\<close>

lemma incoming_cases:
  assumes "server_knows_connected known ok sw" "caps_ok (capability_map caps)"
  shows "handle_incoming_request con (Ok (p, caps)) sw = (Ok (), sw) \<or>
    map_of (sw_mapping sw) p = None \<and> memory_allow (sw_filter sw) (length (sw_mapping sw)) p \<and>
    (\<exists>s'. handle_incoming_request con (Ok (p, caps)) sw =
        (Ok (), sw\<lparr>sw_server := s', sw_mapping := AList.update p Connected (sw_mapping sw)\<rparr>) \<and>
      ok s' \<and> known s' = insert p (known (sw_server sw)))"
  using setup_ok [OF assms(1) _ assms(2), of p]
  by (cases "map_of (sw_mapping sw) p"; cases "memory_allow (sw_filter sw) (length (sw_mapping sw)) p")
     (auto simp: handle_incoming_request_def)

lemma finish_ok:
  assumes "server_knows_connected known ok sw" "caps_ok (capability_map caps)"
    and "map_of (sw_mapping sw) (at_peer a) = Some (Connecting cid)"
  shows "\<exists>s'. add_peer_finish con cid a (Ok caps) sw = (Ok True,
      set_attempt cid (a\<lparr>at_phase := Adopted\<rparr>) (set_attempt cid (a\<lparr>at_phase := Gone\<rparr>)
        (sw\<lparr>sw_server := s', sw_mapping := AList.update (at_peer a) Connected (sw_mapping sw)\<rparr>))) \<and>
      ok s' \<and> known s' = insert (at_peer a) (known (sw_server sw))"
proof -
  let ?sw = "set_attempt cid (a\<lparr>at_phase := Gone\<rparr>) sw"
  have "server_knows_connected known ok ?sw" "map_of (sw_mapping ?sw) (at_peer a) \<noteq> Some Connected"
    using assms by (simp_all add: server_knows_connected_def set_attempt_def)
  from setup_ok [OF this assms(2)] assms(3) show ?thesis
    by (auto simp: add_peer_finish_def set_attempt_def Let_def)
qed

lemma finish_err:
  assumes "map_of (sw_mapping sw) (at_peer a) = Some (Connecting cid)"
  shows "add_peer_finish con cid a (Err ()) sw = (Err (),
      set_attempt cid (a\<lparr>at_phase := Gone\<rparr>) (sw\<lparr>sw_mapping := AList.delete (at_peer a) (sw_mapping sw)\<rparr>))"
  using assms by (simp add: add_peer_finish_def set_attempt_def Let_def)

end

lemma distinct_ops [simp]:
  "distinct (map fst m) \<Longrightarrow> distinct (map fst (AList.update k v m))"
  "distinct (map fst m) \<Longrightarrow> distinct (map fst (AList.delete k m))"
  by (simp_all add: distinct_update distinct_delete)

lemma length_update_fresh: "map_of m k = None \<Longrightarrow> length (AList.update k v m) = Suc (length m)"
  by (simp add: length_alist_update map_of_eq_None_iff)

lemma length_update_old: "map_of m k = Some x \<Longrightarrow> length (AList.update k v m) = length m"
  by (auto simp: length_alist_update dest: map_of_SomeD intro: rev_image_eqI)

lemma knows_mapping:
  assumes "server_knows_connected known ok sw" "sw_server sw' = sw_server sw"
    and "\<And>p. map_of (sw_mapping sw) p = Some Connected \<Longrightarrow> p \<in> known (sw_server sw) \<Longrightarrow> map_of (sw_mapping sw') p = Some Connected"
  shows "server_knows_connected known ok sw'"
  using assms by (auto simp: server_knows_connected_def)

lemma inv_add:
  assumes "swarm_inv known ok sw" "map_of (sw_attempts sw) cid = None"
  shows "swarm_inv known ok (add_peer_inner cid p check sw)"
proof -
  note inv = swarm_invD [OF assms(1)]
  have "pool_ok (add_peer_inner cid p check sw)"
    by (rule pool_okI [OF inv(4)]) (use assms(2) in \<open>auto simp: swarm_ops\<close>)
  moreover have "counted (add_peer_inner cid p check sw)"
    by (rule counted_set [OF inv(5)]) (use assms(2) in \<open>auto simp: swarm_ops attempt_weight_def\<close>)
  ultimately show ?thesis using inv attempts_ok_add [OF inv(2) assms(2)]
    by (auto simp: swarm_inv_def swarm_ops intro: knows_mapping)
qed

lemma inv_current: "swarm_inv known ok (sw\<lparr>sw_current_peers := x\<rparr>) = swarm_inv known ok sw"
  by (simp add: swarm_inv_def server_knows_connected_def pool_ok_def counted_def)

lemma inv_start:
  assumes "swarm_inv known ok sw" "map_of (sw_attempts sw) cid = Some a" "at_phase a = Created"
  shows "swarm_inv known ok (add_peer_start cid a sw)"
proof -
  note inv = swarm_invD [OF assms(1)]
  have a: "\<not> at_polled a" using maps_okD(2) [OF inv(2) assms(2)] assms(3) by (simp add: att_ok_def)
  have "counted (add_peer_start cid a sw)"
    by (rule counted_set [OF inv(5), where c = cid and
          a = "if map_of (sw_mapping sw) (at_peer a) \<noteq> None \<or> at_check a \<and> \<not> memory_allow (sw_filter sw) (length (sw_mapping sw)) (at_peer a)
               then a\<lparr>at_phase := Gone, at_polled := True\<rparr> else a\<lparr>at_phase := Dialing, at_polled := True\<rparr>"])
       (use assms(2) a in \<open>auto simp: swarm_ops Let_def attempt_weight_def\<close>)
  moreover have "pool_ok (add_peer_start cid a sw)"
    by (rule pool_okI [OF inv(4), where p = "at_peer a"])
       (use assms(2) in \<open>auto simp: swarm_ops Let_def length_alist_update\<close>)
  moreover have "server_knows_connected known ok (add_peer_start cid a sw)"
    by (rule knows_mapping [OF inv(3)]) (auto simp: swarm_ops Let_def)
  moreover have "distinct (map fst (sw_mapping (add_peer_start cid a sw)))"
    using inv(1) by (simp add: swarm_ops Let_def)
  ultimately show ?thesis using attempts_ok_start [OF inv(2) assms(2,3)] by (simp add: swarm_inv_def)
qed

lemma inv_drop:
  assumes "swarm_inv known ok sw" "map_of (sw_attempts sw) cid = Some a" "at_phase a = Created \<or> at_phase a = Dialing"
  shows "swarm_inv known ok (drop_future cid a sw)"
proof -
  note inv = swarm_invD [OF assms(1)]
  have "counted (drop_future cid a sw)"
    by (rule counted_set [OF inv(5)]) (use assms(2) in \<open>auto simp: swarm_ops attempt_weight_def\<close>)
  moreover have "pool_ok (drop_future cid a sw)"
    by (rule pool_okI [OF inv(4)]) (use assms(2) in \<open>auto simp: swarm_ops\<close>)
  ultimately show ?thesis using inv attempts_ok_drop [OF inv(2) assms(2,3)]
    by (auto simp: swarm_inv_def swarm_ops intro: knows_mapping)
qed

lemma inv_reap:
  assumes "swarm_inv known ok sw" "map_of (sw_attempts sw) cid = Some a" "at_phase a = Adopted \<or> at_phase a = Gone" "\<not> at_reaped a"
  shows "swarm_inv known ok (reap cid a sw)"
proof -
  note inv = swarm_invD [OF assms(1)]
  have "counted (reap cid a sw)"
    by (rule counted_set [OF inv(5), where c = cid and a = "a\<lparr>at_reaped := True\<rparr>"])
       (use assms(2,4) in \<open>auto simp: swarm_ops Let_def attempt_weight_def\<close>)
  moreover have "pool_ok (reap cid a sw)"
    by (rule pool_okI [OF inv(4)]) (use assms(2) in \<open>auto simp: swarm_ops Let_def length_delete\<close>)
  moreover have "server_knows_connected known ok (reap cid a sw)"
    by (rule knows_mapping [OF inv(3)]) (auto simp: swarm_ops Let_def)
  moreover have "distinct (map fst (sw_mapping (reap cid a sw)))"
    using inv(1) by (simp add: swarm_ops Let_def)
  ultimately show ?thesis using attempts_ok_reap [OF inv(2) assms(2,3)] by (simp add: swarm_inv_def)
qed

lemma inv_remove:
  assumes "swarm_inv known ok sw" "map_of (sw_mapping sw) p = Some Connected" "p \<notin> known (sw_server sw)"
  shows "swarm_inv known ok (snd (disconnect_peer p sw))"
proof -
  note inv = swarm_invD [OF assms(1)]
  have "pool_ok (snd (disconnect_peer p sw))"
    by (rule pool_okI [OF inv(4)]) (auto simp: swarm_ops length_delete)
  moreover have "server_knows_connected known ok (snd (disconnect_peer p sw))"
    by (rule knows_mapping [OF inv(3)]) (use assms(3) in \<open>auto simp: swarm_ops\<close>)
  moreover have "counted (snd (disconnect_peer p sw))"
    by (rule counted_same [OF inv(5)]) (simp_all add: swarm_ops)
  ultimately show ?thesis using attempts_ok_remove [OF inv(2) assms(2)] inv(1) by (simp add: swarm_inv_def swarm_ops)
qed

lemma inv_finish:
  assumes "swarm_inv known ok sw" "map_of (sw_attempts sw) cid = Some a" "at_phase a = Dialing"
  shows "swarm_inv known ok (set_attempt cid (a\<lparr>at_phase := Gone\<rparr>) (sw\<lparr>sw_mapping := AList.delete (at_peer a) (sw_mapping sw)\<rparr>))"
      (is "swarm_inv _ _ ?g")
    and "ok s' \<Longrightarrow> known s' = insert (at_peer a) (known (sw_server sw)) \<Longrightarrow>
      swarm_inv known ok (set_attempt cid (a\<lparr>at_phase := Adopted\<rparr>) (set_attempt cid (a\<lparr>at_phase := Gone\<rparr>)
        (sw\<lparr>sw_server := s', sw_mapping := AList.update (at_peer a) Connected (sw_mapping sw)\<rparr>)))"
      (is "_ \<Longrightarrow> _ \<Longrightarrow> swarm_inv _ _ ?c")
proof -
  note inv = swarm_invD [OF assms(1)]
  have m: "map_of (sw_mapping sw) (at_peer a) = Some (Connecting cid)" by (rule maps_okD(3) [OF inv(2) assms(2,3)])
  have cg: "counted ?g"
    by (rule counted_set [OF inv(5)]) (use assms(2) in \<open>auto simp: swarm_ops attempt_weight_def\<close>)
  have pg: "pool_ok ?g"
    by (rule pool_okI [OF inv(4)]) (use assms(2) in \<open>auto simp: swarm_ops length_delete\<close>)
  have kg: "server_knows_connected known ok ?g"
    by (rule knows_mapping [OF inv(3)]) (use m in \<open>auto simp: swarm_ops\<close>)
  have "attempts_ok ?g"
    using attempts_ok_finish [OF inv(2) assms(2,3), of None] by (simp add: swarm_ops)
  then show "swarm_inv known ok ?g" using cg pg kg inv(1) by (simp add: swarm_inv_def swarm_ops)
  assume s': "ok s'" "known s' = insert (at_peer a) (known (sw_server sw))"
  have upd: "AList.update cid x (AList.update cid y l) = AList.update cid x l" for x y :: attempt and l
    by (induction l) auto
  have "counted ?c"
    by (rule counted_set [OF inv(5)]) (use assms(2) in \<open>auto simp: swarm_ops upd attempt_weight_def\<close>)
  moreover have "pool_ok ?c"
    by (rule pool_okI [OF inv(4)]) (use assms(2) m in \<open>auto simp: swarm_ops length_update_old\<close>)
  moreover have "server_knows_connected known ok ?c"
    using inv(3) s' by (auto simp: server_knows_connected_def swarm_ops)
  moreover have "attempts_ok ?c"
    using attempts_ok_finish [OF inv(2) assms(2,3), of "Some Connected"] by (simp add: swarm_ops)
  ultimately show "swarm_inv known ok ?c" using inv(1) by (simp add: swarm_inv_def swarm_ops)
qed

lemma inv_incoming:
  assumes "swarm_inv known ok sw" "map_of (sw_mapping sw) p = None"
    and "memory_allow (sw_filter sw) (length (sw_mapping sw)) p" "ok s'" "known s' = insert p (known (sw_server sw))"
  shows "swarm_inv known ok (sw\<lparr>sw_server := s', sw_mapping := AList.update p Connected (sw_mapping sw)\<rparr>)" (is "swarm_inv _ _ ?c")
proof -
  note inv = swarm_invD [OF assms(1)]
  have "pool_ok ?c"
    by (rule pool_okI [OF inv(4), where p = p]) (use assms(2,3) in \<open>auto simp: length_update_fresh\<close>)
  moreover have "counted ?c" by (rule counted_same [OF inv(5)]) simp_all
  moreover have "server_knows_connected known ok ?c"
    using inv(3) assms(4,5) by (auto simp: server_knows_connected_def)
  moreover have "maps_ok ((map_of (sw_mapping sw))(p := Some Connected)) (map_of (sw_attempts sw))"
    by (rule maps_ok_change [OF inv(2)]) (use maps_okD(3) [OF inv(2)] assms(2) in fastforce)+
  ultimately show ?thesis using inv(1) by (simp add: swarm_inv_def)
qed

context capability_server
begin

lemma swarm_step_inv: "swarm_step con evt known ok caps_ok sw sw' \<Longrightarrow> swarm_inv known ok sw \<Longrightarrow> swarm_inv known ok sw'"
proof (induction rule: swarm_step.induct)
  case (sw_incoming caps p sw r sw')
  from incoming_cases [OF swarm_invD(3) [OF sw_incoming(3)] sw_incoming(1), of p] sw_incoming(2,3)
  show ?case using inv_incoming [OF sw_incoming(3), of p] by auto
next
  case (sw_add sw cid p check)
  then show ?case by (simp add: inv_add)
next
  case (sw_dial sw cid p)
  then show ?case using inv_add [of known ok "sw\<lparr>sw_current_peers := insert p (sw_current_peers sw)\<rparr>" cid p True]
    by (simp add: dialer_add_def inv_current)
next
  case (sw_done sw p)
  then show ?case by (simp add: dialer_done_def inv_current)
next
  case (sw_start sw cid a)
  then show ?case by (simp add: inv_start)
next
  case (sw_finish sw cid a caps r sw')
  have m: "map_of (sw_mapping sw) (at_peer a) = Some (Connecting cid)"
    by (rule maps_okD(3) [OF swarm_invD(2) [OF sw_finish(5)] sw_finish(1,2)])
  from finish_ok [OF swarm_invD(3) [OF sw_finish(5)] sw_finish(3) m] sw_finish(4)
  show ?case using inv_finish(2) [OF sw_finish(5,1,2)] by auto
next
  case (sw_fail sw cid a r sw')
  have m: "map_of (sw_mapping sw) (at_peer a) = Some (Connecting cid)"
    by (rule maps_okD(3) [OF swarm_invD(2) [OF sw_fail(4)] sw_fail(1,2)])
  from finish_err [OF m] sw_fail(3) show ?case using inv_finish(1) [OF sw_fail(4,1,2)] by auto
next
  case (sw_drop sw cid a)
  then show ?case by (simp add: inv_drop)
next
  case (sw_reap sw cid a)
  then show ?case by (simp add: inv_reap)
next
  case (sw_teardown sw p reason r s')
  have "ok (sw_server sw)" using swarm_invD(3) [OF sw_teardown(3)] by (simp add: server_knows_connected_def)
  from disconnect_ok [OF this, of p reason] sw_teardown(2)
  have "ok s'" "known s' = known (sw_server sw) - {p}" by auto
  then show ?case using swarm_invD [OF sw_teardown(3)]
    by (auto simp: swarm_inv_def server_knows_connected_def pool_ok_def counted_def)
next
  case (sw_remove sw p)
  then show ?case by (simp add: inv_remove)
next
  case (sw_serve s' sw)
  then show ?case by (auto simp: swarm_inv_def server_knows_connected_def pool_ok_def counted_def)
qed

lemma new_swarm_inv: "ok s \<Longrightarrow> known s = {} \<Longrightarrow> swarm_inv known ok (new_swarm n s)"
  by (simp add: swarm_inv_def new_swarm_def maps_ok_def server_knows_connected_def pool_ok_def counted_def in_flight_def)

end

sublocale capability_server \<subseteq> swarm_sys: invariant_system
  "\<lambda>sw. \<exists>n s. ok s \<and> known s = {} \<and> sw = new_swarm n s" "swarm_step con evt known ok caps_ok" "swarm_inv known ok"
  by unfold_locales (auto simp: new_swarm_inv swarm_step_inv)

section \<open>The swarm of the sentry\<close>

text \<open>
  The swarm with the capability server of the sentry: what holds of every server that keeps the
  contract holds here.
\<close>

abbreviation has_eth :: "(cap_name \<times> nat) list \<Rightarrow> bool" where
  "has_eth caps \<equiv> map_of caps capability_name \<noteq> None"

definition sentry_start :: "'ff cap_server swarm \<Rightarrow> bool" where
  "sentry_start sw \<longleftrightarrow> (\<exists>n. sw = new_swarm n new_cap_server)"

definition sentry_reach :: "('ff, 'fid) cap_env \<Rightarrow> 'ff cap_server swarm \<Rightarrow> bool" where
  "sentry_reach env = reach sentry_start
     (swarm_step (on_peer_connect env) (server_event env) all_peers server_inv has_eth)"

lemma reach_mono: "reach ini stp s \<Longrightarrow> (\<And>s. ini s \<Longrightarrow> ini' s) \<Longrightarrow> reach ini' stp s"
  by (induction rule: reach.induct) (auto intro: reach.intros)

lemma sentry_inv:
  assumes "sentry_reach env sw"
  shows "swarm_inv all_peers server_inv sw"
proof -
  have start: "\<exists>n s. server_inv s \<and> all_peers s = {} \<and> sw = new_swarm n s" if "sentry_start sw" for sw :: "'a cap_server swarm"
  proof -
    have "all_peers (new_cap_server :: 'a cap_server) = {}" by (simp add: all_peers_def new_cap_server_def)
    then show ?thesis using that new_server_inv unfolding sentry_start_def by blast
  qed
  have "reach (\<lambda>sw. \<exists>n s. server_inv s \<and> all_peers s = {} \<and> sw = new_swarm n s)
      (swarm_step (on_peer_connect env) (server_event env) all_peers server_inv has_eth) sw"
    by (rule reach_mono [OF assms [unfolded sentry_reach_def] start])
  then show ?thesis by (rule cap_srv.swarm_sys.reach_inv)
qed

text \<open>
  C1. The map of the swarm is consistent whatever the tasks do and in whatever order. Every entry that
  is connecting belongs to one attempt for this peer, which is still dialing or waits for its reaper; a
  dialing attempt finds its own entry; and the capability server knows connected peers only.
\<close>

theorem swarm_entries_consistent:
  assumes "sentry_reach env sw"
  shows "distinct (map fst (sw_mapping sw)) \<and>
     (\<forall>p c. map_of (sw_mapping sw) p = Some (Connecting c) \<longrightarrow>
        (\<exists>a. map_of (sw_attempts sw) c = Some a \<and> at_peer a = p \<and>
           (at_phase a = Dialing \<or> at_phase a = Gone \<and> \<not> at_reaped a))) \<and>
     (\<forall>c a. map_of (sw_attempts sw) c = Some a \<longrightarrow> at_phase a = Dialing \<longrightarrow>
        map_of (sw_mapping sw) (at_peer a) = Some (Connecting c)) \<and>
     (\<forall>p \<in> all_peers (sw_server sw). map_of (sw_mapping sw) p = Some Connected)"
  using swarm_invD(1-3) [OF sentry_inv [OF assms]]
  by (simp add: maps_ok_def entry_ok_def server_knows_connected_def)

text \<open>
  C25. The pool never exceeds its limit as long as peers come from the dialer and from outside: only
  \<open>add_peer\<close>, which skips the filter, can go beyond it.
\<close>

theorem swarm_pool_bounded:
  assumes "sentry_reach env sw" "\<forall>c a. map_of (sw_attempts sw) c = Some a \<longrightarrow> at_check a"
  shows "length (sw_mapping sw) \<le> memory_max_peers (sw_filter sw)"
  using swarm_invD(4) [OF sentry_inv [OF assms(1)]] assms(2) by (auto simp: pool_ok_def)

text \<open>
  No connection is lost and none makes the swarm panic. An attempt whose connection comes up is
  always adopted: the peer is connected and the capability server knows it. An incoming connection is
  handled without a panic.
\<close>

theorem swarm_adopts:
  assumes "sentry_reach env sw" "map_of (sw_attempts sw) cid = Some a" "at_phase a = Dialing" "has_eth (capability_map caps)"
  shows "fst (add_peer_finish (on_peer_connect env) cid a (Ok caps) sw) = Ok True \<and>
     (let sw' = snd (add_peer_finish (on_peer_connect env) cid a (Ok caps) sw)
      in map_of (sw_mapping sw') (at_peer a) = Some Connected \<and> at_peer a \<in> all_peers (sw_server sw')) \<and>
     fst (handle_incoming_request (on_peer_connect env) (Ok (p, caps)) sw) = Ok ()"
proof -
  note inv = swarm_invD [OF sentry_inv [OF assms(1)]]
  have m: "map_of (sw_mapping sw) (at_peer a) = Some (Connecting cid)" by (rule maps_okD(3) [OF inv(2) assms(2,3)])
  from cap_srv.finish_ok [OF inv(3) assms(4) m, of env] cap_srv.incoming_cases [OF inv(3) assms(4), of env p]
  show ?thesis by (auto simp: set_attempt_def)
qed

text \<open>
  C33. The number of peers being dialed is, modulo \<open>2 ^ 64\<close>, the futures that have been polled less the
  reapers that have run. A future that is dropped before its first poll is not counted but reaped, so
  the counter then wraps to \<open>2 ^ 64 - 1\<close>.
\<close>

theorem swarm_dialing_count:
  "(sentry_reach env sw \<longrightarrow> dialing sw = word_of_int (in_flight (map_of (sw_attempts sw)))) \<and>
   (\<exists>sw'. sentry_reach env sw' \<and> sw_mapping sw' = [] \<and> dialing sw' = - 1)"
proof (intro conjI impI)
  show "dialing sw = word_of_int (in_flight (map_of (sw_attempts sw)))" if "sentry_reach env sw"
    using swarm_invD(5) [OF sentry_inv [OF that]] by (simp add: dialing_def counted_def)
  let ?a = "\<lparr>at_peer = [1], at_check = True, at_phase = Created, at_polled = False, at_reaped = False\<rparr>"
  let ?s0 = "new_swarm 1 new_cap_server :: 'a cap_server swarm"
  let ?s1 = "add_peer_inner 0 [1] True ?s0"
  let ?s2 = "drop_future 0 ?a ?s1"
  let ?s3 = "reap 0 (?a\<lparr>at_phase := Gone\<rparr>) ?s2"
  let ?step = "swarm_step (on_peer_connect env) (server_event env) all_peers server_inv has_eth"
  have "?step ?s0 ?s1" by (rule sw_add) (simp add: new_swarm_def)
  moreover have "?step ?s1 ?s2" by (rule sw_drop) (simp_all add: swarm_ops new_swarm_def)
  moreover have "?step ?s2 ?s3" by (rule sw_reap) (simp_all add: swarm_ops new_swarm_def)
  ultimately have "sentry_reach env ?s3"
    unfolding sentry_reach_def
    by (elim reach_step [rotated]) (rule reach_init, auto simp: sentry_start_def)
  moreover have "sw_mapping ?s3 = [] \<and> dialing ?s3 = - 1"
    by (simp add: swarm_ops new_swarm_def dialing_def Let_def)
  ultimately show "\<exists>sw'. sentry_reach env sw' \<and> sw_mapping sw' = [] \<and> dialing sw' = - 1" by blast
qed

section \<open>Witnesses\<close>

definition demo_attempt :: attempt where
  "demo_attempt = \<lparr>at_peer = [1], at_check = True, at_phase = Created, at_polled = False, at_reaped = False\<rparr>"

definition demo_dialing :: attempt where
  "demo_dialing = demo_attempt\<lparr>at_phase := Dialing, at_polled := True\<rparr>"

definition demo_swarm :: "unit cap_server swarm" where
  "demo_swarm = add_peer_start 0 demo_attempt (add_peer_inner 0 [1] True (new_swarm 2 new_cap_server))"

lemma demo_swarm_maps:
  "map_of (sw_attempts demo_swarm) = [0 \<mapsto> demo_dialing]" "map_of (sw_mapping demo_swarm) = [[1] \<mapsto> Connecting 0]"
  "sw_mapping demo_swarm = [([1], Connecting 0)]" "sw_filter demo_swarm = new_memory_filter 2"
  by (simp_all add: demo_swarm_def demo_attempt_def demo_dialing_def swarm_ops new_swarm_def Let_def filter_allow_def
      memory_max_peers_def memory_is_banned_def new_memory_filter_def fun_eq_iff)

lemma demo_swarm_reach: "sentry_reach demo_env demo_swarm"
proof -
  let ?step = "swarm_step (on_peer_connect demo_env) (server_event demo_env) all_peers server_inv has_eth"
  let ?s0 = "new_swarm 2 new_cap_server :: unit cap_server swarm"
  have "?step ?s0 (add_peer_inner 0 [1] True ?s0)" by (rule sw_add) (simp add: new_swarm_def)
  moreover have "?step (add_peer_inner 0 [1] True ?s0) demo_swarm"
    unfolding demo_swarm_def by (rule sw_start) (simp_all add: swarm_ops new_swarm_def demo_attempt_def)
  ultimately show ?thesis
    unfolding sentry_reach_def
    by (elim reach_step [rotated]) (rule reach_init, auto simp: sentry_start_def)
qed

theorem swarm_entries_consistent_witness:
  "\<exists>a. map_of (sw_attempts demo_swarm) 0 = Some a \<and> at_peer a = [1]"
proof -
  have "map_of (sw_mapping demo_swarm) [1] = Some (Connecting 0)" by (simp add: demo_swarm_maps)
  with swarm_entries_consistent [OF demo_swarm_reach] show ?thesis by blast
qed

theorem swarm_pool_bounded_witness: "length (sw_mapping demo_swarm) \<le> memory_max_peers (sw_filter demo_swarm)"
proof (rule swarm_pool_bounded [OF demo_swarm_reach])
  show "\<forall>c a. map_of (sw_attempts demo_swarm) c = Some a \<longrightarrow> at_check a"
    by (simp add: demo_swarm_maps demo_dialing_def demo_attempt_def)
qed

theorem swarm_adopts_witness:
  "fst (add_peer_finish (on_peer_connect demo_env) 0 demo_dialing (Ok [eth_cap 65]) demo_swarm) = Ok True \<and>
   fst (handle_incoming_request (on_peer_connect demo_env) (Ok ([2], [eth_cap 65])) demo_swarm) = Ok ()"
proof -
  have "has_eth (capability_map [eth_cap 65])"
    by (simp add: capability_map_def eth_cap_def eth_name_def capability_name_def)
  from swarm_adopts [OF demo_swarm_reach _ _ this, of 0 demo_dialing "[2]"] show ?thesis
    by (simp add: demo_swarm_maps) (simp add: demo_dialing_def)
qed

theorem swarm_dialing_count_witness:
  "dialing demo_swarm = 1 \<and> (\<exists>sw'. sentry_reach demo_env sw' \<and> sw_mapping sw' = [] \<and> dialing sw' = - 1)"
proof -
  have "in_flight (map_of (sw_attempts demo_swarm)) = 1"
    by (simp add: demo_swarm_maps in_flight_def attempt_weight_def demo_dialing_def demo_attempt_def)
  then show ?thesis using swarm_dialing_count [of demo_env demo_swarm] demo_swarm_reach by simp
qed

end
