(* ===== verification/Peer_Tasks.thy ===== *)
theory Peer_Tasks
  imports Cap_Server
begin

text \<open>
  The three tasks \<open>setup_peer_state\<close> of \<^verbatim>\<open>devp2p/src/rlpx.rs\<close> starts for a connected peer: the ingress
  router, the egress router that also disconnects, and the pinger. Each is a function from what its
  \<open>await\<close>s yield, in order, to what it does.
\<close>

datatype disconnect_initiator = Local | LocalForceful | Remote

record disconnect_signal =
  ds_initiator :: disconnect_initiator
  ds_reason :: disconnect_reason

section \<open>Ingress\<close>

datatype ingress_action = IngressEvent cap_name message | IngressPong | IngressClearPinged

text \<open>
  The items of the peer stream until it ends: the actions, and the signal sent to the egress router.
  When the stream panics the task is gone and sends none.
\<close>

fun ingress_router :: "(peer_error, peer_message) outcome list \<Rightarrow> ingress_action list \<times> disconnect_signal option" where
  "ingress_router [] = ([], Some \<lparr>ds_initiator = Remote, ds_reason = DisconnectRequested\<rparr>)"
| "ingress_router (Err e # items) = ([], Some \<lparr>ds_initiator = Remote, ds_reason = DisconnectRequested\<rparr>)"
| "ingress_router (Panic # items) = ([], None)"
| "ingress_router (Ok m # items) =
     (case m of
        PSubprotocol name msg \<Rightarrow> apfst (Cons (IngressEvent name msg)) (ingress_router items)
      | PDisconnect reason \<Rightarrow> ([], Some \<lparr>ds_initiator = Remote, ds_reason = reason\<rparr>)
      | PPing \<Rightarrow> apfst (Cons IngressPong) (ingress_router items)
      | PPong \<Rightarrow> apfst (Cons IngressClearPinged) (ingress_router items))"

section \<open>Egress\<close>

text \<open>What the \<open>select!\<close> of the egress router picks.\<close>

datatype egress_input = FromServer outbound_event | FromPinger | FromPongs | FromSignal disconnect_signal

datatype egress_action =
    EgressNext | EgressSend peer_message | EgressTrigger | EgressGrace
  | EgressReport disconnect_reason | EgressRemove

text \<open>The first half of an iteration: is \<open>next\<close> called again, what is sent, and is it the end.\<close>

fun egress_select :: "egress_input \<Rightarrow> bool \<times> peer_message option \<times> bool \<times> disconnect_signal option" where
  "egress_select (FromServer (OutMessage name msg)) = (True, Some (PSubprotocol name msg), False, None)"
| "egress_select (FromServer (OutDisconnect reason)) =
     (False, Some (PDisconnect reason), False, Some \<lparr>ds_initiator = Local, ds_reason = reason\<rparr>)"
| "egress_select FromPinger = (False, Some PPing, True, None)"
| "egress_select FromPongs = (False, Some PPong, False, None)"
| "egress_select (FromSignal s) =
     (False, if ds_initiator s = Local then Some (PDisconnect (ds_reason s)) else None, False, Some s)"

text \<open>An iteration, with the result of the \<open>send\<close>: its actions, and whether the loop ends.\<close>

definition egress_iteration :: "egress_input \<Rightarrow> bool \<Rightarrow> egress_action list \<times> bool" where
  "egress_iteration input sent =
     (let (again, egress, trigger, disconnecting) = egress_select input;
          (sending, disconnecting) =
            (case egress of
               None \<Rightarrow> ([], disconnecting)
             | Some m \<Rightarrow>
                 if sent then ([EgressSend m] @ (if trigger then [EgressTrigger] else []), disconnecting)
                 else ([EgressSend m],
                       Some (case disconnecting of
                               None \<Rightarrow> \<lparr>ds_initiator = LocalForceful, ds_reason = TcpSubsystemError\<rparr>
                             | Some s \<Rightarrow> s)));
          ending =
            (case disconnecting of
               None \<Rightarrow> []
             | Some s \<Rightarrow> (if ds_initiator s = Local then [EgressGrace] else []) @ [EgressReport (ds_reason s)])
      in ((if again then [EgressNext] else []) @ sending @ ending, disconnecting \<noteq> None))"

text \<open>
  The loop and what follows it. After the report the task takes the peer out of the map, if the map is still
  there (\<open>streams.upgrade()\<close>): \<open>alive\<close>.
\<close>

fun egress_loop :: "bool \<Rightarrow> (egress_input \<times> bool) list \<Rightarrow> egress_action list" where
  "egress_loop alive [] = []"
| "egress_loop alive ((input, sent) # inputs) =
     (let (actions, ended) = egress_iteration input sent
      in if ended then actions @ (if alive then [EgressRemove] else []) else actions @ egress_loop alive inputs)"

definition egress_router :: "bool \<Rightarrow> (egress_input \<times> bool) list \<Rightarrow> egress_action list" where
  "egress_router alive inputs = EgressNext # egress_loop alive inputs"

section \<open>Pings\<close>

text \<open>
  A round of the pinger: was the ping sent, and has a pong cleared the flag by the timeout? The result
  is the signal it sends, if any, and whether it is still running.
\<close>

fun pinger :: "(bool \<times> bool) list \<Rightarrow> disconnect_signal option \<times> bool" where
  "pinger [] = (None, True)"
| "pinger ((sent, pong) # rounds) =
     (if sent
      then if \<not> pong then (Some \<lparr>ds_initiator = Local, ds_reason = PingTimeout\<rparr>, False)
           else pinger rounds
      else (None, False))"

lemma pinger_keeps: "(\<forall>r \<in> set rounds. r = (True, True)) \<Longrightarrow> pinger (rounds @ rest) = pinger rest"
  by (induction rounds) auto

text \<open>The pinger disconnects a peer in the first round in which its ping went out and no pong came.\<close>

lemma pinger_times_out:
  "(\<forall>r \<in> set rounds. r = (True, True)) \<Longrightarrow>
   pinger (rounds @ (True, False) # rest) = (Some \<lparr>ds_initiator = Local, ds_reason = PingTimeout\<rparr>, False)"
  by (simp add: pinger_keeps)

section \<open>The end of a peer\<close>

fun ends_peer :: "egress_action \<Rightarrow> bool" where
  "ends_peer (EgressReport r) = True"
| "ends_peer EgressRemove = True"
| "ends_peer _ = False"

text \<open>
  The disconnect an input asks for: of the server, of the pinger when its time is up, or of the ingress router
  when the remote end is gone; a message that cannot be sent asks for one too.
\<close>

fun end_of :: "egress_input \<times> bool \<Rightarrow> disconnect_signal option" where
  "end_of (FromServer (OutDisconnect reason), sent) = Some \<lparr>ds_initiator = Local, ds_reason = reason\<rparr>"
| "end_of (FromSignal s, sent) = Some s"
| "end_of (input, sent) = (if sent then None else Some \<lparr>ds_initiator = LocalForceful, ds_reason = TcpSubsystemError\<rparr>)"

lemma iteration_goes_on:
  "end_of (input, sent) = None \<Longrightarrow> \<exists>acts. egress_iteration input sent = (acts, False) \<and> (\<forall>a \<in> set acts. \<not> ends_peer a)"
  by (cases "(input, sent)" rule: end_of.cases) (auto simp: egress_iteration_def Let_def split: if_splits)

lemma iteration_ends:
  "end_of (input, sent) = Some s \<Longrightarrow>
   \<exists>acts. egress_iteration input sent =
       (acts @ (if ds_initiator s = Local then [EgressGrace] else []) @ [EgressReport (ds_reason s)], True) \<and>
     (\<forall>a \<in> set acts. \<not> ends_peer a \<and> a \<noteq> EgressGrace)"
  by (cases "(input, sent)" rule: end_of.cases) (auto simp: egress_iteration_def Let_def split: if_splits)

lemma loop_goes_on:
  "\<forall>i \<in> set pre. end_of i = None \<Longrightarrow>
   \<exists>acts. (\<forall>rest. egress_loop alive (pre @ rest) = acts @ egress_loop alive rest) \<and> (\<forall>a \<in> set acts. \<not> ends_peer a)"
proof (induction pre)
  case (Cons i pre)
  obtain input sent where i: "i = (input, sent)" by (cases i)
  obtain acts where a: "egress_iteration input sent = (acts, False)" "\<forall>a \<in> set acts. \<not> ends_peer a"
    using iteration_goes_on [of input sent] Cons.prems i by auto
  obtain acts' where b: "\<forall>rest. egress_loop alive (pre @ rest) = acts' @ egress_loop alive rest" "\<forall>a \<in> set acts'. \<not> ends_peer a"
    using Cons by auto
  show ?case using a b i by (intro exI [of _ "acts @ acts'"]) auto
qed simp

text \<open>
  C27. The end of a peer is reported exactly once. As long as no input asks for a disconnect and every send
  goes through, the egress router reports nothing and does not end. The first input that asks for one ends
  it, whoever asks (the server, the pinger, the ingress router, or a send that fails), whatever would
  come after: it waits for the grace period if the disconnect is its own, reports the reason of that input
  to the capability server, takes the peer out of the map if the map is still there, and does nothing else.
\<close>

theorem egress_reports_once:
  "if \<forall>i \<in> set inputs. end_of i = None
   then \<forall>a \<in> set (egress_router alive inputs). \<not> ends_peer a
   else \<exists>pre i post s acts. inputs = pre @ i # post \<and> (\<forall>j \<in> set pre. end_of j = None) \<and> end_of i = Some s \<and>
     egress_router alive inputs = acts @ (if ds_initiator s = Local then [EgressGrace] else []) @
       [EgressReport (ds_reason s)] @ (if alive then [EgressRemove] else []) \<and>
     (\<forall>a \<in> set acts. \<not> ends_peer a)"
proof (cases "\<forall>i \<in> set inputs. end_of i = None")
  case True
  then show ?thesis using loop_goes_on [of inputs alive] by (fastforce simp: egress_router_def dest: spec [of _ "[]"])
next
  case False
  then obtain pre i post where split: "inputs = pre @ i # post" "end_of i \<noteq> None" "\<forall>j \<in> set pre. end_of j = None"
    using split_list_first_prop [of inputs "\<lambda>i. end_of i \<noteq> None"] by auto
  obtain input sent s where i: "i = (input, sent)" "end_of i = Some s" using split(2) by (cases i) auto
  obtain acts where a: "\<forall>rest. egress_loop alive (pre @ rest) = acts @ egress_loop alive rest" "\<forall>a \<in> set acts. \<not> ends_peer a"
    using loop_goes_on [OF split(3)] by blast
  obtain acts' where b: "egress_iteration input sent =
      (acts' @ (if ds_initiator s = Local then [EgressGrace] else []) @ [EgressReport (ds_reason s)], True)"
    "\<forall>a \<in> set acts'. \<not> ends_peer a \<and> a \<noteq> EgressGrace"
    using iteration_ends i by blast
  have "egress_router alive inputs = (EgressNext # acts @ acts') @ (if ds_initiator s = Local then [EgressGrace] else []) @
      [EgressReport (ds_reason s)] @ (if alive then [EgressRemove] else [])"
    using a(1) b(1) i split(1) by (simp add: egress_router_def)
  moreover have "\<forall>a \<in> set (EgressNext # acts @ acts'). \<not> ends_peer a" using a(2) b(2) by auto
  ultimately show ?thesis using False split(1,3) i(2) by (metis (no_types, lifting))
qed

text \<open>A ping that times out: the disconnect goes out, then the grace period, the report and the removal.\<close>

definition demo_inputs :: "(egress_input \<times> bool) list" where
  "demo_inputs = [(FromPinger, True), (FromSignal \<lparr>ds_initiator = Local, ds_reason = PingTimeout\<rparr>, True), (FromPongs, True)]"

theorem egress_reports_once_witness:
  "\<exists>pre i post s acts. demo_inputs = pre @ i # post \<and> (\<forall>j \<in> set pre. end_of j = None) \<and> end_of i = Some s \<and>
     egress_router True demo_inputs = acts @ (if ds_initiator s = Local then [EgressGrace] else []) @
       [EgressReport (ds_reason s)] @ (if True then [EgressRemove] else []) \<and>
     (\<forall>a \<in> set acts. \<not> ends_peer a)"
proof -
  have "\<not> (\<forall>i \<in> set demo_inputs. end_of i = None)" by (simp add: demo_inputs_def)
  from egress_reports_once [of demo_inputs True, unfolded if_not_P [OF this]] show ?thesis .
qed

end
