(* ===== verification/Dns_Records.thy ===== *)
theory Dns_Records
  imports Prelude "HOL-Library.Char_ord"
begin

text \<open>
  The records of DNS discovery, \<^verbatim>\<open>dnsdisc/src/lib.rs\<close>: their text form and its parser. A string is the
  list of its bytes; white space is ASCII white space. The encodings of the \<^verbatim>\<open>data-encoding\<close> crate and
  the keys and node records of the \<^verbatim>\<open>enr\<close> crate are parameters.
\<close>

record ('pk, 'enr) dns_api =
  base64_encode :: "bytes \<Rightarrow> string"
  base64url_nopad_decode :: "string \<Rightarrow> bytes option"
  base32_nopad_encode :: "bytes \<Rightarrow> string"
  base32_nopad_decode :: "string \<Rightarrow> bytes option"
  decode_public :: "bytes \<Rightarrow> 'pk option"
  pk_encode :: "'pk \<Rightarrow> bytes"
  pk_encode_uncompressed :: "'pk \<Rightarrow> bytes"
  pk_verify_v4 :: "'pk \<Rightarrow> string \<Rightarrow> bytes \<Rightarrow> bool"
  enr_parse :: "string \<Rightarrow> 'enr option"
  enr_to_base64 :: "'enr \<Rightarrow> string"

section \<open>Strings\<close>

definition strip_prefix :: "string \<Rightarrow> string \<Rightarrow> string option" where
  "strip_prefix p s = (if take (length p) s = p then Some (drop (length p) s) else None)"

lemma strip_prefix_append [simp]: "strip_prefix p (p @ s) = Some s"
  by (simp add: strip_prefix_def)

definition is_white :: "char \<Rightarrow> bool" where
  "is_white c \<longleftrightarrow> c \<in> set [CHR '' '', CHR 0x09, CHR 0x0A, CHR 0x0B, CHR 0x0C, CHR 0x0D]"

definition trim :: "string \<Rightarrow> string" where
  "trim s = rev (dropWhile is_white (rev (dropWhile is_white s)))"

text \<open>\<open>split\<close> has at least one piece; \<open>split_whitespace\<close> leaves the empty ones out.\<close>

fun split_by :: "(char \<Rightarrow> bool) \<Rightarrow> string \<Rightarrow> string list" where
  "split_by P [] = [[]]"
| "split_by P (c # s) =
     (if P c then [] # split_by P s
      else (case split_by P s of [] \<Rightarrow> [[c]] | w # ws \<Rightarrow> (c # w) # ws))"

definition split_char :: "char \<Rightarrow> string \<Rightarrow> string list" where
  "split_char c = split_by (\<lambda>d. d = c)"

definition split_whitespace :: "string \<Rightarrow> string list" where
  "split_whitespace s = filter (\<lambda>w. w \<noteq> []) (split_by is_white s)"

definition digit_value :: "char \<Rightarrow> nat option" where
  "digit_value c = (let n = of_char c :: nat in if 48 \<le> n \<and> n \<le> 57 then Some (n - 48) else None)"

text \<open>\<open>usize::from_str\<close>: digits, with a plus sign in front or not, below \<open>2 ^ 64\<close>.\<close>

fun parse_digits :: "nat \<Rightarrow> string \<Rightarrow> nat option" where
  "parse_digits acc [] = Some acc"
| "parse_digits acc (c # s) =
     (case digit_value c of
        None \<Rightarrow> None
      | Some d \<Rightarrow> if acc * 10 + d < 2 ^ 64 then parse_digits (acc * 10 + d) s else None)"

definition parse_usize :: "string \<Rightarrow> nat option" where
  "parse_usize s =
     (let ds = (case s of c # r \<Rightarrow> if c = CHR ''+'' then r else s | [] \<Rightarrow> s)
      in if ds = [] then None else parse_digits 0 ds)"

text \<open>A hash is an \<open>ArrayString\<close> of at most 26 bytes.\<close>

definition BASE32_HASH_LEN :: nat where "BASE32_HASH_LEN = 26"

definition parse_hash :: "string \<Rightarrow> string option" where
  "parse_hash s = (if length s \<le> BASE32_HASH_LEN then Some s else None)"

fun show_nat :: "nat \<Rightarrow> string" where
  "show_nat n = (if n < 10 then [char_of (48 + n)] else show_nat (n div 10) @ [char_of (48 + n mod 10)])"

declare show_nat.simps [simp del]

section \<open>Records\<close>

definition ROOT_PREFIX :: string where "ROOT_PREFIX = ''enrtree-root:v1''"
definition LINK_PREFIX :: string where "LINK_PREFIX = ''enrtree://''"
definition BRANCH_PREFIX :: string where "BRANCH_PREFIX = ''enrtree-branch:''"
definition ENR_PREFIX :: string where "ENR_PREFIX = ''enr:''"

record unsigned_root =
  enr_root :: string
  link_root :: string
  sequence :: nat

record root_record =
  rr_base :: unsigned_root
  rr_signature :: bytes

datatype ('pk, 'enr) dns_record =
    Root root_record
  | Link 'pk string
  | Branch "string set"
  | EnrRecord 'enr

datatype dns_error = DnsOther | InvalidEnr

definition show_unsigned_root :: "unsigned_root \<Rightarrow> string" where
  "show_unsigned_root r = ROOT_PREFIX @ '' e='' @ enr_root r @ '' l='' @ link_root r @ '' seq='' @ show_nat (sequence r)"

definition show_root :: "('pk, 'enr) dns_api \<Rightarrow> root_record \<Rightarrow> string" where
  "show_root A r = show_unsigned_root (rr_base r) @ '' sig='' @ base64_encode A (rr_signature r)"

definition root_verify :: "('pk, 'enr) dns_api \<Rightarrow> root_record \<Rightarrow> 'pk \<Rightarrow> bool" where
  "root_verify A r pk = pk_verify_v4 A pk (show_unsigned_root (rr_base r)) (take 64 (rr_signature r))"

text \<open>The children of a branch are written in the order in which the hash set is iterated.\<close>

fun join :: "string \<Rightarrow> string list \<Rightarrow> string" where
  "join sep [] = []"
| "join sep [s] = s"
| "join sep (s # t # ss) = s @ sep @ join sep (t # ss)"

fun show_record :: "('pk, 'enr) dns_api \<Rightarrow> (string set \<Rightarrow> string list) \<Rightarrow> ('pk, 'enr) dns_record \<Rightarrow> string" where
  "show_record A iter (Root r) = show_root A r"
| "show_record A iter (Link pk domain) =
     LINK_PREFIX @ base32_nopad_encode A (pk_encode_uncompressed A pk) @ ''@'' @ domain"
| "show_record A iter (Branch children) = BRANCH_PREFIX @ join '','' (iter children)"
| "show_record A iter (EnrRecord r) = enr_to_base64 A r"

section \<open>The parser\<close>

type_synonym root_fields = "string option \<times> string option \<times> nat option \<times> bytes option"

fun root_entry :: "('pk, 'enr) dns_api \<Rightarrow> string \<Rightarrow> root_fields \<Rightarrow> root_fields option" where
  "root_entry A entry (e, l, s, g) =
     (case strip_prefix ''e='' entry of
        Some v \<Rightarrow> map_option (\<lambda>x. (Some x, l, s, g)) (parse_hash v)
      | None \<Rightarrow> (case strip_prefix ''l='' entry of
        Some v \<Rightarrow> map_option (\<lambda>x. (e, Some x, s, g)) (parse_hash v)
      | None \<Rightarrow> (case strip_prefix ''seq='' entry of
        Some v \<Rightarrow> map_option (\<lambda>x. (e, l, Some x, g)) (parse_usize v)
      | None \<Rightarrow> (case strip_prefix ''sig='' entry of
        Some v \<Rightarrow> map_option (\<lambda>x. (e, l, s, Some x)) (base64url_nopad_decode A v)
      | None \<Rightarrow> None))))"

fun root_entries :: "('pk, 'enr) dns_api \<Rightarrow> string list \<Rightarrow> root_fields \<Rightarrow> root_fields option" where
  "root_entries A [] fs = Some fs"
| "root_entries A (entry # entries) fs = Option.bind (root_entry A entry fs) (root_entries A entries)"

definition parse_root :: "('pk, 'enr) dns_api \<Rightarrow> string \<Rightarrow> (dns_error, ('pk, 'enr) dns_record) outcome" where
  "parse_root A root =
     (case root_entries A (split_whitespace (trim root)) (None, None, None, None) of
        Some (Some e, Some l, Some s, Some g) \<Rightarrow>
          Ok (Root \<lparr>rr_base = \<lparr>enr_root = e, link_root = l, sequence = s\<rparr>, rr_signature = g\<rparr>)
      | _ \<Rightarrow> Err DnsOther)"

definition parse_link :: "('pk, 'enr) dns_api \<Rightarrow> string \<Rightarrow> (dns_error, ('pk, 'enr) dns_record) outcome" where
  "parse_link A link =
     (case split_char CHR ''@'' link of
        [] \<Rightarrow> Err DnsOther
      | key # rest \<Rightarrow>
          bind_outcome (of_option DnsOther (Option.bind (base32_nopad_decode A key) (decode_public A))) (\<lambda>pk.
          case rest of [] \<Rightarrow> Err DnsOther | domain # _ \<Rightarrow> Ok (Link pk domain)))"

definition parse_branch :: "string \<Rightarrow> (dns_error, ('pk, 'enr) dns_record) outcome" where
  "parse_branch branch =
     bind_outcome (of_option DnsOther (those (map parse_hash (split_char CHR '','' (trim branch))))) (\<lambda>hs.
     Ok (Branch (set (filter (\<lambda>h. h \<noteq> []) hs))))"

definition parse_record :: "('pk, 'enr) dns_api \<Rightarrow> string \<Rightarrow> (dns_error, ('pk, 'enr) dns_record) outcome" where
  "parse_record A s =
     (case strip_prefix ROOT_PREFIX s of
        Some root \<Rightarrow> parse_root A root
      | None \<Rightarrow> (case strip_prefix LINK_PREFIX s of
        Some link \<Rightarrow> parse_link A link
      | None \<Rightarrow> (case strip_prefix BRANCH_PREFIX s of
        Some branch \<Rightarrow> parse_branch branch
      | None \<Rightarrow>
          if strip_prefix ENR_PREFIX s \<noteq> None
          then bind_outcome (of_option InvalidEnr (enr_parse A s)) (\<lambda>r. Ok (EnrRecord r))
          else Err DnsOther)))"

definition domain_is_allowed :: "('pk, 'enr) dns_api \<Rightarrow> (string \<times> 'pk) list option \<Rightarrow> string \<Rightarrow> 'pk \<Rightarrow> bool" where
  "domain_is_allowed A whitelist domain public_key =
     (case whitelist of
        None \<Rightarrow> True
      | Some w \<Rightarrow>
          (case map_of w domain of
             None \<Rightarrow> False
           | Some pk \<Rightarrow> pk_encode A pk = pk_encode A public_key))"

section \<open>Splitting and printing\<close>

lemma split_by_sep: "P c \<Longrightarrow> split_by P (s @ c # r) = split_by P s @ split_by P r"
proof (induction s)
  case Nil
  then show ?case by simp
next
  case (Cons d s)
  have "split_by P s \<noteq> []" by (cases "(P, s)" rule: split_by.cases) (auto split: list.splits)
  then show ?case using Cons by (auto split: list.splits)
qed

lemma split_by_word [simp]: "\<forall>c \<in> set w. \<not> P c \<Longrightarrow> split_by P w = [w]"
  by (induction w) auto

lemma split_char_word: "c \<notin> set w \<Longrightarrow> split_char c w = [w]"
  unfolding split_char_def by (rule split_by_word) auto

lemma split_char_sep: "c \<notin> set w \<Longrightarrow> split_char c (w @ c # r) = w # split_char c r"
  using split_char_word [of c w] by (simp add: split_char_def split_by_sep)

lemma split_whitespace_sep: "is_white c \<Longrightarrow> split_whitespace (s @ c # r) = split_whitespace s @ split_whitespace r"
  by (simp add: split_whitespace_def split_by_sep)

lemma split_whitespace_word: "\<forall>c \<in> set w. \<not> is_white c \<Longrightarrow> w \<noteq> [] \<Longrightarrow> split_whitespace w = [w]"
  by (simp add: split_whitespace_def)

lemma split_whitespace_Cons: "is_white c \<Longrightarrow> split_whitespace (c # r) = split_whitespace r"
  by (simp add: split_whitespace_def)

lemma split_whitespace_pre: "\<forall>c \<in> set w. is_white c \<Longrightarrow> split_whitespace (w @ r) = split_whitespace r"
  by (induction w) (auto simp: split_whitespace_Cons)

lemma split_whitespace_post: "\<forall>c \<in> set w. is_white c \<Longrightarrow> split_whitespace (r @ w) = split_whitespace r"
proof (cases w)
  case (Cons c v)
  assume white: "\<forall>c \<in> set w. is_white c"
  then have "split_whitespace v = []"
    using split_whitespace_pre [of v "[]"] Cons by (simp add: split_whitespace_def)
  then show ?thesis using white Cons by (simp add: split_whitespace_sep)
qed simp

lemma trim_parts: "\<exists>pre post. s = pre @ trim s @ post \<and> (\<forall>c \<in> set pre \<union> set post. is_white c)"
proof -
  let ?t = "dropWhile is_white s"
  have "s = takeWhile is_white s @ ?t" by simp
  moreover have "?t = trim s @ rev (takeWhile is_white (rev ?t))"
    unfolding trim_def by (metis rev_append rev_rev_ident takeWhile_dropWhile_id)
  ultimately have "s = takeWhile is_white s @ trim s @ rev (takeWhile is_white (rev ?t))" by simp
  then show ?thesis using set_takeWhileD by (metis Un_iff set_rev)
qed

lemma split_whitespace_trim [simp]: "split_whitespace (trim s) = split_whitespace s"
  using trim_parts [of s] split_whitespace_pre split_whitespace_post by (metis UnI1 UnI2)

lemma trim_tight: "\<forall>c \<in> set s. \<not> is_white c \<Longrightarrow> trim s = s"
  by (metis (no_types, lifting) dropWhile_eq_self_iff in_set_conv_decomp hd_in_set rev_rev_ident set_rev trim_def)

lemma parse_digits_append: "parse_digits a (s @ t) = Option.bind (parse_digits a s) (\<lambda>b. parse_digits b t)"
  by (induction a s rule: parse_digits.induct) (auto split: option.splits)

lemma digit_value_char: "d < 10 \<Longrightarrow> digit_value (char_of (48 + d :: nat)) = Some d"
  by (simp add: digit_value_def)

lemma parse_digits_show: "n < 2 ^ 64 \<Longrightarrow> parse_digits 0 (show_nat n) = Some n"
proof (induction n rule: show_nat.induct)
  case (1 n)
  show ?case
  proof (cases "n < 10")
    case True
    then show ?thesis using 1(2) by (simp add: show_nat.simps [of n] digit_value_char)
  next
    case False
    then have "parse_digits 0 (show_nat (n div 10)) = Some (n div 10)" using 1 by simp
    moreover have "n div 10 * 10 + n mod 10 = n" by simp
    ultimately show ?thesis using False 1(2)
      by (simp add: show_nat.simps [of n] parse_digits_append digit_value_char)
  qed
qed

lemma show_nat_digits: "c \<in> set (show_nat n) \<Longrightarrow> digit_value c \<noteq> None"
proof (induction n rule: show_nat.induct)
  case (1 n)
  then show ?case
    by (cases "n < 10") (auto simp: show_nat.simps [of n] digit_value_char)
qed

lemma show_nat_nonempty: "show_nat n \<noteq> []"
  by (simp add: show_nat.simps [of n])

lemma digit_not: "digit_value c \<noteq> None \<Longrightarrow> \<not> is_white c \<and> c \<noteq> CHR ''+''"
  by (auto simp: digit_value_def is_white_def Let_def split: if_splits)

lemma parse_usize_show: "n < 2 ^ 64 \<Longrightarrow> parse_usize (show_nat n) = Some n"
proof -
  assume n: "n < 2 ^ 64"
  obtain c r where cr: "show_nat n = c # r" using show_nat_nonempty by (cases "show_nat n") auto
  then have "c \<noteq> CHR ''+''" using show_nat_digits [of c n] digit_not by auto
  then show ?thesis using cr parse_digits_show [OF n] by (simp add: parse_usize_def)
qed

section \<open>The text of a record\<close>

definition tight :: "string \<Rightarrow> bool" where
  "tight s \<longleftrightarrow> (\<forall>c \<in> set s. \<not> is_white c)"

lemma tight_simps [simp]:
  "tight []" "tight (c # s) \<longleftrightarrow> \<not> is_white c \<and> tight s" "tight (s @ t) \<longleftrightarrow> tight s \<and> tight t"
  by (auto simp: tight_def)

lemma tight_show_nat [simp]: "tight (show_nat n)"
  using show_nat_digits digit_not by (auto simp: tight_def)

lemma split_whitespace_tight: "tight w \<Longrightarrow> w \<noteq> [] \<Longrightarrow> split_whitespace w = [w]"
  by (simp add: tight_def split_whitespace_word)

lemma split_whitespace_first:
  "tight w \<Longrightarrow> w \<noteq> [] \<Longrightarrow> split_whitespace (w @ CHR '' '' # r) = w # split_whitespace r"
  by (simp add: split_whitespace_sep split_whitespace_tight is_white_def)

lemma not_white_letters [simp]: "\<not> is_white CHR ''e''" "\<not> is_white CHR ''l''" "\<not> is_white CHR ''s''" "\<not> is_white CHR ''q''"
  "\<not> is_white CHR ''i''" "\<not> is_white CHR ''g''" "\<not> is_white CHR ''=''" "is_white CHR '' ''"
  by (simp_all add: is_white_def)

definition root_ok :: "unsigned_root \<Rightarrow> bool" where
  "root_ok u \<longleftrightarrow> tight (enr_root u) \<and> length (enr_root u) \<le> BASE32_HASH_LEN \<and>
     tight (link_root u) \<and> length (link_root u) \<le> BASE32_HASH_LEN \<and> sequence u < 2 ^ 64"

lemma root_words:
  assumes "tight e" "tight l" "tight n" "tight g"
  shows "split_whitespace ('' e='' @ e @ '' l='' @ l @ '' seq='' @ n @ '' sig='' @ g) =
    [''e='' @ e, ''l='' @ l, ''seq='' @ n, ''sig='' @ g]"
  using assms split_whitespace_first [of "''e='' @ e" "''l='' @ l @ '' seq='' @ n @ '' sig='' @ g"]
    split_whitespace_first [of "''l='' @ l" "''seq='' @ n @ '' sig='' @ g"]
    split_whitespace_first [of "''seq='' @ n" "''sig='' @ g"] split_whitespace_tight [of "''sig='' @ g"]
  by (simp add: split_whitespace_Cons)

lemma root_text:
  assumes "root_ok u" "tight g"
  shows "parse_record A (show_unsigned_root u @ '' sig='' @ g) =
     (case base64url_nopad_decode A g of
        None \<Rightarrow> Err DnsOther
      | Some s \<Rightarrow> Ok (Root \<lparr>rr_base = u, rr_signature = s\<rparr>))"
proof -
  have words: "split_whitespace ('' e='' @ enr_root u @ '' l='' @ link_root u @ '' seq='' @ show_nat (sequence u) @ '' sig='' @ g) =
    [''e='' @ enr_root u, ''l='' @ link_root u, ''seq='' @ show_nat (sequence u), ''sig='' @ g]"
    using assms by (intro root_words) (auto simp: root_ok_def)
  have "parse_record A (show_unsigned_root u @ '' sig='' @ g) =
      parse_root A ('' e='' @ enr_root u @ '' l='' @ link_root u @ '' seq='' @ show_nat (sequence u) @ '' sig='' @ g)"
    unfolding parse_record_def show_unsigned_root_def append_assoc strip_prefix_append option.case ..
  also have "\<dots> = (case base64url_nopad_decode A g of
        None \<Rightarrow> Err DnsOther
      | Some s \<Rightarrow> Ok (Root \<lparr>rr_base = u, rr_signature = s\<rparr>))"
    unfolding parse_root_def split_whitespace_trim words
    using assms by (auto simp: strip_prefix_def parse_hash_def root_ok_def parse_usize_show split: option.split)
  finally show ?thesis .
qed

text \<open>
  What the text form relies on of the \<^verbatim>\<open>data-encoding\<close> and \<^verbatim>\<open>enr\<close> crates: the alphabets of the encodings,
  the padding of \<open>BASE64\<close>, that the decoder without padding refuses padding, and the round trips.
\<close>

definition encoding_ok :: "('pk, 'enr) dns_api \<Rightarrow> bool" where
  "encoding_ok A \<longleftrightarrow>
     (\<forall>b. base32_nopad_decode A (base32_nopad_encode A b) = Some b \<and> CHR ''@'' \<notin> set (base32_nopad_encode A b)) \<and>
     (\<forall>b. tight (base64_encode A b) \<and> (length b mod 3 \<noteq> 0 \<longrightarrow> CHR ''='' \<in> set (base64_encode A b))) \<and>
     (\<forall>s. CHR ''='' \<in> set s \<longrightarrow> base64url_nopad_decode A s = None) \<and>
     (\<forall>r. enr_parse A (enr_to_base64 A r) = Some r \<and> strip_prefix ENR_PREFIX (enr_to_base64 A r) \<noteq> None)"

lemma encoding_okD:
  assumes "encoding_ok A"
  shows "base32_nopad_decode A (base32_nopad_encode A b) = Some b" "CHR ''@'' \<notin> set (base32_nopad_encode A b)"
    "tight (base64_encode A b)" "length b mod 3 \<noteq> 0 \<Longrightarrow> CHR ''='' \<in> set (base64_encode A b)"
    "CHR ''='' \<in> set s \<Longrightarrow> base64url_nopad_decode A s = None"
    "enr_parse A (enr_to_base64 A r) = Some r" "strip_prefix ENR_PREFIX (enr_to_base64 A r) \<noteq> None"
  using assms by (simp_all add: encoding_ok_def)

lemma link_text:
  assumes "encoding_ok A" "CHR ''@'' \<notin> set domain"
  shows "parse_record A (show_record A iter (Link pk domain)) =
    (case decode_public A (pk_encode_uncompressed A pk) of None \<Rightarrow> Err DnsOther | Some k \<Rightarrow> Ok (Link k domain))"
proof -
  let ?key = "base32_nopad_encode A (pk_encode_uncompressed A pk)"
  have root: "strip_prefix ROOT_PREFIX (LINK_PREFIX @ s) = None" for s
    by (simp add: strip_prefix_def ROOT_PREFIX_def LINK_PREFIX_def)
  have split: "split_char CHR ''@'' (?key @ ''@'' @ domain) = [?key, domain]"
    using split_char_sep [OF encoding_okD(2) [OF assms(1)], of "pk_encode_uncompressed A pk" domain]
      split_char_word [OF assms(2)] by simp
  show ?thesis
    unfolding parse_record_def show_record.simps root option.case strip_prefix_append parse_link_def split list.case
    by (simp add: encoding_okD [OF assms(1)] split: option.split)
qed

lemma split_join:
  "hs \<noteq> [] \<Longrightarrow> \<forall>h \<in> set hs. c \<notin> set h \<Longrightarrow> split_char c (join [c] hs) = hs"
proof (induction hs rule: induct_list012)
  case (3 h i hs)
  then show ?case using split_char_sep [of c h "join [c] (i # hs)"] by simp
qed (simp_all add: split_char_word)

lemma tight_join: "\<not> is_white c \<Longrightarrow> \<forall>h \<in> set hs. tight h \<Longrightarrow> tight (join [c] hs)"
  by (induction hs rule: induct_list012) auto

definition hash_ok :: "string \<Rightarrow> bool" where
  "hash_ok h \<longleftrightarrow> h \<noteq> [] \<and> tight h \<and> length h \<le> BASE32_HASH_LEN \<and> CHR '','' \<notin> set h"

lemma parse_hashes: "\<forall>h \<in> set hs. length h \<le> BASE32_HASH_LEN \<Longrightarrow> those (map parse_hash hs) = Some hs"
  by (induction hs) (auto simp: parse_hash_def)

lemma branch_text:
  assumes "\<forall>h \<in> children. hash_ok h" "set (iter children) = children"
  shows "parse_record A (show_record A iter (Branch children)) = Ok (Branch children)"
proof -
  let ?hs = "iter children"
  have root: "strip_prefix ROOT_PREFIX (BRANCH_PREFIX @ s) = None" "strip_prefix LINK_PREFIX (BRANCH_PREFIX @ s) = None" for s
    by (simp_all add: strip_prefix_def ROOT_PREFIX_def BRANCH_PREFIX_def LINK_PREFIX_def)
  have hs: "\<forall>h \<in> set ?hs. hash_ok h" using assms by simp
  have "tight (join '','' ?hs)" using hs by (intro tight_join) (auto simp: hash_ok_def is_white_def)
  then have trim: "trim (join '','' ?hs) = join '','' ?hs" by (intro trim_tight) (simp add: tight_def)
  have "those (map parse_hash (split_char CHR '','' (join '','' ?hs))) = Some (if ?hs = [] then [[]] else ?hs)"
  proof (cases "?hs = []")
    case True
    then show ?thesis by (simp add: split_char_def parse_hash_def)
  next
    case False
    have "split_char CHR '','' (join '','' ?hs) = ?hs"
      using hs False by (intro split_join) (auto simp: hash_ok_def)
    then show ?thesis using hs False by (simp add: parse_hashes hash_ok_def)
  qed
  moreover have "set (filter (\<lambda>h. h \<noteq> []) (if ?hs = [] then [[]] else ?hs)) = children"
    using hs assms(2) by (auto simp: hash_ok_def)
  ultimately show ?thesis
    unfolding parse_record_def show_record.simps root option.case strip_prefix_append parse_branch_def trim by simp
qed

lemma strip_prefixD: "strip_prefix p s = Some r \<Longrightarrow> s = p @ r"
  unfolding strip_prefix_def by (metis append_take_drop_id option.distinct(1) option.sel)

lemma enr_text:
  assumes "encoding_ok A"
  shows "parse_record A (show_record A iter (EnrRecord r)) = Ok (EnrRecord r)"
proof -
  obtain t where t: "enr_to_base64 A r = ENR_PREFIX @ t"
    using encoding_okD(7) [OF assms, of r] strip_prefixD by fastforce
  have "strip_prefix ROOT_PREFIX (ENR_PREFIX @ t) = None" "strip_prefix LINK_PREFIX (ENR_PREFIX @ t) = None"
    "strip_prefix BRANCH_PREFIX (ENR_PREFIX @ t) = None"
    by (simp_all add: strip_prefix_def ENR_PREFIX_def ROOT_PREFIX_def LINK_PREFIX_def BRANCH_PREFIX_def)
  then show ?thesis
    using encoding_okD(6) [OF assms, of r]
    unfolding parse_record_def show_record.simps t by simp
qed

text \<open>
  The text of a record is read back. A link comes back with its domain and whatever key the bytes
  written for its key stand for, a branch with its set of children, in whatever order they were written,
  and a node record as it was.
\<close>

theorem record_text_roundtrip:
  assumes "encoding_ok A" "CHR ''@'' \<notin> set domain" "\<forall>h \<in> children. hash_ok h" "set (iter children) = children"
  shows "parse_record A (show_record A iter (Link pk domain)) =
      (case decode_public A (pk_encode_uncompressed A pk) of None \<Rightarrow> Err DnsOther | Some k \<Rightarrow> Ok (Link k domain)) \<and>
    parse_record A (show_record A iter (Branch children)) = Ok (Branch children) \<and>
    parse_record A (show_record A iter (EnrRecord r)) = Ok (EnrRecord r)"
  by (intro conjI link_text branch_text enr_text assms)

text \<open>
  C36. A root record is read from the text of the standard, its fields as they were signed and the
  signature decoded, but not from its own \<open>Display\<close>: that writes the signature with padding, which
  the parser refuses, for every signature whose length is not a multiple of three (64 and 65 are not).
\<close>

theorem root_text_parsed:
  assumes "encoding_ok A" "root_ok u" "tight g" "base64url_nopad_decode A g = Some s" "length sig mod 3 \<noteq> 0"
  shows "parse_record A (show_unsigned_root u @ '' sig='' @ g) = Ok (Root \<lparr>rr_base = u, rr_signature = s\<rparr>) \<and>
    parse_record A (show_record A iter (Root \<lparr>rr_base = u, rr_signature = sig\<rparr>)) = Err DnsOther"
  using root_text [OF assms(2) encoding_okD(3) [OF assms(1)], of A sig] root_text [OF assms(2,3), of A]
    encoding_okD(4,5) [OF assms(1)] assms(4,5)
  by (simp add: show_root_def)

section \<open>Witnesses\<close>

fun demo_letters :: "bytes \<Rightarrow> string" where
  "demo_letters [] = []"
| "demo_letters (b # bs) = char_of (97 + unat b div 16) # char_of (97 + unat b mod 16) # demo_letters bs"

fun demo_bytes :: "string \<Rightarrow> bytes option" where
  "demo_bytes [] = Some []"
| "demo_bytes [c] = None"
| "demo_bytes (c # d # s) =
     map_option ((#) (word_of_nat ((of_char c - 97) * 16 + (of_char d - 97)))) (demo_bytes s)"

definition demo_dns :: "(bytes, string) dns_api" where
  "demo_dns = \<lparr>base64_encode = (\<lambda>b. demo_letters b @ (if length b mod 3 = 0 then [] else ''='')),
     base64url_nopad_decode = (\<lambda>s. if CHR ''='' \<in> set s then None else demo_bytes s),
     base32_nopad_encode = demo_letters, base32_nopad_decode = demo_bytes,
     decode_public = (\<lambda>b. if b = [] then None else Some b), pk_encode = id, pk_encode_uncompressed = id,
     pk_verify_v4 = (\<lambda>pk msg sig. sig = pk),
     enr_parse = strip_prefix ENR_PREFIX, enr_to_base64 = (@) ENR_PREFIX\<rparr>"

lemma demo_letters_tight: "tight (demo_letters b) \<and> CHR ''@'' \<notin> set (demo_letters b)"
proof (induction b)
  case (Cons a b)
  have small: "unat a div 16 < 16" "unat a mod 16 < 16"
    using unsigned_less [where w = a and 'a = nat] by (simp_all add: less_mult_imp_div_less)
  have ok: "\<not> is_white (char_of (97 + n)) \<and> CHR ''@'' \<noteq> char_of (97 + n)" if "n < 16" for n :: nat
  proof -
    have "n \<in> {0..<16}" using that by simp
    then have "n \<in> set [0..<16]" by simp
    moreover have "\<forall>n \<in> set [0..<16]. \<not> is_white (char_of (97 + n)) \<and> CHR ''@'' \<noteq> char_of (97 + n)"
      by code_simp
    ultimately show ?thesis by blast
  qed
  show ?case using ok [OF small(1)] ok [OF small(2)] Cons by simp
qed simp

lemma demo_bytes_letters: "demo_bytes (demo_letters b) = Some b"
proof (induction b)
  case (Cons a b)
  have "unat a < 256" using unsigned_less [where w = a and 'a = nat] by simp
  then have "(97 + unat a div 16) mod 256 = 97 + unat a div 16" "(97 + unat a mod 16) mod 256 = 97 + unat a mod 16"
    by auto
  moreover have "unat a div 16 * 16 + unat a mod 16 = unat a" by simp
  ultimately show ?case using Cons by (simp add: of_char_of)
qed simp

lemma demo_dns_ok: "encoding_ok demo_dns"
  using demo_letters_tight demo_bytes_letters by (simp add: encoding_ok_def demo_dns_def is_white_def)

theorem record_text_roundtrip_witness:
  "parse_record demo_dns (show_record demo_dns (\<lambda>_. [''AB'', ''CD'']) (Branch {''CD'', ''AB''})) = Ok (Branch {''CD'', ''AB''}) \<and>
   parse_record demo_dns (show_record demo_dns (\<lambda>_. [''AB'', ''CD'']) (Link [7] ''n.org'')) = Ok (Link [7] ''n.org'')"
proof -
  have "\<forall>h \<in> {''CD'', ''AB''}. hash_ok h" by (simp add: hash_ok_def is_white_def BASE32_HASH_LEN_def)
  with record_text_roundtrip [OF demo_dns_ok _ this, of "''n.org''" "\<lambda>_. [''AB'', ''CD'']" "[7]"] show ?thesis
    by (auto simp: demo_dns_def)
qed

theorem root_text_parsed_witness:
  "parse_record demo_dns ''enrtree-root:v1 e=AB l=CD seq=12 sig=ab'' =
     Ok (Root \<lparr>rr_base = \<lparr>enr_root = ''AB'', link_root = ''CD'', sequence = 12\<rparr>, rr_signature = [1]\<rparr>)"
proof -
  have ok: "root_ok \<lparr>enr_root = ''AB'', link_root = ''CD'', sequence = 12\<rparr>" "tight ''ab''"
    by (simp_all add: root_ok_def is_white_def BASE32_HASH_LEN_def)
  have "base64url_nopad_decode demo_dns ''ab'' = Some [1]" by (simp add: demo_dns_def)
  moreover have "show_nat 12 = ''12''" by code_simp
  ultimately show ?thesis
    using root_text_parsed [OF demo_dns_ok ok, of "[1]" "[1]"] by (simp add: show_unsigned_root_def ROOT_PREFIX_def)
qed

end
