(* ===== verification/Dns_Resolve.thy ===== *)
theory Dns_Resolve
  imports Dns_Records
begin

text \<open>
  Resolution of DNS trees, \<^verbatim>\<open>dnsdisc/src/lib.rs\<close> from \<open>resolve_branch\<close> on, and the backend in memory of
  \<^verbatim>\<open>dnsdisc/src/backend/memory.rs\<close>. Every child of a branch is resolved by a task of its own, and the
  tasks send into one channel: what a branch yields is an interleaving of what its children yield. The
  relations below hold between a call and a sequence of items it can have yielded so far, with a flag that
  says whether it has ended. A backend answers with an error, with no record, or with its text.
\<close>

type_synonym backend = "string \<Rightarrow> dns_error + string option"

definition memory_backend :: "(string \<times> string) list \<Rightarrow> backend" where
  "memory_backend m fqdn = Inr (map_of m fqdn)"

type_synonym 'pk whitelist = "(string \<times> 'pk) list option"

datatype 'pk branch_kind = EnrKind | LinkKind "'pk whitelist"

type_synonym 'enr item = "dns_error + 'enr"

definition fqdn :: "string \<Rightarrow> string \<Rightarrow> string" where
  "fqdn subdomain host = subdomain @ ''.'' @ host"

text \<open>
  \<open>while let Some(item) = t.try_next().await? { send }\<close>: the items up to the first error, and the error.
\<close>

fun until_err :: "'enr item list \<Rightarrow> 'enr item list" where
  "until_err [] = []"
| "until_err (Inl e # xs) = [Inl e]"
| "until_err (Inr r # xs) = Inr r # until_err xs"

text \<open>What a task does with its record, before it resolves anything below it.\<close>

datatype ('pk, 'enr) child_plan = Done "'enr item list" | Descend "string set" | Follow 'pk string "'pk whitelist"

definition child_plan :: "('pk, 'enr) dns_api \<Rightarrow> backend \<Rightarrow> 'pk branch_kind \<Rightarrow> string \<Rightarrow> string \<Rightarrow> ('pk, 'enr) child_plan" where
  "child_plan A B kind host subdomain =
     (case B (fqdn subdomain host) of
        Inl e \<Rightarrow> Done [Inl e]
      | Inr None \<Rightarrow> Done []
      | Inr (Some txt) \<Rightarrow>
          (case parse_record A txt of
             Err e \<Rightarrow> Done [Inl e]
           | Panic \<Rightarrow> Done []
           | Ok (Branch children) \<Rightarrow> Descend children
           | Ok (Link public_key domain) \<Rightarrow>
               (case kind of
                  LinkKind remote_whitelist \<Rightarrow>
                    if domain_is_allowed A remote_whitelist domain public_key
                    then Follow public_key domain remote_whitelist
                    else Done []
                | EnrKind \<Rightarrow> Done [Inl DnsOther])
           | Ok (EnrRecord r) \<Rightarrow> Done [case kind of EnrKind \<Rightarrow> Inr r | LinkKind _ \<Rightarrow> Inl DnsOther]
           | Ok (Root _) \<Rightarrow> Done [Inl DnsOther]))"

text \<open>What \<open>resolve_tree\<close> does with the record of its host: it stops, or has two branches to resolve.\<close>

datatype tree_plan = TreeDone "dns_error list" | Subtrees string string

definition tree_plan :: "('pk, 'enr) dns_api \<Rightarrow> backend \<Rightarrow> string \<Rightarrow> 'pk option \<Rightarrow> nat option \<Rightarrow> tree_plan" where
  "tree_plan A B host public_key seen_sequence =
     (case B host of
        Inl e \<Rightarrow> TreeDone [e]
      | Inr None \<Rightarrow> TreeDone []
      | Inr (Some txt) \<Rightarrow>
          (case parse_record A txt of
             Err e \<Rightarrow> TreeDone [e]
           | Panic \<Rightarrow> TreeDone []
           | Ok (Root r) \<Rightarrow>
               if (case public_key of None \<Rightarrow> False | Some pk \<Rightarrow> \<not> root_verify A r pk) then TreeDone [DnsOther]
               else if (case seen_sequence of None \<Rightarrow> False | Some seen \<Rightarrow> sequence (rr_base r) \<le> seen) then TreeDone []
               else Subtrees (link_root (rr_base r)) (enr_root (rr_base r))
           | Ok _ \<Rightarrow> TreeDone [DnsOther]))"

abbreviation has_err :: "'enr item list \<Rightarrow> bool" where
  "has_err items \<equiv> (\<exists>e. Inl e \<in> set items)"

text \<open>
  \<open>child_run\<close>: one task of \<open>resolve_branch\<close>; \<open>branch_run\<close>: its tasks, for the children in some order;
  \<open>tree_run\<close>: \<open>resolve_tree\<close>, whose link tree is resolved before its records. The flag says whether the
  call has ended; a reader that meets an error ends, whatever the tasks below it still do.
\<close>

inductive child_run :: "('pk, 'enr) dns_api \<Rightarrow> backend \<Rightarrow> 'pk branch_kind \<Rightarrow> string \<Rightarrow> string \<Rightarrow> bool \<Rightarrow> 'enr item list \<Rightarrow> bool"
  and branch_run :: "('pk, 'enr) dns_api \<Rightarrow> backend \<Rightarrow> 'pk branch_kind \<Rightarrow> string \<Rightarrow> string list \<Rightarrow> bool \<Rightarrow> 'enr item list \<Rightarrow> bool"
  and tree_run :: "('pk, 'enr) dns_api \<Rightarrow> backend \<Rightarrow> string \<Rightarrow> 'pk option \<Rightarrow> nat option \<Rightarrow> 'pk whitelist \<Rightarrow> bool \<Rightarrow> 'enr item list \<Rightarrow> bool"
  for A :: "('pk, 'enr) dns_api" and B :: backend where
  child_start: "child_run A B kind host c False []"
| child_done: "child_plan A B kind host c = Done items \<Longrightarrow> child_run A B kind host c True items"
| child_descend: "child_plan A B kind host c = Descend children \<Longrightarrow> distinct cs \<Longrightarrow> set cs = children \<Longrightarrow>
    branch_run A B kind host cs ended items \<Longrightarrow>
    child_run A B kind host c (ended \<or> has_err items) (until_err items)"
| child_follow: "child_plan A B kind host c = Follow public_key domain wl \<Longrightarrow>
    tree_run A B domain (Some public_key) None wl ended items \<Longrightarrow>
    child_run A B kind host c (ended \<or> has_err items) (until_err items)"
| branch_none: "branch_run A B kind host [] True []"
| branch_more: "child_run A B kind host c ended xs \<Longrightarrow> branch_run A B kind host cs ended' ys \<Longrightarrow> zs \<in> shuffles xs ys \<Longrightarrow>
    branch_run A B kind host (c # cs) (ended \<and> ended') zs"
| tree_start: "tree_run A B host pk seen wl False []"
| tree_done: "tree_plan A B host pk seen = TreeDone es \<Longrightarrow> tree_run A B host pk seen wl True (map Inl es)"
| tree_links: "tree_plan A B host pk seen = Subtrees l e \<Longrightarrow>
    branch_run A B (LinkKind wl) host [l] ended xs \<Longrightarrow> \<not> ended \<or> has_err xs \<Longrightarrow>
    tree_run A B host pk seen wl (has_err xs) (until_err xs)"
| tree_records: "tree_plan A B host pk seen = Subtrees l e \<Longrightarrow>
    branch_run A B (LinkKind wl) host [l] True xs \<Longrightarrow> \<not> has_err xs \<Longrightarrow>
    branch_run A B EnrKind host [e] ended ys \<Longrightarrow>
    tree_run A B host pk seen wl (ended \<or> has_err ys) (xs @ until_err ys)"

text \<open>\<open>Resolver\<close> and its two queries.\<close>

record 'pk resolver =
  rs_backend :: backend
  rs_seen_sequence :: "nat option"
  rs_remote_whitelist :: "'pk whitelist"

definition new_resolver :: "backend \<Rightarrow> 'pk resolver" where
  "new_resolver B = \<lparr>rs_backend = B, rs_seen_sequence = None, rs_remote_whitelist = None\<rparr>"

definition with_seen_sequence :: "nat \<Rightarrow> 'pk resolver \<Rightarrow> 'pk resolver" where
  "with_seen_sequence n s = s\<lparr>rs_seen_sequence := Some n\<rparr>"

definition with_remote_whitelist :: "(string \<times> 'pk) list \<Rightarrow> 'pk resolver \<Rightarrow> 'pk resolver" where
  "with_remote_whitelist w s = s\<lparr>rs_remote_whitelist := Some w\<rparr>"

definition query :: "('pk, 'enr) dns_api \<Rightarrow> 'pk resolver \<Rightarrow> string \<Rightarrow> 'pk option \<Rightarrow> bool \<Rightarrow> 'enr item list \<Rightarrow> bool" where
  "query A s host public_key = tree_run A (rs_backend s) host public_key (rs_seen_sequence s) (rs_remote_whitelist s)"

definition query_tree :: "('pk, 'enr) dns_api \<Rightarrow> 'pk resolver \<Rightarrow> string \<Rightarrow> bool \<Rightarrow> 'enr item list \<Rightarrow> bool" where
  "query_tree A s tree_link ended items =
     (case parse_record A tree_link of
        Ok (Link public_key domain) \<Rightarrow> query A s domain (Some public_key) ended items
      | Err e \<Rightarrow> ended \<and> items = [Inl e]
      | _ \<Rightarrow> ended \<and> items = [Inl DnsOther])"

section \<open>What a tree vouches for\<close>

definition record_at :: "('pk, 'enr) dns_api \<Rightarrow> backend \<Rightarrow> string \<Rightarrow> ('pk, 'enr) dns_record option" where
  "record_at A B name =
     (case B name of
        Inr (Some txt) \<Rightarrow> (case parse_record A txt of Ok r \<Rightarrow> Some r | _ \<Rightarrow> None)
      | _ \<Rightarrow> None)"

text \<open>The records and the links below a hash, and the node records a tree stands for under a whitelist.\<close>

inductive enr_below :: "('pk, 'enr) dns_api \<Rightarrow> backend \<Rightarrow> string \<Rightarrow> string \<Rightarrow> 'enr \<Rightarrow> bool"
  for A :: "('pk, 'enr) dns_api" and B :: backend and host :: string where
  enr_here: "record_at A B (fqdn c host) = Some (EnrRecord r) \<Longrightarrow> enr_below A B host c r"
| enr_deeper: "record_at A B (fqdn c host) = Some (Branch children) \<Longrightarrow> d \<in> children \<Longrightarrow> enr_below A B host d r \<Longrightarrow>
    enr_below A B host c r"

inductive link_below :: "('pk, 'enr) dns_api \<Rightarrow> backend \<Rightarrow> string \<Rightarrow> string \<Rightarrow> 'pk \<Rightarrow> string \<Rightarrow> bool"
  for A :: "('pk, 'enr) dns_api" and B :: backend and host :: string where
  link_here: "record_at A B (fqdn c host) = Some (Link pk domain) \<Longrightarrow> link_below A B host c pk domain"
| link_deeper: "record_at A B (fqdn c host) = Some (Branch children) \<Longrightarrow> d \<in> children \<Longrightarrow> link_below A B host d pk domain \<Longrightarrow>
    link_below A B host c pk domain"

definition trusted_root :: "('pk, 'enr) dns_api \<Rightarrow> backend \<Rightarrow> string \<Rightarrow> 'pk option \<Rightarrow> nat option \<Rightarrow> root_record \<Rightarrow> bool" where
  "trusted_root A B host public_key seen r \<longleftrightarrow>
     record_at A B host = Some (Root r) \<and>
     (\<forall>pk. public_key = Some pk \<longrightarrow> root_verify A r pk) \<and>
     (\<forall>n. seen = Some n \<longrightarrow> n < sequence (rr_base r))"

inductive vouched :: "('pk, 'enr) dns_api \<Rightarrow> backend \<Rightarrow> 'pk whitelist \<Rightarrow> string \<Rightarrow> 'pk option \<Rightarrow> nat option \<Rightarrow> 'enr \<Rightarrow> bool"
  for A :: "('pk, 'enr) dns_api" and B :: backend and wl :: "'pk whitelist" where
  vouched_own: "trusted_root A B host pk seen rt \<Longrightarrow> enr_below A B host (enr_root (rr_base rt)) r \<Longrightarrow>
    vouched A B wl host pk seen r"
| vouched_link: "trusted_root A B host pk seen rt \<Longrightarrow> link_below A B host (link_root (rr_base rt)) k domain \<Longrightarrow>
    domain_is_allowed A wl domain k \<Longrightarrow> vouched A B wl domain (Some k) None r \<Longrightarrow>
    vouched A B wl host pk seen r"

inductive_cases enr_belowE: "enr_below A B host c r"
inductive_cases link_belowE: "link_below A B host c k domain"
inductive_cases vouchedE: "vouched A B wl host pk seen r"

text \<open>What a node record below a hash rests on, for either kind of branch.\<close>

fun child_vouched :: "('pk, 'enr) dns_api \<Rightarrow> backend \<Rightarrow> 'pk branch_kind \<Rightarrow> string \<Rightarrow> string \<Rightarrow> 'enr \<Rightarrow> bool" where
  "child_vouched A B EnrKind host c r = enr_below A B host c r"
| "child_vouched A B (LinkKind wl) host c r =
     (\<exists>k domain. link_below A B host c k domain \<and> domain_is_allowed A wl domain k \<and> vouched A B wl domain (Some k) None r)"

lemma enr_below_iff:
  "enr_below A B host c r \<longleftrightarrow>
     (case record_at A B (fqdn c host) of
        Some (EnrRecord r') \<Rightarrow> r' = r
      | Some (Branch children) \<Rightarrow> \<exists>d \<in> children. enr_below A B host d r
      | _ \<Rightarrow> False)"
  by (subst enr_below.simps) (auto split: option.splits dns_record.splits)

lemma link_below_iff:
  "link_below A B host c k domain \<longleftrightarrow>
     (case record_at A B (fqdn c host) of
        Some (Link k' domain') \<Rightarrow> k' = k \<and> domain' = domain
      | Some (Branch children) \<Rightarrow> \<exists>d \<in> children. link_below A B host d k domain
      | _ \<Rightarrow> False)"
  by (subst link_below.simps) (auto split: option.splits dns_record.splits)

lemma child_vouched_iff:
  "child_vouched A B kind host c r \<longleftrightarrow>
     (case record_at A B (fqdn c host) of
        Some (EnrRecord r') \<Rightarrow> kind = EnrKind \<and> r' = r
      | Some (Branch children) \<Rightarrow> \<exists>d \<in> children. child_vouched A B kind host d r
      | Some (Link k domain) \<Rightarrow>
          (\<exists>wl. kind = LinkKind wl \<and> domain_is_allowed A wl domain k \<and> vouched A B wl domain (Some k) None r)
      | _ \<Rightarrow> False)"
proof (cases kind)
  case EnrKind
  then show ?thesis by (simp add: enr_below_iff [of A B host c] split: option.splits dns_record.splits)
next
  case (LinkKind wl)
  then show ?thesis
    by (auto simp: link_below_iff [of A B host c] split: option.splits dns_record.splits)
qed

lemma child_plan_cases:
  assumes "child_plan A B kind host c = p"
  shows "case p of
      Done items \<Rightarrow> (\<forall>r. Inr r \<in> set items \<longrightarrow> kind = EnrKind \<and> record_at A B (fqdn c host) = Some (EnrRecord r)) \<and>
        (has_err items \<or> (\<forall>r. child_vouched A B kind host c r \<longrightarrow> Inr r \<in> set items))
    | Descend children \<Rightarrow> record_at A B (fqdn c host) = Some (Branch children)
    | Follow k domain wl \<Rightarrow> kind = LinkKind wl \<and> record_at A B (fqdn c host) = Some (Link k domain) \<and>
        domain_is_allowed A wl domain k"
proof (cases "record_at A B (fqdn c host)")
  case None
  then show ?thesis
    using assms child_vouched_iff [of A B kind host c]
    by (auto simp: child_plan_def record_at_def split: sum.splits option.splits outcome.splits dns_record.splits)
next
  case (Some rec)
  then obtain t where "B (fqdn c host) = Inr (Some t)" "parse_record A t = Ok rec"
    by (auto simp: record_at_def split: sum.splits option.splits outcome.splits)
  then have plan: "p = (case rec of
      Branch children \<Rightarrow> Descend children
    | Link k domain \<Rightarrow> (case kind of LinkKind wl \<Rightarrow> if domain_is_allowed A wl domain k then Follow k domain wl else Done []
                                 | EnrKind \<Rightarrow> Done [Inl DnsOther])
    | EnrRecord r \<Rightarrow> Done [case kind of EnrKind \<Rightarrow> Inr r | LinkKind _ \<Rightarrow> Inl DnsOther]
    | Root _ \<Rightarrow> Done [Inl DnsOther])"
    using assms by (simp add: child_plan_def)
  show ?thesis
    using Some plan child_vouched_iff [of A B kind host c] by (cases rec; cases kind) (simp_all split: if_split)
qed

lemma tree_plan_cases:
  assumes "tree_plan A B host pk seen = p"
  shows "case p of
      TreeDone es \<Rightarrow> es \<noteq> [] \<or> (\<forall>r. \<not> trusted_root A B host pk seen r)
    | Subtrees l e \<Rightarrow> \<exists>r. trusted_root A B host pk seen r \<and> link_root (rr_base r) = l \<and> enr_root (rr_base r) = e"
  using assms
  by (auto simp: tree_plan_def trusted_root_def record_at_def split: sum.splits option.splits outcome.splits
      dns_record.splits if_splits)

section \<open>What a resolution yields\<close>

lemma until_err_id: "\<not> has_err xs \<Longrightarrow> until_err xs = xs"
  by (induction xs rule: until_err.induct) auto

lemma until_err_has_err [simp]: "has_err (until_err xs) \<longleftrightarrow> has_err xs"
  by (induction xs rule: until_err.induct) auto

lemma set_until_err: "x \<in> set (until_err xs) \<Longrightarrow> x \<in> set xs"
  by (induction xs rule: until_err.induct) auto

lemma until_err_append: "until_err (xs @ ys) = (if has_err xs then until_err xs else xs @ until_err ys)"
  by (induction xs rule: until_err.induct) auto

lemma until_err_shape: "\<exists>rs. until_err xs = map Inr rs \<and> \<not> has_err xs \<or> (\<exists>e. until_err xs = map Inr rs @ [Inl e]) \<and> has_err xs"
proof (induction xs rule: until_err.induct)
  case (3 r xs)
  then obtain rs where "until_err xs = map Inr rs \<and> \<not> has_err xs \<or> (\<exists>e. until_err xs = map Inr rs @ [Inl e]) \<and> has_err xs"
    by blast
  then show ?case by (intro exI [of _ "r # rs"]) auto
qed auto

lemma tree_plan_done: "tree_plan A B host pk seen = TreeDone es \<Longrightarrow> es = [] \<or> (\<exists>e. es = [e])"
  by (auto simp: tree_plan_def split: sum.splits option.splits outcome.splits dns_record.splits if_splits)

lemma runs_sound:
  "child_run A B kind host c ended xs \<Longrightarrow> Inr r \<in> set xs \<Longrightarrow> child_vouched A B kind host c r"
  "branch_run A B kind host cs ended xs \<Longrightarrow> Inr r \<in> set xs \<Longrightarrow> \<exists>c \<in> set cs. child_vouched A B kind host c r"
  "tree_run A B host pk seen wl ended xs \<Longrightarrow> Inr r \<in> set xs \<Longrightarrow> vouched A B wl host pk seen r"
proof (induction rule: child_run_branch_run_tree_run.inducts)
  case (child_done kind host c items)
  then show ?case using child_plan_cases [OF child_done(1)] by (auto simp: enr_below_iff [of A B host c])
next
  case (child_descend kind host c children cs ended items)
  then have "\<exists>d \<in> children. child_vouched A B kind host d r" using set_until_err by blast
  then show ?case using child_plan_cases [OF child_descend(1)] by (simp add: child_vouched_iff [of A B kind host c])
next
  case (child_follow kind host c public_key domain wl ended items)
  then have "vouched A B wl domain (Some public_key) None r" using set_until_err by blast
  then show ?case using child_plan_cases [OF child_follow(1)] by (simp add: link_below_iff [of A B host c])
next
  case (branch_more kind host c ended xs cs ended' ys zs)
  then show ?case by (auto simp: set_shuffles)
next
  case (tree_links host pk seen l e wl ended xs)
  obtain rt where rt: "trusted_root A B host pk seen rt" "link_root (rr_base rt) = l"
    using tree_plan_cases [OF tree_links(1)] by auto
  have "child_vouched A B (LinkKind wl) host l r" using tree_links set_until_err by fastforce
  then show ?case using rt by (auto intro: vouched_link)
next
  case (tree_records host pk seen l e wl xs ended ys)
  obtain rt where rt: "trusted_root A B host pk seen rt" "link_root (rr_base rt) = l" "enr_root (rr_base rt) = e"
    using tree_plan_cases [OF tree_records(1)] by auto
  have "child_vouched A B (LinkKind wl) host l r \<or> child_vouched A B EnrKind host e r"
    using tree_records set_until_err by fastforce
  then show ?case using rt by (auto intro: vouched_link vouched_own)
qed auto

lemma runs_complete:
  "child_run A B kind host c ended xs \<Longrightarrow> ended \<Longrightarrow> \<not> has_err xs \<Longrightarrow> child_vouched A B kind host c r \<Longrightarrow> Inr r \<in> set xs"
  "branch_run A B kind host cs ended xs \<Longrightarrow> ended \<Longrightarrow> \<not> has_err xs \<Longrightarrow>
     \<exists>c \<in> set cs. child_vouched A B kind host c r \<Longrightarrow> Inr r \<in> set xs"
  "tree_run A B host pk seen wl ended xs \<Longrightarrow> ended \<Longrightarrow> \<not> has_err xs \<Longrightarrow> vouched A B wl host pk seen r \<Longrightarrow> Inr r \<in> set xs"
proof (induction rule: child_run_branch_run_tree_run.inducts)
  case (child_done kind host c items)
  then show ?case using child_plan_cases [OF child_done(1)] by auto
next
  case (child_descend kind host c children cs ended items)
  have "record_at A B (fqdn c host) = Some (Branch children)" using child_plan_cases [OF child_descend(1)] by simp
  then have "\<exists>d \<in> children. child_vouched A B kind host d r"
    using child_descend.prems by (simp add: child_vouched_iff [of A B kind host c])
  then show ?case using child_descend by (auto simp: until_err_id)
next
  case (child_follow kind host c public_key domain wl ended items)
  have "kind = LinkKind wl" "record_at A B (fqdn c host) = Some (Link public_key domain)"
    using child_plan_cases [OF child_follow(1)] by simp_all
  then have "vouched A B wl domain (Some public_key) None r"
    using child_follow.prems by (simp add: link_below_iff [of A B host c])
  then show ?case using child_follow by (auto simp: until_err_id)
next
  case (branch_more kind host c ended xs cs ended' ys zs)
  then show ?case by (auto simp: set_shuffles)
next
  case (tree_done host pk seen es wl)
  then have "es = []" by (cases es) auto
  then have "\<not> trusted_root A B host pk seen rt" for rt using tree_plan_cases [OF tree_done(1)] by auto
  then show ?case using tree_done.prems by (auto elim: vouchedE)
next
  case (tree_links host pk seen l e wl ended xs)
  then show ?case by simp
next
  case (tree_records host pk seen l e wl xs ended ys)
  obtain rt where rt: "trusted_root A B host pk seen rt" "link_root (rr_base rt) = l" "enr_root (rr_base rt) = e"
    using tree_plan_cases [OF tree_records(1)] by auto
  have one: "rt' = rt" if "trusted_root A B host pk seen rt'" for rt' using rt(1) that by (simp add: trusted_root_def)
  have "child_vouched A B (LinkKind wl) host l r \<or> child_vouched A B EnrKind host e r"
    using tree_records.prems(3)
  proof (cases rule: vouched.cases)
    case (vouched_own rt')
    then show ?thesis using one rt by auto
  next
    case (vouched_link rt' k domain)
    then show ?thesis using one rt by auto
  qed
  moreover have "\<not> has_err (until_err ys)" using tree_records.prems(2) by auto
  then have "\<not> has_err ys" by (simp only: until_err_has_err not_False_eq_True)
  ultimately show ?case using tree_records by (auto simp: until_err_id)
qed auto

lemma tree_run_shape:
  assumes "tree_run A B host pk seen wl ended items"
  shows "\<exists>rs. items = map Inr rs \<or> ended \<and> (\<exists>e. items = map Inr rs @ [Inl e])"
  using assms
proof (cases rule: tree_run.cases)
  case tree_start
  then show ?thesis by auto
next
  case (tree_done es)
  then show ?thesis using tree_plan_done [OF tree_done(3)] by (auto intro: exI [of _ "[]"])
next
  case (tree_links l e f xs)
  then show ?thesis using until_err_shape [of xs] by auto
next
  case (tree_records l e xs f ys)
  then have "items = until_err (xs @ ys)" by (simp add: until_err_append)
  moreover have "ended = (f \<or> has_err (xs @ ys))" using tree_records by auto
  ultimately show ?thesis using until_err_shape [of "xs @ ys"] by auto
qed

text \<open>
  C10. A query yields what its tree vouches for. Whatever the interleaving of the tasks, every node
  record that has been yielded is in the record tree of a host that is reached over allowed links, each
  root signed by the key of the link that led to it; there is at most one error, and the query ends with
  it; and a query that ends without one has yielded exactly the records that are vouched for.
\<close>

theorem query_yields_vouched:
  assumes "query A s host pk ended items"
  shows "(\<forall>r. Inr r \<in> set items \<longrightarrow> vouched A (rs_backend s) (rs_remote_whitelist s) host pk (rs_seen_sequence s) r) \<and>
     (\<exists>rs. items = map Inr rs \<or> ended \<and> (\<exists>e. items = map Inr rs @ [Inl e])) \<and>
     (ended \<and> \<not> has_err items \<longrightarrow>
        {r. Inr r \<in> set items} = {r. vouched A (rs_backend s) (rs_remote_whitelist s) host pk (rs_seen_sequence s) r})"
proof (intro conjI)
  note run = assms [unfolded query_def]
  show "\<forall>r. Inr r \<in> set items \<longrightarrow> vouched A (rs_backend s) (rs_remote_whitelist s) host pk (rs_seen_sequence s) r"
    using runs_sound(3) [OF run] by blast
  show "\<exists>rs. items = map Inr rs \<or> ended \<and> (\<exists>e. items = map Inr rs @ [Inl e])"
    by (rule tree_run_shape [OF run])
  show "ended \<and> \<not> has_err items \<longrightarrow>
        {r. Inr r \<in> set items} = {r. vouched A (rs_backend s) (rs_remote_whitelist s) host pk (rs_seen_sequence s) r}"
    using runs_sound(3) [OF run] runs_complete(3) [OF run] by (intro impI set_eqI) auto
qed

section \<open>Runs that have ended\<close>

lemma append_shuffles: "xs @ ys \<in> shuffles xs ys"
  by (induction xs) (auto simp: Cons_in_shuffles_iff)

lemma branch_run_concat:
  "list_all2 (child_run_ended) cs xss \<Longrightarrow> (\<And>c xs. child_run_ended c xs \<Longrightarrow> child_run A B kind host c True xs) \<Longrightarrow>
   branch_run A B kind host cs True (concat xss)"
proof (induction rule: list_all2_induct)
  case Nil
  then show ?case by (auto intro: branch_none)
next
  case (Cons c cs xs xss)
  from branch_more [OF Cons.prems [OF Cons.hyps(1)] Cons.IH [OF Cons.prems] append_shuffles] show ?case by simp
qed

lemma parse_finite: "parse_record A t = Ok (Branch children) \<Longrightarrow> finite children"
proof -
  have "parse_root A s \<noteq> Ok (Branch children)" for s
    by (simp add: parse_root_def split: option.split prod.split)
  moreover have "parse_link A s \<noteq> Ok (Branch children)" for s
    by (auto simp: parse_link_def bind_outcome_Ok_iff split: list.split)
  moreover have "parse_branch s = (Ok (Branch children) :: (dns_error, ('a, 'b) dns_record) outcome) \<Longrightarrow> finite children" for s
    by (auto simp: parse_branch_def bind_outcome_Ok_iff)
  moreover assume "parse_record A t = Ok (Branch children)"
  ultimately show ?thesis
    by (auto simp: parse_record_def bind_outcome_Ok_iff split: option.splits if_splits)
qed

lemma child_plan_finite: "child_plan A B kind host c = Descend children \<Longrightarrow> finite children"
  using child_plan_cases [of A B kind host c "Descend children"] parse_finite
  by (fastforce simp: record_at_def split: sum.splits option.splits outcome.splits)

lemma single_branch: "child_run A B kind host c ended xs \<Longrightarrow> branch_run A B kind host [c] ended xs"
  using branch_more [OF _ branch_none, of A B kind host c ended xs xs] by simp

section \<open>Termination\<close>

text \<open>A rank of the names that falls from every record to those it refers to.\<close>

definition ranked :: "('pk, 'enr) dns_api \<Rightarrow> backend \<Rightarrow> (string \<Rightarrow> nat) \<Rightarrow> bool" where
  "ranked A B rank \<longleftrightarrow>
     (\<forall>c host children. record_at A B (fqdn c host) = Some (Branch children) \<longrightarrow>
        (\<forall>d \<in> children. rank (fqdn d host) < rank (fqdn c host))) \<and>
     (\<forall>name k domain. record_at A B name = Some (Link k domain) \<longrightarrow> rank domain < rank name) \<and>
     (\<forall>host r. record_at A B host = Some (Root r) \<longrightarrow>
        rank (fqdn (link_root (rr_base r)) host) < rank host \<and> rank (fqdn (enr_root (rr_base r)) host) < rank host)"

lemma ranked_plans:
  assumes "ranked A B rank"
  shows "child_plan A B kind host c = Descend children \<Longrightarrow> d \<in> children \<Longrightarrow> rank (fqdn d host) < rank (fqdn c host)"
    and "child_plan A B kind host c = Follow k domain wl \<Longrightarrow> rank domain < rank (fqdn c host)"
    and "tree_plan A B host pk seen = Subtrees l e \<Longrightarrow> rank (fqdn l host) < rank host \<and> rank (fqdn e host) < rank host"
proof -
  show "rank (fqdn d host) < rank (fqdn c host)" if "child_plan A B kind host c = Descend children" "d \<in> children"
    using child_plan_cases [OF that(1)] that(2) assms by (auto simp: ranked_def)
  show "rank domain < rank (fqdn c host)" if "child_plan A B kind host c = Follow k domain wl"
    using child_plan_cases [OF that] assms by (auto simp: ranked_def)
  show "rank (fqdn l host) < rank host \<and> rank (fqdn e host) < rank host" if "tree_plan A B host pk seen = Subtrees l e"
    using tree_plan_cases [OF that] assms by (auto simp: ranked_def trusted_root_def)
qed

text \<open>Every task has a run that has ended.\<close>

lemma branch_ends:
  "\<forall>c \<in> set cs. \<exists>xs. child_run A B kind host c True xs \<Longrightarrow> \<exists>xs. branch_run A B kind host cs True xs"
proof (induction cs)
  case (Cons c cs)
  then obtain xs ys where "child_run A B kind host c True xs" "branch_run A B kind host cs True ys" by auto
  from branch_more [OF this append_shuffles] show ?case by auto
qed (auto intro: branch_none)

lemma tree_ends:
  assumes "\<And>l e kind. tree_plan A B host pk seen = Subtrees l e \<Longrightarrow>
    (\<exists>xs. child_run A B kind host l True xs) \<and> (\<exists>ys. child_run A B kind host e True ys)"
  shows "\<exists>xs. tree_run A B host pk seen wl True xs"
proof (cases "tree_plan A B host pk seen")
  case (TreeDone es)
  then show ?thesis by (blast intro: tree_done)
next
  case (Subtrees l e)
  obtain xs ys where xs: "child_run A B (LinkKind wl) host l True xs" "child_run A B EnrKind host e True ys"
    using assms [OF Subtrees] by blast
  note runs = xs [THEN single_branch]
  show ?thesis
  proof (cases "has_err xs")
    case True
    then show ?thesis using tree_links [OF Subtrees runs(1)] by auto
  next
    case False
    then show ?thesis using tree_records [OF Subtrees runs(1) False runs(2)] by auto
  qed
qed

lemma child_ends:
  assumes "ranked A B rank"
  shows "\<exists>xs. child_run A B kind host c True xs"
proof (induction "rank (fqdn c host)" arbitrary: kind host c rule: less_induct)
  case less
  show ?case
  proof (cases "child_plan A B kind host c")
    case (Done items)
    then show ?thesis by (blast intro: child_done)
  next
    case (Descend children)
    obtain cs where cs: "set cs = children" "distinct cs" using finite_distinct_list [OF child_plan_finite [OF Descend]] by blast
    obtain xs where "branch_run A B kind host cs True xs"
      using branch_ends less ranked_plans(1) [OF assms Descend] cs(1) by meson
    from child_descend [OF Descend cs(2,1) this] show ?thesis by auto
  next
    case (Follow k domain wl)
    have "\<exists>xs. tree_run A B domain (Some k) None wl True xs"
      using ranked_plans(2) [OF assms Follow] ranked_plans(3) [OF assms] less by (intro tree_ends) (meson order.strict_trans)
    then show ?thesis using child_follow [OF Follow] by fastforce
  qed
qed

lemma tree_ends_ranked: "ranked A B rank \<Longrightarrow> \<exists>xs. tree_run A B host pk seen wl True xs"
  by (rule tree_ends) (simp add: child_ends)

text \<open>A run that has not ended can go on, in whatever order the tasks have been interleaved so far.\<close>

lemma shuffles_append: "zs \<in> shuffles xs ys \<Longrightarrow> zs @ us @ vs \<in> shuffles (xs @ us) (ys @ vs)"
proof (induction zs arbitrary: xs ys)
  case Nil
  then show ?case by (simp add: Nil_in_shuffles append_shuffles)
next
  case (Cons z zs)
  then show ?case by (auto simp: Cons_in_shuffles_iff)
qed

lemma until_err_extend: "\<exists>us. until_err (xs @ zs) = until_err xs @ us"
  by (auto simp: until_err_append until_err_id)

lemma runs_extend:
  assumes "ranked A B rank"
  shows "child_run A B kind host c ended xs \<Longrightarrow> \<exists>rest. child_run A B kind host c True (xs @ rest)"
    "branch_run A B kind host cs ended xs \<Longrightarrow> \<exists>rest. branch_run A B kind host cs True (xs @ rest)"
    "tree_run A B host pk seen wl ended xs \<Longrightarrow> \<exists>rest. tree_run A B host pk seen wl True (xs @ rest)"
proof (induction rule: child_run_branch_run_tree_run.inducts)
  case (child_start kind host c)
  then show ?case using child_ends [OF assms] by simp
next
  case (child_done kind host c items)
  then show ?case by (intro exI [of _ "[]"]) (simp add: child_run_branch_run_tree_run.child_done)
next
  case (child_descend kind host c children cs ended items)
  then obtain rest where "branch_run A B kind host cs True (items @ rest)" by blast
  then have "child_run A B kind host c (True \<or> has_err (items @ rest)) (until_err (items @ rest))"
    using child_descend(1-3) child_descend.hyps by (blast intro: child_run_branch_run_tree_run.child_descend)
  then show ?case using until_err_extend [of items rest] by auto
next
  case (child_follow kind host c public_key domain wl ended items)
  then obtain rest where "tree_run A B domain (Some public_key) None wl True (items @ rest)" by blast
  from child_run_branch_run_tree_run.child_follow [OF child_follow(1) this] show ?case
    using until_err_extend [of items rest] by auto
next
  case (branch_none kind host)
  then show ?case by (intro exI [of _ "[]"]) (simp add: child_run_branch_run_tree_run.branch_none)
next
  case (branch_more kind host c ended xs cs ended' ys zs)
  then obtain us vs where "child_run A B kind host c True (xs @ us)" "branch_run A B kind host cs True (ys @ vs)" by blast
  from child_run_branch_run_tree_run.branch_more [OF this shuffles_append] branch_more.hyps show ?case by auto
next
  case (tree_start host pk seen wl)
  then show ?case using tree_ends_ranked [OF assms] by simp
next
  case (tree_done host pk seen es wl)
  then show ?case by (intro exI [of _ "[]"]) (simp add: child_run_branch_run_tree_run.tree_done)
next
  case (tree_links host pk seen l e wl ended xs)
  then obtain rest where links: "branch_run A B (LinkKind wl) host [l] True (xs @ rest)" by blast
  obtain us where us: "until_err (xs @ rest) = until_err xs @ us" using until_err_extend by blast
  show ?case
  proof (cases "has_err (xs @ rest)")
    case True
    then show ?thesis using child_run_branch_run_tree_run.tree_links [OF tree_links(1) links] us by auto
  next
    case False
    obtain ys where "child_run A B EnrKind host e True ys" using child_ends [OF assms] by blast
    from child_run_branch_run_tree_run.tree_records [OF tree_links(1) links False single_branch [OF this]] show ?thesis
      using False us by (auto simp: until_err_id)
  qed
next
  case (tree_records host pk seen l e wl xs ended ys)
  then obtain rest where "branch_run A B EnrKind host [e] True (ys @ rest)" by blast
  then have "tree_run A B host pk seen wl (True \<or> has_err (ys @ rest)) (xs @ until_err (ys @ rest))"
    using tree_records(1-3) tree_records.hyps by (blast intro: child_run_branch_run_tree_run.tree_records)
  then show ?case using until_err_extend [of ys rest] by auto
qed

text \<open>No run yields more than so many items.\<close>

lemma length_until_err: "length (until_err xs) \<le> length xs"
  by (induction xs rule: until_err.induct) auto

lemma branch_bounded:
  assumes "branch_run A B kind host cs ended xs" "\<forall>c \<in> set cs. \<forall>ended ys. child_run A B kind host c ended ys \<longrightarrow> length ys \<le> N c"
  shows "length xs \<le> sum_list (map N cs)"
  using assms
proof (induction cs arbitrary: ended xs)
  case Nil
  then show ?case by (auto elim: branch_run.cases)
next
  case (Cons c cs)
  from Cons.prems(1) obtain e ys e' zs where "child_run A B kind host c e ys" "branch_run A B kind host cs e' zs" "xs \<in> shuffles ys zs"
    by (cases rule: branch_run.cases) auto
  moreover from this have "length xs = length ys + length zs" by (intro length_shuffles)
  ultimately show ?case using Cons.IH [of e' zs] Cons.prems(2) by (fastforce intro: add_mono)
qed

lemma tree_bounded:
  assumes "\<And>l e kind. tree_plan A B host pk seen = Subtrees l e \<Longrightarrow>
    (\<exists>n. \<forall>ended xs. child_run A B kind host l ended xs \<longrightarrow> length xs \<le> n) \<and>
    (\<exists>n. \<forall>ended xs. child_run A B kind host e ended xs \<longrightarrow> length xs \<le> n)"
  shows "\<exists>n. \<forall>ended xs. tree_run A B host pk seen wl ended xs \<longrightarrow> length xs \<le> n"
proof (cases "tree_plan A B host pk seen")
  case (TreeDone es)
  then show ?thesis by (intro exI [of _ "length es"]) (auto elim: tree_run.cases)
next
  case (Subtrees l e)
  obtain n m where n: "\<forall>ended xs. child_run A B (LinkKind wl) host l ended xs \<longrightarrow> length xs \<le> n"
    "\<forall>ended xs. child_run A B EnrKind host e ended xs \<longrightarrow> length xs \<le> m"
    using assms [OF Subtrees] by meson
  have links: "length xs \<le> n" if "branch_run A B (LinkKind wl) host [l] ended xs" for ended xs
    using branch_bounded [OF that, of "\<lambda>_. n"] n(1) by simp
  have records: "length xs \<le> m" if "branch_run A B EnrKind host [e] ended xs" for ended xs
    using branch_bounded [OF that, of "\<lambda>_. m"] n(2) by simp
  have "length xs \<le> n + m" if "tree_run A B host pk seen wl ended xs" for ended xs
    using that
  proof (cases rule: tree_run.cases)
    case (tree_links l' e' f ys)
    then show ?thesis using Subtrees links [of f ys] length_until_err [of ys] by simp
  next
    case (tree_records l' e' ys f zs)
    then show ?thesis using Subtrees links [of True ys] records [of f zs] length_until_err [of zs] by simp
  qed (use Subtrees in simp_all)
  then show ?thesis by blast
qed

lemma child_bounded:
  assumes "ranked A B rank"
  shows "\<exists>n. \<forall>ended xs. child_run A B kind host c ended xs \<longrightarrow> length xs \<le> n"
proof (induction "rank (fqdn c host)" arbitrary: kind host c rule: less_induct)
  case less
  show ?case
  proof (cases "child_plan A B kind host c")
    case (Done items)
    then show ?thesis by (intro exI [of _ "length items"]) (auto elim: child_run.cases)
  next
    case (Descend children)
    have "\<forall>d \<in> children. \<exists>n. \<forall>ended xs. child_run A B kind host d ended xs \<longrightarrow> length xs \<le> n"
      using less ranked_plans(1) [OF assms Descend] by blast
    then obtain N where N: "\<forall>d \<in> children. \<forall>ended xs. child_run A B kind host d ended xs \<longrightarrow> length xs \<le> N d" by metis
    have "length xs \<le> sum N children" if "child_run A B kind host c ended xs" for ended xs
      using that
    proof (cases rule: child_run.cases)
      case (child_descend children' cs f ys)
      then have cs: "set cs = children" "distinct cs" using Descend by simp_all
      have "length ys \<le> sum_list (map N cs)" using branch_bounded [OF child_descend(6)] N cs(1) by blast
      then show ?thesis using child_descend(2) length_until_err [of ys] sum_list_distinct_conv_sum_set [OF cs(2), of N] cs(1) by simp
    qed (use Descend in simp_all)
    then show ?thesis by blast
  next
    case (Follow k domain wl)
    have "\<exists>n. \<forall>ended xs. tree_run A B domain (Some k) None wl ended xs \<longrightarrow> length xs \<le> n"
      using ranked_plans(2) [OF assms Follow] ranked_plans(3) [OF assms] less by (intro tree_bounded) (meson order.strict_trans)
    then obtain n where n: "\<forall>ended xs. tree_run A B domain (Some k) None wl ended xs \<longrightarrow> length xs \<le> n" by blast
    have "length xs \<le> n" if "child_run A B kind host c ended xs" for ended xs
      using that
    proof (cases rule: child_run.cases)
      case (child_follow k' domain' wl' f ys)
      then have "length ys \<le> n" using n Follow by simp
      then show ?thesis using child_follow(2) length_until_err [of ys] by simp
    qed (use Follow in simp_all)
    then show ?thesis by blast
  qed
qed

text \<open>
  The calls a call makes: each of them looks up one name, \<open>fqdn subdomain host\<close> or the host, and then
  resolves the children of a branch, the tree of a link, or the two subtrees of a root.
\<close>

datatype 'pk call = ChildCall "'pk branch_kind" string string | TreeCall string "'pk option" "nat option" "'pk whitelist"

inductive calls :: "('pk, 'enr) dns_api \<Rightarrow> backend \<Rightarrow> 'pk call \<Rightarrow> 'pk call \<Rightarrow> bool"
  for A :: "('pk, 'enr) dns_api" and B :: backend where
  calls_child: "child_plan A B kind host c = Descend children \<Longrightarrow> d \<in> children \<Longrightarrow>
    calls A B (ChildCall kind host c) (ChildCall kind host d)"
| calls_tree: "child_plan A B kind host c = Follow public_key domain wl \<Longrightarrow>
    calls A B (ChildCall kind host c) (TreeCall domain (Some public_key) None wl)"
| calls_links: "tree_plan A B host pk seen = Subtrees l e \<Longrightarrow>
    calls A B (TreeCall host pk seen wl) (ChildCall (LinkKind wl) host l)"
| calls_records: "tree_plan A B host pk seen = Subtrees l e \<Longrightarrow>
    calls A B (TreeCall host pk seen wl) (ChildCall EnrKind host e)"

inductive_cases calls_childE: "calls A B (ChildCall kind host c) t"
inductive_cases calls_treeE: "calls A B (TreeCall host pk seen wl) t"

fun call_name :: "'pk call \<Rightarrow> string" where
  "call_name (ChildCall kind host c) = fqdn c host"
| "call_name (TreeCall host pk seen wl) = host"

lemma calls_rank: "ranked A B rank \<Longrightarrow> calls A B t u \<Longrightarrow> rank (call_name u) < rank (call_name t)"
  by (erule calls.cases) (simp_all add: ranked_plans)

lemma finite_calls: "finite {u. calls A B t u}"
proof (cases t)
  case (ChildCall kind host c)
  show ?thesis
  proof (cases "child_plan A B kind host c")
    case (Descend children)
    then have "{u. calls A B t u} \<subseteq> ChildCall kind host ` children" using ChildCall by (auto elim: calls_childE)
    then show ?thesis using child_plan_finite [OF Descend] finite_surj by blast
  next
    case (Done items)
    then have "{u. calls A B t u} = {}" using ChildCall by (auto elim: calls_childE)
    then show ?thesis by simp
  next
    case (Follow k domain wl)
    then have "{u. calls A B t u} \<subseteq> {TreeCall domain (Some k) None wl}" using ChildCall by (auto elim: calls_childE)
    then show ?thesis using finite_subset by blast
  qed
next
  case (TreeCall host pk seen wl)
  show ?thesis
  proof (cases "tree_plan A B host pk seen")
    case (TreeDone es)
    then have "{u. calls A B t u} = {}" using TreeCall by (auto elim: calls_treeE)
    then show ?thesis by simp
  next
    case (Subtrees l e)
    then have "{u. calls A B t u} \<subseteq> {ChildCall (LinkKind wl) host l, ChildCall EnrKind host e}"
      using TreeCall by (auto elim: calls_treeE)
    then show ?thesis using finite_subset by blast
  qed
qed

lemma finite_all_calls:
  assumes "ranked A B rank"
  shows "finite {u. (calls A B)\<^sup>*\<^sup>* t u}"
proof (induction "rank (call_name t)" arbitrary: t rule: less_induct)
  case less
  have "{u. (calls A B)\<^sup>*\<^sup>* t u} \<subseteq> insert t (\<Union>s \<in> {s. calls A B t s}. {u. (calls A B)\<^sup>*\<^sup>* s u})"
    by (auto elim: converse_rtranclpE)
  moreover have "finite {u. (calls A B)\<^sup>*\<^sup>* s u}" if "calls A B t s" for s
    using less calls_rank [OF assms that] by blast
  ultimately show ?case using finite_calls [of A B t] by (auto intro: finite_subset)
qed

text \<open>
  C28. Resolution ends when the records do not refer back to themselves. If some rank falls along every
  branch, link and root, then no interleaving of the tasks hangs. Whatever a query has yielded so far, in
  whatever order its tasks have run, it can go on to its end from there. And it cannot go on for ever: the
  calls it makes, directly and in their turn, are finitely many, none of them leads back to itself, and no
  run of the query yields more than a fixed number of items.
\<close>

theorem resolution_ends:
  fixes A :: "('pk, 'enr) dns_api" and s :: "'pk resolver" and calls_of :: "'pk call set"
  assumes "ranked A (rs_backend s) rank"
    and "calls_of = {t. (calls A (rs_backend s))\<^sup>*\<^sup>* (TreeCall host pk (rs_seen_sequence s) (rs_remote_whitelist s)) t}"
  shows "(\<exists>items. query A s host pk True items) \<and>
    (\<forall>ended items. query A s host pk ended items \<longrightarrow> (\<exists>rest. query A s host pk True (items @ rest))) \<and>
    finite calls_of \<and> (\<forall>t \<in> calls_of. \<not> (calls A (rs_backend s))\<^sup>+\<^sup>+ t t) \<and>
    (\<exists>n. \<forall>ended items. query A s host pk ended items \<longrightarrow> length items \<le> n)"
proof (intro conjI)
  let ?calls = "calls A (rs_backend s)"
  show "\<exists>items. query A s host pk True items" unfolding query_def by (rule tree_ends_ranked [OF assms(1)])
  show "\<forall>ended items. query A s host pk ended items \<longrightarrow> (\<exists>rest. query A s host pk True (items @ rest))"
    unfolding query_def using runs_extend(3) [OF assms(1)] by blast
  show "finite calls_of" using finite_all_calls [OF assms(1)] assms(2) by simp
  have "rank (call_name u) < rank (call_name t)" if "?calls\<^sup>+\<^sup>+ t u" for t u
    using that calls_rank [OF assms(1)] by (induction rule: tranclp_induct) (blast intro: less_trans)+
  then show "\<forall>t \<in> calls_of. \<not> ?calls\<^sup>+\<^sup>+ t t" by blast
  show "\<exists>n. \<forall>ended items. query A s host pk ended items \<longrightarrow> length items \<le> n"
    unfolding query_def by (rule tree_bounded) (simp add: child_bounded [OF assms(1)])
qed

section \<open>What the resolver does not check\<close>

lemma trusted_plan:
  "trusted_root A B host pk seen rt \<Longrightarrow> tree_plan A B host pk seen = Subtrees (link_root (rr_base rt)) (enr_root (rr_base rt))"
  by (auto simp: trusted_root_def tree_plan_def record_at_def split: sum.splits option.splits outcome.splits)

lemma cyclic_stuck:
  "child_run A B kind host c ended xs \<Longrightarrow> record_at A B (fqdn c host) = Some (Branch {c}) \<Longrightarrow> \<not> ended \<and> xs = []"
  "branch_run A B kind host cs ended xs \<Longrightarrow>
     \<forall>d. cs = [d] \<and> record_at A B (fqdn d host) = Some (Branch {d}) \<longrightarrow> \<not> ended \<and> xs = []"
  "tree_run A B host pk seen wl ended xs \<Longrightarrow> True"
proof (induction rule: child_run_branch_run_tree_run.inducts)
  case (child_done kind host c' items)
  then show ?case by (cases kind) (auto simp: child_plan_def record_at_def split: sum.splits option.splits outcome.splits)
next
  case (child_descend kind host c' children cs ended items)
  then have "children = {c'}" using child_plan_cases [OF child_descend(1)] by simp
  then have "length cs = 1" "set cs = {c'}" using child_descend.hyps distinct_card [of cs] by simp_all
  then have "cs = [c']" by (cases cs) auto
  then show ?case using child_descend by simp
next
  case (child_follow kind host c' public_key domain wl ended items)
  then show ?case using child_plan_cases [OF child_follow(1)] by simp
next
  case (branch_more kind host c' ended xs cs ended' ys zs)
  then show ?case by (auto elim: branch_run.cases)
qed auto

text \<open>
  C36. Nothing stops a tree that refers to itself. When the links of a root begin with a branch that
  lists itself, the query never yields an item and never ends, whatever else the tree holds.
\<close>

theorem cyclic_links_hang:
  assumes "trusted_root A (rs_backend s) host pk (rs_seen_sequence s) rt"
    and "record_at A (rs_backend s) (fqdn (link_root (rr_base rt)) host) = Some (Branch {link_root (rr_base rt)})"
    and "query A s host pk ended items"
  shows "\<not> ended \<and> items = []"
  using assms(3) unfolding query_def
proof (cases rule: tree_run.cases)
  case tree_start
  then show ?thesis by simp
next
  case (tree_done es)
  then show ?thesis using trusted_plan [OF assms(1)] by simp
next
  case (tree_links l e f xs)
  then have "link_root (rr_base rt) = l" using trusted_plan [OF assms(1)] by simp
  then have "\<not> f \<and> xs = []" using cyclic_stuck(2) [OF tree_links(4)] assms(2) by simp
  then show ?thesis using tree_links by simp
next
  case (tree_records l e xs f ys)
  then have "link_root (rr_base rt) = l" using trusted_plan [OF assms(1)] by simp
  then show ?thesis using cyclic_stuck(2) [OF tree_records(4)] assms(2) by simp
qed

text \<open>
  The signature covers the root only. The hash under which a record is found is never compared with
  the record, so whoever answers for the name of the record tree of a correctly signed root can put any
  node record there, and the query yields it.
\<close>

theorem hashes_not_checked:
  assumes "encoding_ok A" "trusted_root A B host pk seen rt" "link_root (rr_base rt) \<noteq> enr_root (rr_base rt)"
    and "B (fqdn (link_root (rr_base rt)) host) = Inr None"
  shows "tree_run A (B(fqdn (enr_root (rr_base rt)) host := Inr (Some (enr_to_base64 A r)))) host pk seen wl True [Inr r]"
proof -
  let ?e = "enr_root (rr_base rt)" and ?l = "link_root (rr_base rt)"
  let ?B = "B(fqdn ?e host := Inr (Some (enr_to_base64 A r)))"
  have "length (fqdn ?e host) \<noteq> length host" by (simp add: fqdn_def)
  then have other: "fqdn ?e host \<noteq> host" by metis
  have "fqdn ?l host \<noteq> fqdn ?e host" using assms(3) by (simp add: fqdn_def)
  then have "child_plan A ?B (LinkKind wl) host ?l = Done []" using assms(4) by (simp add: child_plan_def)
  then have links: "branch_run A ?B (LinkKind wl) host [?l] True []" by (intro single_branch child_done)
  have "parse_record A (enr_to_base64 A r) = Ok (EnrRecord r)" using enr_text [OF assms(1), of iter r] by simp
  then have "child_plan A ?B EnrKind host ?e = Done [Inr r]" by (simp add: child_plan_def)
  then have records: "branch_run A ?B EnrKind host [?e] True [Inr r]" by (intro single_branch child_done)
  have "trusted_root A ?B host pk seen rt"
    using assms(2) other by (simp add: trusted_root_def record_at_def)
  from tree_records [OF trusted_plan [OF this] links _ records] show ?thesis by simp
qed

section \<open>Witnesses\<close>

definition demo_backend :: backend where
  "demo_backend = memory_backend
     [(''n'', ''enrtree-root:v1 e=AB l=CD seq=12 sig=ab''), (''AB.n'', ''enrtree-branch:EF''), (''EF.n'', ''enr:x'')]"

definition demo_resolver :: "bytes resolver" where
  "demo_resolver = new_resolver demo_backend"

lemma demo_root:
  "parse_record demo_dns ''enrtree-root:v1 e=AB l=CD seq=12 sig=ab'' =
     Ok (Root \<lparr>rr_base = \<lparr>enr_root = ''AB'', link_root = ''CD'', sequence = 12\<rparr>, rr_signature = [1]\<rparr>)"
proof -
  have "root_ok \<lparr>enr_root = ''AB'', link_root = ''CD'', sequence = 12\<rparr>" "tight ''ab''"
    by (simp_all add: root_ok_def is_white_def BASE32_HASH_LEN_def)
  moreover have "show_nat 12 = ''12''" by code_simp
  moreover have "base64url_nopad_decode demo_dns ''ab'' = Some [1]" by (simp add: demo_dns_def)
  ultimately show ?thesis using root_text [of _ "''ab''" demo_dns]
    by (fastforce simp: show_unsigned_root_def ROOT_PREFIX_def)
qed

lemma demo_records:
  "parse_record demo_dns ''enrtree-branch:EF'' = Ok (Branch {''EF''})"
  "parse_record demo_dns ''enr:x'' = Ok (EnrRecord ''x'')"
  by code_simp+

lemma demo_lookups:
  "demo_backend ''n'' = Inr (Some ''enrtree-root:v1 e=AB l=CD seq=12 sig=ab'')"
  "demo_backend ''AB.n'' = Inr (Some ''enrtree-branch:EF'')" "demo_backend ''EF.n'' = Inr (Some ''enr:x'')"
  "demo_backend ''CD.n'' = Inr None"
  by (simp_all add: demo_backend_def memory_backend_def)

lemma demo_plans:
  "tree_plan demo_dns demo_backend ''n'' (Some [1]) None = Subtrees ''CD'' ''AB''"
  "child_plan demo_dns demo_backend kind ''n'' ''CD'' = Done []"
  "child_plan demo_dns demo_backend EnrKind ''n'' ''AB'' = Descend {''EF''}"
  "child_plan demo_dns demo_backend EnrKind ''n'' ''EF'' = Done [Inr ''x'']"
  by (simp_all add: tree_plan_def child_plan_def fqdn_def demo_lookups demo_root demo_records root_verify_def)
     (simp add: demo_dns_def)

lemma demo_run: "query demo_dns demo_resolver ''n'' (Some [1]) True [Inr ''x'']"
proof -
  have links: "branch_run demo_dns demo_backend (LinkKind None) ''n'' [''CD''] True []"
    by (intro single_branch child_done demo_plans)
  have "branch_run demo_dns demo_backend EnrKind ''n'' [''EF''] True [Inr ''x'']"
    by (intro single_branch child_done demo_plans)
  from child_descend [OF demo_plans(3) _ _ this] have "child_run demo_dns demo_backend EnrKind ''n'' ''AB'' True [Inr ''x'']" by simp
  from tree_records [OF demo_plans(1) links _ single_branch [OF this]] show ?thesis
    by (simp add: query_def demo_resolver_def new_resolver_def)
qed

theorem query_yields_vouched_witness:
  "vouched demo_dns demo_backend None ''n'' (Some [1]) None ''x''"
  using query_yields_vouched [OF demo_run] by (simp add: demo_resolver_def new_resolver_def)

definition demo_rank :: "string \<Rightarrow> nat" where
  "demo_rank name = (if name = ''n'' then 2 else if name = ''AB.n'' then 1 else 0)"

lemma demo_names: "fqdn c host = ''AB.n'' \<longleftrightarrow> c = ''AB'' \<and> host = ''n''" "fqdn c host \<noteq> ''n''"
  by (auto simp: fqdn_def append_eq_Cons_conv Cons_eq_append_conv)

lemma demo_record_at:
  "record_at demo_dns demo_backend name =
     (if name = ''n'' then Some (Root \<lparr>rr_base = \<lparr>enr_root = ''AB'', link_root = ''CD'', sequence = 12\<rparr>, rr_signature = [1]\<rparr>)
      else if name = ''AB.n'' then Some (Branch {''EF''})
      else if name = ''EF.n'' then Some (EnrRecord ''x'')
      else None)"
  by (simp add: record_at_def demo_lookups demo_root demo_records)
     (simp add: demo_backend_def memory_backend_def)

lemma demo_ranked: "ranked demo_dns demo_backend demo_rank"
  by (auto simp: ranked_def demo_record_at demo_names demo_rank_def fqdn_def split: if_splits)

theorem resolution_ends_witness:
  "(\<exists>rest. query demo_dns demo_resolver ''n'' (Some [1]) True ([] @ rest)) \<and>
   (\<exists>n. \<forall>ended items. query demo_dns demo_resolver ''n'' (Some [1]) ended items \<longrightarrow> length items \<le> n)"
proof -
  have start: "query demo_dns demo_resolver ''n'' (Some [1]) False []" unfolding query_def by (rule tree_start)
  have "ranked demo_dns (rs_backend demo_resolver) demo_rank" by (simp add: demo_resolver_def new_resolver_def demo_ranked)
  note ends = resolution_ends [where host = "''n''" and pk = "Some [1]", OF this refl]
  note later = ends [THEN conjunct2]
  show ?thesis by (intro conjI later [THEN conjunct1, rule_format, OF start]
    later [THEN conjunct2, THEN conjunct2, THEN conjunct2])
qed

definition cyclic_backend :: backend where
  "cyclic_backend = memory_backend
     [(''n'', ''enrtree-root:v1 e=AB l=CD seq=12 sig=ab''), (''CD.n'', ''enrtree-branch:CD'')]"

theorem cyclic_links_hang_witness:
  "\<forall>items. \<not> query demo_dns (new_resolver cyclic_backend) ''n'' (Some [1]) True items"
proof (intro allI notI)
  fix items
  assume run: "query demo_dns (new_resolver cyclic_backend) ''n'' (Some [1]) True items"
  have "cyclic_backend ''n'' = Inr (Some ''enrtree-root:v1 e=AB l=CD seq=12 sig=ab'')"
    "cyclic_backend ''CD.n'' = Inr (Some ''enrtree-branch:CD'')"
    by (simp_all add: cyclic_backend_def memory_backend_def)
  moreover have "parse_record demo_dns ''enrtree-branch:CD'' = Ok (Branch {''CD''})" by code_simp
  ultimately show False
    using cyclic_links_hang [OF _ _ run, of "\<lparr>rr_base = \<lparr>enr_root = ''AB'', link_root = ''CD'', sequence = 12\<rparr>, rr_signature = [1]\<rparr>"]
    by (simp add: new_resolver_def trusted_root_def record_at_def demo_root root_verify_def fqdn_def)
       (simp add: demo_dns_def)
qed

theorem hashes_not_checked_witness:
  "tree_run demo_dns (demo_backend(''AB.n'' := Inr (Some ''enr:y''))) ''n'' (Some [1]) None None True [Inr ''y'']"
proof -
  have "trusted_root demo_dns demo_backend ''n'' (Some [1]) None
      \<lparr>rr_base = \<lparr>enr_root = ''AB'', link_root = ''CD'', sequence = 12\<rparr>, rr_signature = [1]\<rparr>"
    by (simp add: trusted_root_def demo_record_at root_verify_def) (simp add: demo_dns_def)
  from hashes_not_checked [OF demo_dns_ok this, of "''y''" None] show ?thesis
    by (simp add: fqdn_def demo_lookups) (simp add: demo_dns_def ENR_PREFIX_def)
qed

end
