(* ===== verification/Dns_Backend.thy ===== *)
theory Dns_Backend
  imports Dns_Resolve Peer
begin

text \<open>
  The backend over the network, \<^verbatim>\<open>dnsdisc/src/backend/trust_dns.rs\<close>. The resolver of the
  \<^verbatim>\<open>trust-dns-resolver\<close> crate is a parameter: for a name, the TXT records it finds, each the list of its
  character strings. A character string has at most 255 bytes; a longer text is published in several.
\<close>

datatype txt_answer = TxtRecords "bytes list list" | NoRecordsFound | LookupFailed

text \<open>\<open>String::from_utf8\<close>; a string is the list of its bytes.\<close>

definition text_of :: "bytes \<Rightarrow> string" where "text_of = map (\<lambda>b. char_of (unat b))"
definition bytes_of :: "string \<Rightarrow> bytes" where "bytes_of = map (\<lambda>c. word_of_nat (of_char c))"

definition network_backend :: "(string \<Rightarrow> txt_answer) \<Rightarrow> backend" where
  "network_backend txt_lookup name =
     (case txt_lookup (name @ ''.'') of
        LookupFailed \<Rightarrow> Inl DnsOther
      | NoRecordsFound \<Rightarrow> Inr None
      | TxtRecords [] \<Rightarrow> Inr None
      | TxtRecords ([] # _) \<Rightarrow> Inr None
      | TxtRecords ((txt_entry # _) # _) \<Rightarrow>
          if utf8_valid txt_entry then Inr (Some (text_of txt_entry)) else Inl DnsOther)"

section \<open>A zone that is published\<close>

function txt_strings :: "bytes \<Rightarrow> bytes list" where
  "txt_strings t = (if length t \<le> 255 then [t] else take 255 t # txt_strings (drop 255 t))"
  by pat_completeness auto
termination by (relation "measure length") auto

declare txt_strings.simps [simp del]

definition publishes :: "(string \<Rightarrow> txt_answer) \<Rightarrow> (string \<times> string) list \<Rightarrow> bool" where
  "publishes txt_lookup zone \<longleftrightarrow>
     (\<forall>name. txt_lookup (name @ ''.'') =
        (case map_of zone name of None \<Rightarrow> NoRecordsFound | Some t \<Rightarrow> TxtRecords [txt_strings (bytes_of t)]))"

definition ascii_text :: "string \<Rightarrow> bool" where
  "ascii_text t \<longleftrightarrow> (\<forall>c \<in> set t. of_char c < (128 :: nat))"

lemma text_of_bytes: "text_of (bytes_of t) = t"
proof (induction t)
  case (Cons c t)
  have "unat (word_of_nat (of_char c) :: byte) = of_char c" by (simp add: unat_of_nat take_bit_eq_mod)
  then show ?case using Cons by (simp add: text_of_def bytes_of_def)
qed (simp add: text_of_def bytes_of_def)

lemma utf8_ascii: "\<forall>b \<in> set bs. b < 128 \<Longrightarrow> utf8_valid bs"
  by (induction bs) auto

lemma ascii_bytes: "ascii_text t \<Longrightarrow> b \<in> set (bytes_of t) \<Longrightarrow> b < 128"
  by (auto simp: ascii_text_def bytes_of_def word_less_nat_alt unat_of_nat take_bit_eq_mod)

lemma first_txt_string: "\<exists>ss. txt_strings t = take 255 t # ss"
  by (subst txt_strings.simps) simp

lemma network_cuts:
  assumes "publishes txt_lookup zone" "\<forall>(name, t) \<in> set zone. ascii_text t"
  shows "network_backend txt_lookup = memory_backend (map (\<lambda>(name, t). (name, take 255 t)) zone)"
proof
  fix name
  have cut: "map_of (map (\<lambda>(name, t). (name, take 255 t)) zone) name = map_option (take 255) (map_of zone name)"
    by (induction zone) auto
  show "network_backend txt_lookup name = memory_backend (map (\<lambda>(name, t). (name, take 255 t)) zone) name"
  proof (cases "map_of zone name")
    case None
    then show ?thesis using assms(1) cut by (simp add: network_backend_def publishes_def memory_backend_def)
  next
    case (Some t)
    have "ascii_text t" using assms(2) map_of_SomeD [OF Some] by blast
    then have t: "ascii_text (take 255 t)" by (meson ascii_text_def in_set_takeD)
    obtain ss where "txt_strings (bytes_of t) = take 255 (bytes_of t) # ss" using first_txt_string by blast
    moreover have "take 255 (bytes_of t) = bytes_of (take 255 t)" by (simp add: bytes_of_def take_map)
    moreover have "utf8_valid (bytes_of (take 255 t))" using t by (intro utf8_ascii ballI) (rule ascii_bytes)
    ultimately show ?thesis
      using assms(1) cut Some by (simp add: network_backend_def publishes_def memory_backend_def text_of_bytes)
  qed
qed

text \<open>
  The network gives the first 255 bytes of a record. On a zone of ASCII texts that is published as
  TXT records the backend over the network is the backend in memory on the zone with every text cut at
  255 bytes; so the two agree on zones of short texts, and what is shown of resolution carries over.
\<close>

theorem network_backend_cuts:
  assumes "publishes txt_lookup zone" "\<forall>(name, t) \<in> set zone. ascii_text t"
  shows "network_backend txt_lookup = memory_backend (map (\<lambda>(name, t). (name, take 255 t)) zone)"
  by (rule network_cuts [OF assms])

section \<open>Long branches\<close>

lemma join_cut:
  assumes "\<forall>h \<in> set hs. length h = n" "k < length hs" "r \<le> n"
  shows "take (k * Suc n + r) (join [c] hs) = join [c] (take k hs @ [take r (hs ! k)])"
  using assms
proof (induction k arbitrary: hs)
  case 0
  then show ?case by (cases hs rule: list.exhaust; cases "tl hs") auto
next
  case (Suc k)
  then obtain h i hs' where hs: "hs = h # i # hs'" by (cases hs; cases "tl hs") auto
  have "take (k * Suc n + r) (join [c] (i # hs')) = join [c] (take k (i # hs') @ [take r ((i # hs') ! k)])"
    using Suc hs by (intro Suc.IH) auto
  moreover have "length h = n" using Suc.prems(1) hs by simp
  moreover have "\<exists>x xs. take k (i # hs') @ [take r ((i # hs') ! k)] = x # xs"
    by (cases "take k (i # hs') @ [take r ((i # hs') ! k)]") auto
  ultimately show ?case unfolding hs by (auto simp: algebra_simps)
qed

text \<open>
  C30. A branch with more than eight children loses the others. The text of a branch of nine or more
  hashes of the usual 26 bytes is longer than 255 bytes, so the network gives its first part: a resolver
  descends into the first eight children and into a ninth that is cut to 24 bytes and does not exist,
  and never hears of the rest.
\<close>

theorem long_branch_cut:
  assumes "publishes txt_lookup zone" "\<forall>(name, t) \<in> set zone. ascii_text t"
    and "map_of zone (fqdn subdomain host) = Some (show_record A (\<lambda>_. hs) (Branch (set hs)))"
    and "9 \<le> length hs" "\<forall>h \<in> set hs. hash_ok h \<and> length h = BASE32_HASH_LEN"
  shows "child_plan A (network_backend txt_lookup) kind host subdomain =
    Descend (set (take 8 hs) \<union> {take 24 (hs ! 8)})"
proof -
  let ?hs = "take 8 hs @ [take 24 (hs ! 8)]"
  have h8: "hs ! 8 \<in> set hs" using assms(4) by simp
  have ok: "\<forall>h \<in> set ?hs. hash_ok h"
  proof
    fix h assume "h \<in> set ?hs"
    then consider "h \<in> set hs" | "h = take 24 (hs ! 8)" by (auto dest: in_set_takeD)
    then show "hash_ok h"
    proof cases
      case 2
      have n: "hash_ok (hs ! 8)" "length (hs ! 8) = 26" using assms(5) h8 by (auto simp: BASE32_HASH_LEN_def)
      then have "h \<noteq> []" "set h \<subseteq> set (hs ! 8)" "length h \<le> 26" using 2 by (auto dest: in_set_takeD)
      then show ?thesis using n(1) by (auto simp: hash_ok_def tight_def BASE32_HASH_LEN_def)
    qed (use assms(5) in blast)
  qed
  have "take (8 * Suc 26 + 24) (join [CHR '','' ] hs) = join [CHR '',''] ?hs"
    using assms(4,5) by (intro join_cut) (auto simp: BASE32_HASH_LEN_def)
  then have cut: "take 255 (show_record A (\<lambda>_. hs) (Branch (set hs))) = show_record A (\<lambda>_. ?hs) (Branch (set ?hs))"
    by (simp add: BRANCH_PREFIX_def)
  have "map_of (map (\<lambda>(name, t). (name, take 255 t)) zone) (fqdn subdomain host) =
      map_option (take 255) (map_of zone (fqdn subdomain host))" by (induction zone) auto
  then have "network_backend txt_lookup (fqdn subdomain host) = Inr (Some (show_record A (\<lambda>_. ?hs) (Branch (set ?hs))))"
    unfolding network_cuts [OF assms(1,2)] by (simp only: memory_backend_def assms(3) option.map cut)
  moreover have "parse_record A (show_record A (\<lambda>_. ?hs) (Branch (set ?hs))) = Ok (Branch (set ?hs))"
    using ok by (intro branch_text) simp_all
  ultimately have "child_plan A (network_backend txt_lookup) kind host subdomain = Descend (set ?hs)"
    by (simp only: child_plan_def sum.case option.case outcome.case dns_record.case)
  then show ?thesis by (simp add: Un_commute insert_commute)
qed

section \<open>Witnesses\<close>

definition demo_lookup :: "(string \<times> string) list \<Rightarrow> string \<Rightarrow> txt_answer" where
  "demo_lookup zone name =
     (case map_of zone (butlast name) of None \<Rightarrow> NoRecordsFound | Some t \<Rightarrow> TxtRecords [txt_strings (bytes_of t)])"

lemma demo_publishes: "publishes (demo_lookup zone) zone"
  by (simp add: publishes_def demo_lookup_def)

theorem network_backend_cuts_witness:
  "network_backend (demo_lookup [(''n'', ''text'')]) = memory_backend [(''n'', ''text'')]"
  using network_backend_cuts [OF demo_publishes, of "[(''n'', ''text'')]"] by (simp add: ascii_text_def)

definition demo_hashes :: "string list" where
  "demo_hashes = map (\<lambda>i. replicate 26 (char_of (65 + i :: nat))) [0 ..< 13]"

theorem long_branch_cut_witness:
  "child_plan demo_dns (network_backend (demo_lookup [(''AB.n'', show_record demo_dns (\<lambda>_. demo_hashes) (Branch (set demo_hashes)))]))
     EnrKind ''n'' ''AB'' = Descend (set (take 8 demo_hashes) \<union> {take 24 (demo_hashes ! 8)})"
proof -
  let ?t = "show_record demo_dns (\<lambda>_. demo_hashes) (Branch (set demo_hashes))"
  have "ascii_text ?t" by code_simp
  moreover have "\<forall>h \<in> set demo_hashes. hash_ok h \<and> length h = BASE32_HASH_LEN" by code_simp
  moreover have "map_of [(''AB.n'', ?t)] (fqdn ''AB'' ''n'') = Some ?t" by (simp add: fqdn_def)
  moreover have "9 \<le> length demo_hashes" by (simp add: demo_hashes_def)
  ultimately show ?thesis by (intro long_branch_cut [OF demo_publishes]) simp_all
qed

end
