(* ===== verification/Discovery.thy ===== *)
theory Discovery
  imports Dns_Resolve Discv4_Lookup Swarm
begin

text \<open>
  Where the dialer gets its nodes from: \<^verbatim>\<open>devp2p/src/disc.rs\<close> and \<^verbatim>\<open>devp2p/src/disc/\<close>, and the text form of
  node records in \<^verbatim>\<open>devp2p/src/types.rs\<close> and \<^verbatim>\<open>discv4/src/node.rs\<close>. A pump is the function from what its
  source yields, and from which of its sends succeed, to what it sends. The parsers of identifiers, of
  socket addresses and of URLs, and the accessors of node records of the \<^verbatim>\<open>enr\<close> and \<^verbatim>\<open>discv5\<close> crates are
  parameters.
\<close>

section \<open>The text of node records\<close>

record rlpx_record =
  rx_id :: peer_id
  rx_addr :: sock_addr

datatype record_error = NotEnode | BadId | NoAddress | BadAddress

text \<open>\<open>str::split_at\<close>: a position that is not the boundary of a character panics.\<close>

definition is_char_boundary :: "nat \<Rightarrow> string \<Rightarrow> bool" where
  "is_char_boundary n s \<longleftrightarrow>
     n = length s \<or> n < length s \<and> \<not> (128 \<le> (of_char (s ! n) :: nat) \<and> (of_char (s ! n) :: nat) < 192)"

definition split_at_str :: "nat \<Rightarrow> string \<Rightarrow> ('e, string \<times> string) outcome" where
  "split_at_str n s = (if is_char_boundary n s then Ok (take n s, drop n s) else Panic)"

definition ENODE_PREFIX :: string where "ENODE_PREFIX = ''enode://''"

definition rlpx_record_from_str :: "(string \<Rightarrow> peer_id option) \<Rightarrow> (string \<Rightarrow> sock_addr option) \<Rightarrow> string
    \<Rightarrow> (record_error, rlpx_record) outcome" where
  "rlpx_record_from_str parse_id parse_addr s =
     bind_outcome (split_at_str (length ENODE_PREFIX) s) (\<lambda>(prefix, data).
     if prefix \<noteq> ENODE_PREFIX then Err NotEnode
     else (case split_char CHR ''@'' data of
             [] \<Rightarrow> Err BadId
           | p # ps \<Rightarrow>
               bind_outcome (of_option BadId (parse_id p)) (\<lambda>i.
               case ps of
                 [] \<Rightarrow> Err NoAddress
               | q # _ \<Rightarrow> bind_outcome (of_option BadAddress (parse_addr q)) (\<lambda>addr.
                   Ok \<lparr>rx_id = i, rx_addr = addr\<rparr>))))"

text \<open>\<open>Ipv4Addr::from_str\<close>: four numbers below 256 of at most three digits, without leading zeros.\<close>

definition parse_octet :: "string \<Rightarrow> byte option" where
  "parse_octet ds =
     (if ds = [] \<or> 3 < length ds \<or> 1 < length ds \<and> hd ds = CHR ''0'' then None
      else Option.bind (parse_digits 0 ds) (\<lambda>n. if n < 256 then Some (word_of_nat n) else None))"

definition parse_ipv4 :: "string \<Rightarrow> ip_addr option" where
  "parse_ipv4 s =
     Option.bind (those (map parse_octet (split_char CHR ''.'' s))) (\<lambda>os.
     if length os = 4 then Some (ip_addr.V4 os) else None)"

datatype url_host = HostV4 bytes | HostV6 bytes | HostDomain string

record url =
  url_host :: "url_host option"
  url_port :: "u16 option"
  url_username :: string

datatype node_record_parse_error = InvalidUrl | InvalidId

definition node_record_from_str :: "(string \<Rightarrow> url option) \<Rightarrow> (string \<Rightarrow> node_id option) \<Rightarrow> string
    \<Rightarrow> (node_record_parse_error, node_record) outcome" where
  "node_record_from_str parse_url parse_id s =
     bind_outcome (of_option InvalidUrl (parse_url s)) (\<lambda>url.
     bind_outcome (case url_host url of
         Some (HostV4 ip) \<Rightarrow> Ok (ip_addr.V4 ip)
       | Some (HostV6 ip) \<Rightarrow> Ok (ip_addr.V6 ip)
       | Some (HostDomain ip) \<Rightarrow> of_option InvalidUrl (parse_ipv4 ip)
       | None \<Rightarrow> Err InvalidUrl) (\<lambda>address.
     bind_outcome (of_option InvalidUrl (url_port url)) (\<lambda>port.
     bind_outcome (of_option InvalidId (parse_id (url_username url))) (\<lambda>i.
     Ok \<lparr>nr_address = address, nr_tcp_port = port, nr_udp_port = port, nr_id = i\<rparr>))))"

section \<open>Reserved peers\<close>

text \<open>
  \<open>Bootnodes::poll_next\<close> on the entries of the map in the order of its iteration. It takes the first
  entry of a new iteration and leaves the map as it is.
\<close>

type_synonym bootnodes = "(sock_addr \<times> peer_id) list"

definition bootnodes_poll :: "bootnodes \<Rightarrow> rlpx_record option \<times> bootnodes" where
  "bootnodes_poll m =
     (case m of
        (addr, i) # _ \<Rightarrow> (Some \<lparr>rx_id = i, rx_addr = addr\<rparr>, m)
      | [] \<Rightarrow> (None, m))"

text \<open>What the dialer does with it, between the dials that end: \<open>None\<close> is the end of a dial.\<close>

fun reserved_dialing :: "(nat \<times> peer_id option) list \<Rightarrow> bootnodes \<times> 's swarm \<Rightarrow> bootnodes \<times> 's swarm" where
  "reserved_dialing [] x = x"
| "reserved_dialing ((cid, Some done) # es) (m, sw) = reserved_dialing es (m, dialer_done done sw)"
| "reserved_dialing ((cid, None) # es) (m, sw) =
     (case bootnodes_poll m of
        (Some r, m') \<Rightarrow> reserved_dialing es (m', dialer_add cid (rx_id r) sw)
      | (None, m') \<Rightarrow> (m', sw))"

section \<open>The pump of DNS discovery\<close>

datatype 'enr dns_poll = Polled "'enr item" | QueryDone | PollTimeout

datatype pump_end = Waiting | Restart | Closed

text \<open>
  The inner loop, over what the polls of one query return: whether a send succeeds, and whether the time
  for the query is over.
\<close>

fun dns_pump_query :: "('enr \<Rightarrow> sock_addr option) \<Rightarrow> ('enr \<Rightarrow> peer_id) \<Rightarrow> ('enr dns_poll \<times> bool \<times> bool) list
    \<Rightarrow> (dns_error + rlpx_record) list \<times> pump_end" where
  "dns_pump_query tcp_socket id_of [] = ([], Waiting)"
| "dns_pump_query tcp_socket id_of ((Polled (Inl e), sent, late) # ps) =
     (if sent then ([Inl e], Restart) else ([], Closed))"
| "dns_pump_query tcp_socket id_of ((Polled (Inr v), sent, late) # ps) =
     (case tcp_socket v of
        Some addr \<Rightarrow>
          if \<not> sent then ([], Closed)
          else if late then ([Inr \<lparr>rx_id = id_of v, rx_addr = addr\<rparr>], Restart)
          else apfst ((#) (Inr \<lparr>rx_id = id_of v, rx_addr = addr\<rparr>)) (dns_pump_query tcp_socket id_of ps)
      | None \<Rightarrow> if late then ([], Restart) else dns_pump_query tcp_socket id_of ps)"
| "dns_pump_query tcp_socket id_of ((QueryDone, sent, late) # ps) = ([], Restart)"
| "dns_pump_query tcp_socket id_of ((PollTimeout, sent, late) # ps) =
     (if late then ([], Restart) else dns_pump_query tcp_socket id_of ps)"

definition polled_items :: "('enr dns_poll \<times> bool \<times> bool) list \<Rightarrow> 'enr item list" where
  "polled_items ps = List.map_filter (\<lambda>p. case fst p of Polled i \<Rightarrow> Some i | _ \<Rightarrow> None) ps"

text \<open>The outer loop: a new query after each that is over, of the same domain under the same key.\<close>

inductive dns_pump :: "('pk, 'enr) dns_api \<Rightarrow> 'pk resolver \<Rightarrow> ('enr \<Rightarrow> sock_addr option) \<Rightarrow> ('enr \<Rightarrow> peer_id)
    \<Rightarrow> string \<Rightarrow> 'pk option \<Rightarrow> (dns_error + rlpx_record) list \<Rightarrow> bool"
  for A :: "('pk, 'enr) dns_api" and s :: "'pk resolver" and tcp_socket :: "'enr \<Rightarrow> sock_addr option"
    and id_of :: "'enr \<Rightarrow> peer_id" and domain :: string and pk :: "'pk option" where
  pump_query: "query A s domain pk ended (polled_items ps) \<Longrightarrow>
    QueryDone \<in> fst ` set ps \<longrightarrow> ended \<Longrightarrow>
    dns_pump_query tcp_socket id_of ps = (out, e) \<Longrightarrow>
    dns_pump A s tcp_socket id_of domain pk out"
| pump_again: "query A s domain pk ended (polled_items ps) \<Longrightarrow>
    QueryDone \<in> fst ` set ps \<longrightarrow> ended \<Longrightarrow>
    dns_pump_query tcp_socket id_of ps = (out, Restart) \<Longrightarrow>
    dns_pump A s tcp_socket id_of domain pk rest \<Longrightarrow>
    dns_pump A s tcp_socket id_of domain pk (out @ rest)"

section \<open>The pumps of discv4 and discv5\<close>

text \<open>One of the lookup tasks of \<open>Discv4\<close>: the results of its lookups, one after the other. It sends them all.\<close>

definition discv4_record :: "node_record \<Rightarrow> rlpx_record" where
  "discv4_record r = \<lparr>rx_id = nr_id r, rx_addr = tcp_addr r\<rparr>"

definition discv4_pump :: "node_record list list \<Rightarrow> rlpx_record list" where
  "discv4_pump lookups = concat (map (map discv4_record) lookups)"

datatype combined_key = Secp256k1Key bytes | OtherKey

record discv5_enr =
  d5_ip :: "ip_addr option"
  d5_tcp :: "u16 option"
  d5_key :: combined_key

text \<open>The record the first pump of \<open>Discv5\<close> sends for a node, if it sends one; a key that is none panics.\<close>

definition discv5_record :: "('sk, 'pk, 'c) crypto \<Rightarrow> discv5_enr \<Rightarrow> (unit, rlpx_record option) outcome" where
  "discv5_record C node =
     (case (d5_ip node, d5_tcp node, d5_key node) of
        (Some ip, Some port, Secp256k1Key key) \<Rightarrow>
          bind_outcome (unwrap (cr_parse C key)) (\<lambda>pk. Ok (Some \<lparr>rx_id = pk2id C pk, rx_addr = (ip, port)\<rparr>))
      | _ \<Rightarrow> Ok None)"

text \<open>
  What \<open>find_node\<close> returned, with the sends that succeed. The pump's two channels are the lists of
  errors and of records; the result says whether the pump goes on.
\<close>

fun discv5_send :: "('sk, 'pk, 'c) crypto \<Rightarrow> (discv5_enr \<times> bool) list \<Rightarrow> (unit, rlpx_record list \<times> bool) outcome" where
  "discv5_send C [] = Ok ([], True)"
| "discv5_send C ((node, sent) # ns) =
     bind_outcome (discv5_record C node) (\<lambda>r.
     case r of
       None \<Rightarrow> discv5_send C ns
     | Some rec \<Rightarrow>
         if sent then bind_outcome (discv5_send C ns) (\<lambda>(rs, go). Ok (rec # rs, go)) else Ok ([], False))"

fun discv5_pump :: "('sk, 'pk, 'c) crypto \<Rightarrow> ('e \<times> bool + (discv5_enr \<times> bool) list) list
    \<Rightarrow> (unit, 'e list \<times> rlpx_record list) outcome" where
  "discv5_pump C [] = Ok ([], [])"
| "discv5_pump C (Inl (e, sent) # xs) =
     (if sent then bind_outcome (discv5_pump C xs) (\<lambda>(es, rs). Ok (e # es, rs)) else Ok ([], []))"
| "discv5_pump C (Inr ns # xs) =
     bind_outcome (discv5_send C ns) (\<lambda>(rs, go).
     if go then bind_outcome (discv5_pump C xs) (\<lambda>(es, rs'). Ok (es, rs @ rs')) else Ok ([], rs))"

text \<open>The second pump takes from both channels in any order.\<close>

definition discv5_stream :: "'e list \<Rightarrow> rlpx_record list \<Rightarrow> ('e + rlpx_record) list \<Rightarrow> bool" where
  "discv5_stream es rs out \<longleftrightarrow> out \<in> shuffles (map Inl es) (map Inr rs)"

section \<open>What the pumps forward\<close>

lemma short_record_panics: "length s < 8 \<Longrightarrow> rlpx_record_from_str parse_id parse_addr s = Panic"
  by (simp add: rlpx_record_from_str_def split_at_str_def is_char_boundary_def ENODE_PREFIX_def)

lemma record_text:
  assumes "CHR ''@'' \<notin> set p" "CHR ''@'' \<notin> set q" "parse_id p = Some i" "parse_addr q = Some addr" "of_char (hd (p @ ''@'')) < (128 :: nat)"
  shows "rlpx_record_from_str parse_id parse_addr (ENODE_PREFIX @ p @ ''@'' @ q) = Ok \<lparr>rx_id = i, rx_addr = addr\<rparr>"
proof -
  have "(ENODE_PREFIX @ p @ ''@'' @ q) ! 8 = hd (p @ ''@'')" by (cases p) (simp_all add: ENODE_PREFIX_def)
  then have "split_at_str (length ENODE_PREFIX) (ENODE_PREFIX @ p @ ''@'' @ q) = (Ok (ENODE_PREFIX, p @ ''@'' @ q) :: (record_error, _) outcome)"
    using assms(5) by (simp add: split_at_str_def is_char_boundary_def ENODE_PREFIX_def)
  moreover have "split_char CHR ''@'' (p @ ''@'' @ q) = [p, q]"
    using split_char_sep [OF assms(1), of q] split_char_word [OF assms(2)] by simp
  ultimately show ?thesis using assms(3,4) by (simp add: rlpx_record_from_str_def)
qed

lemma dialer_add_keeps:
  "sw_current_peers (dialer_add cid i sw) \<subseteq> insert i (sw_current_peers sw)"
  "map_of (sw_attempts (dialer_add cid i sw)) c = Some a \<Longrightarrow> at_peer a = i \<or> map_of (sw_attempts sw) c = Some a"
  by (auto simp: dialer_add_def add_peer_inner_def set_attempt_def map_of_update split: if_splits)

lemma reserved_dialing_current:
  "reserved_dialing es ((addr, i) # m, sw) = (m', sw') \<Longrightarrow>
   m' = (addr, i) # m \<and> sw_current_peers sw' \<subseteq> insert i (sw_current_peers sw) \<and>
   (\<forall>c a. map_of (sw_attempts sw') c = Some a \<longrightarrow> at_peer a = i \<or> map_of (sw_attempts sw) c = Some a)"
proof (induction es arbitrary: sw)
  case (Cons e es)
  obtain cid d where e: "e = (cid, d)" by (cases e)
  show ?case
  proof (cases d)
    case None
    have "reserved_dialing es ((addr, i) # m, dialer_add cid i sw) = (m', sw')"
      using Cons.prems e None by (simp add: bootnodes_poll_def)
    note ih = Cons.IH [OF this]
    have "sw_current_peers sw' \<subseteq> insert i (sw_current_peers sw)"
      using ih dialer_add_keeps(1) [of cid i sw] by blast
    then show ?thesis using ih dialer_add_keeps(2) [of cid i sw] by meson
  next
    case (Some p)
    then have "reserved_dialing es ((addr, i) # m, dialer_done p sw) = (m', sw')" using Cons.prems e by simp
    from Cons.IH [OF this] show ?thesis by (auto simp: dialer_done_def)
  qed
qed auto

text \<open>
  Only one reserved peer is ever dialed. The stream of the reserved peers never moves on: whatever
  dials end in between, the only peer it makes the dialer dial is the first of the iteration, and it
  never ends.
\<close>

theorem only_first_reserved:
  assumes "reserved_dialing es ((addr, i) # m, new_swarm max_peers server) = (m', sw)"
  shows "m' = (addr, i) # m \<and> sw_current_peers sw \<subseteq> {i} \<and>
    (\<forall>c a. map_of (sw_attempts sw) c = Some a \<longrightarrow> at_peer a = i)"
  using reserved_dialing_current [OF assms] by (auto simp: new_swarm_def)

lemma polled_items_simps [simp]:
  "polled_items [] = []" "polled_items ((Polled i, b) # ps) = i # polled_items ps"
  "polled_items ((QueryDone, b) # ps) = polled_items ps" "polled_items ((PollTimeout, b) # ps) = polled_items ps"
  by (simp_all add: polled_items_def map_filter_def)

lemma pump_query_sound:
  "dns_pump_query tcp_socket id_of ps = (out, e) \<Longrightarrow> Inr r \<in> set out \<Longrightarrow>
   \<exists>v. Inr v \<in> set (polled_items ps) \<and> tcp_socket v = Some (rx_addr r) \<and> rx_id r = id_of v"
proof (induction tcp_socket id_of ps arbitrary: out rule: dns_pump_query.induct)
  case (3 tcp_socket id_of v sent late ps)
  show ?case
  proof (cases "tcp_socket v")
    case None
    then show ?thesis using 3 by (auto split: if_splits)
  next
    case (Some addr)
    obtain out' e' where rest: "dns_pump_query tcp_socket id_of ps = (out', e')"
      by (cases "dns_pump_query tcp_socket id_of ps")
    show ?thesis
    proof (cases "r = \<lparr>rx_id = id_of v, rx_addr = addr\<rparr>")
      case True
      then show ?thesis using Some by (intro exI [of _ v]) simp
    next
      case False
      then have "Inr r \<in> set out'" "sent" "\<not> late" "e' = e" using 3(3,4) Some rest by (auto split: if_splits)
      then obtain w where "Inr w \<in> set (polled_items ps)" "tcp_socket w = Some (rx_addr r)" "rx_id r = id_of w"
        using 3(2) [OF Some] rest by auto
      then show ?thesis by (intro exI [of _ w]) simp
    qed
  qed
qed (auto split: if_splits)

lemma query_vouched:
  "query A s host pk ended items \<Longrightarrow> Inr r \<in> set items \<Longrightarrow>
   vouched A (rs_backend s) (rs_remote_whitelist s) host pk (rs_seen_sequence s) r"
  unfolding query_def by (drule runs_sound(3)) blast

text \<open>
  C38. What DNS discovery gives the dialer is vouched for. Every record the pump forwards, over all the
  queries it makes, is that of a node record its tree vouches for: it has the id of its key and the
  address it names.
\<close>

theorem dns_pump_vouched:
  assumes "dns_pump A s tcp_socket id_of domain pk out" "Inr r \<in> set out"
  shows "\<exists>v. vouched A (rs_backend s) (rs_remote_whitelist s) domain pk (rs_seen_sequence s) v \<and>
    tcp_socket v = Some (rx_addr r) \<and> rx_id r = id_of v"
  using assms
proof (induction rule: dns_pump.induct)
  case (pump_query ended ps out e)
  obtain v where "Inr v \<in> set (polled_items ps)" "tcp_socket v = Some (rx_addr r)" "rx_id r = id_of v"
    using pump_query_sound [OF pump_query(3,4)] by blast
  then show ?case using query_vouched [OF pump_query(1)] by blast
next
  case (pump_again ended ps out rest)
  show ?case
  proof (cases "Inr r \<in> set rest")
    case True
    then show ?thesis by (rule pump_again.IH)
  next
    case False
    then have "Inr r \<in> set out" using pump_again.prems by simp
    then obtain v where "Inr v \<in> set (polled_items ps)" "tcp_socket v = Some (rx_addr r)" "rx_id r = id_of v"
      using pump_query_sound [OF pump_again(3)] by blast
    then show ?thesis using query_vouched [OF pump_again(1)] by blast
  qed
qed

text \<open>
  C39. DNS discovery is not authenticated. The signature covers the root only, nothing below it is
  compared with its hash, and without a public key, as the sentry queries, any root is trusted: whoever
  answers for the domain can make the pump forward any record whatever.
\<close>

theorem forged_record_forwarded:
  assumes "encoding_ok A" "trusted_root A B domain pk None rt" "link_root (rr_base rt) \<noteq> enr_root (rr_base rt)"
    and "B (fqdn (link_root (rr_base rt)) domain) = Inr None" "tcp_socket v = Some addr"
  shows "dns_pump A (new_resolver (B(fqdn (enr_root (rr_base rt)) domain := Inr (Some (enr_to_base64 A v)))))
      tcp_socket id_of domain pk [Inr \<lparr>rx_id = id_of v, rx_addr = addr\<rparr>] \<and>
    (trusted_root A B domain None None rt' \<longleftrightarrow> record_at A B domain = Some (Root rt'))"
proof -
  let ?B = "B(fqdn (enr_root (rr_base rt)) domain := Inr (Some (enr_to_base64 A v)))"
  let ?ps = "[(Polled (Inr v), True, False)]"
  have "tree_run A ?B domain pk None None True [Inr v]" by (rule hashes_not_checked [OF assms(1-4)])
  then have "query A (new_resolver ?B) domain pk True (polled_items ?ps)" by (simp add: query_def new_resolver_def)
  moreover have "dns_pump_query tcp_socket id_of ?ps = ([Inr \<lparr>rx_id = id_of v, rx_addr = addr\<rparr>], Waiting)"
    using assms(5) by simp
  ultimately have "dns_pump A (new_resolver ?B) tcp_socket id_of domain pk [Inr \<lparr>rx_id = id_of v, rx_addr = addr\<rparr>]"
    by (intro dns_pump.pump_query [where ps = ?ps and e = Waiting and ended = True]) simp_all
  then show ?thesis by (simp add: trusted_root_def)
qed

section \<open>Closed instances\<close>

theorem only_first_reserved_witness:
  "\<exists>m sw. reserved_dialing [(0, None), (1, None), (0, Some [1]), (2, None)]
      ([(demo_addr, [1]), (demo_addr, [2])], new_swarm 10 ()) = (m, sw) \<and> sw_current_peers sw = {[1]} \<and>
    (\<forall>a. map_of (sw_attempts sw) 2 \<noteq> Some a \<or> at_peer a = [1])"
proof -
  obtain m sw where r: "reserved_dialing [(0, None), (1, None), (0, Some [1]), (2, None)]
      ([(demo_addr, [1]), (demo_addr, [2])], new_swarm 10 ()) = (m, sw)" by fastforce
  then have "sw_current_peers sw = {[1]}"
    by (auto simp: bootnodes_poll_def new_swarm_def dialer_add_def dialer_done_def add_peer_inner_def set_attempt_def)
  then show ?thesis using r only_first_reserved [OF r] by blast
qed

definition demo_socket :: "string \<Rightarrow> sock_addr option" where "demo_socket r = Some demo_addr"

lemma demo_pump:
  "dns_pump demo_dns demo_resolver demo_socket (\<lambda>v. [7]) ''n'' (Some [1]) [Inr \<lparr>rx_id = [7], rx_addr = demo_addr\<rparr>]"
proof -
  have "query demo_dns demo_resolver ''n'' (Some [1]) True (polled_items [(Polled (Inr ''x''), True, False)])"
    using demo_run by simp
  then show ?thesis by (rule dns_pump.pump_query) (simp_all add: demo_socket_def)
qed

theorem dns_pump_vouched_witness:
  "\<exists>v. vouched demo_dns (rs_backend demo_resolver) None ''n'' (Some [1]) None v \<and> demo_socket v = Some demo_addr"
proof -
  have "Inr \<lparr>rx_id = [7], rx_addr = demo_addr\<rparr> \<in> set [Inr \<lparr>rx_id = [7], rx_addr = demo_addr\<rparr> :: dns_error + rlpx_record]"
    by simp
  from dns_pump_vouched [OF demo_pump this] show ?thesis by (auto simp: demo_resolver_def new_resolver_def)
qed

theorem forged_record_forwarded_witness:
  "dns_pump demo_dns (new_resolver (demo_backend(''AB.n'' := Inr (Some ''enr:y'')))) demo_socket (\<lambda>v. [7]) ''n'' None
     [Inr \<lparr>rx_id = [7], rx_addr = demo_addr\<rparr>]"
proof -
  have "trusted_root demo_dns demo_backend ''n'' None None
      \<lparr>rr_base = \<lparr>enr_root = ''AB'', link_root = ''CD'', sequence = 12\<rparr>, rr_signature = [1]\<rparr>"
    by (simp add: trusted_root_def demo_record_at)
  from forged_record_forwarded [OF demo_dns_ok this, of demo_socket "''y''" demo_addr "\<lambda>v. [7]"] show ?thesis
    by (simp add: fqdn_def demo_lookups demo_socket_def) (simp add: demo_dns_def ENR_PREFIX_def)
qed

end
