(* ===== verification/Provider.thy ===== *)
theory Provider
  imports Cap_Server
begin

text \<open>
  The services behind the capability server: the data providers of \<^verbatim>\<open>services/provider/\<close> and the control
  services of \<^verbatim>\<open>services/control/\<close>. The clients of the remote interfaces are parameters: every call
  returns an error of the transport, or the error or the value the service answers with. The fields of a
  header, the encodings of headers and bodies, and the parsers of numbers and hashes are parameters too.
\<close>

section \<open>Remote calls\<close>

datatype service_error = NotImplemented | Transport | Message string | NoTotalDifficulty | NotFound | NoForkData | BadValue

type_synonym 'a rpc = "unit + (string + 'a)"

text \<open>\<open>call.await?.map_err(anyhow::Error::msg)?\<close>.\<close>

fun rpc_result :: "'a rpc \<Rightarrow> (service_error, 'a) outcome" where
  "rpc_result (Inl _) = Err Transport"
| "rpc_result (Inr (Inl msg)) = Err (Message msg)"
| "rpc_result (Inr (Inr a)) = Ok a"

section \<open>The data provider over RPC\<close>

record ('h, 'b) eth_client =
  et_forks :: "forks rpc"
  et_best_block :: "(bytes \<times> u64) rpc"
  et_total_difficulty :: "bytes \<Rightarrow> nat option rpc"
  et_canonical_hash :: "u64 \<Rightarrow> bytes option rpc"
  et_header :: "bytes \<Rightarrow> 'h option rpc"
  et_body :: "bytes \<Rightarrow> 'b option rpc"

definition tarpc_status :: "('h, 'b) eth_client \<Rightarrow> (service_error, status_data) outcome" where
  "tarpc_status c =
     bind_outcome (rpc_result (et_forks c)) (\<lambda>forks.
     bind_outcome (rpc_result (et_best_block c)) (\<lambda>(best_hash, _).
     bind_outcome (rpc_result (et_total_difficulty c best_hash)) (\<lambda>td.
     bind_outcome (of_option NoTotalDifficulty td) (\<lambda>total_difficulty.
     Ok \<lparr>sd_network_id = 1, sd_total_difficulty = total_difficulty, sd_best_hash = best_hash,
         sd_fork_data = \<lparr>fk_genesis = fk_genesis forks, fk_forks = fk_forks forks\<rparr>\<rparr>))))"

text \<open>\<open>number.as_u64()\<close> panics when the number has more than 64 bits.\<close>

definition tarpc_resolve :: "('h \<Rightarrow> nat) \<Rightarrow> ('h, 'b) eth_client \<Rightarrow> bytes \<Rightarrow> (service_error, u64 option) outcome" where
  "tarpc_resolve number c hash =
     bind_outcome (rpc_result (et_header c hash)) (\<lambda>header.
     case header of
       None \<Rightarrow> Ok None
     | Some h \<Rightarrow> if number h < 2 ^ 64 then Ok (Some (word_of_nat (number h))) else Panic)"

definition tarpc_header :: "('h, 'b) eth_client \<Rightarrow> block_id \<Rightarrow> (service_error, 'h) outcome" where
  "tarpc_header c i =
     bind_outcome (case i of BHash hash \<Rightarrow> Ok (Some hash) | BNumber number \<Rightarrow> rpc_result (et_canonical_hash c number)) (\<lambda>h.
     case h of
       None \<Rightarrow> Err NotFound
     | Some hash \<Rightarrow> bind_outcome (rpc_result (et_header c hash)) (of_option NotFound))"

definition tarpc_headers :: "('h, 'b) eth_client \<Rightarrow> block_id list \<Rightarrow> (service_error, 'h) outcome list" where
  "tarpc_headers c ids = map (tarpc_header c) ids"

definition tarpc_bodies :: "('h, 'b) eth_client \<Rightarrow> bytes list \<Rightarrow> (service_error, 'b) outcome list" where
  "tarpc_bodies c ids =
     map (\<lambda>hash. bind_outcome (rpc_result (et_body c hash)) (of_option NotFound)) ids"

section \<open>The dummy provider and the control services\<close>

definition dummy_status :: "(service_error, status_data) outcome" where "dummy_status = Err NotImplemented"

definition dummy_resolve :: "bytes \<Rightarrow> (service_error, u64 option) outcome" where "dummy_resolve hash = Ok None"

definition dummy_headers :: "block_id list \<Rightarrow> (service_error, 'h) outcome list" where "dummy_headers ids = []"

definition dummy_bodies :: "bytes list \<Rightarrow> (service_error, 'b) outcome list" where "dummy_bodies ids = []"

definition dummy_forward :: "inbound_message \<Rightarrow> (service_error, unit) outcome" where "dummy_forward m = Ok ()"

definition dummy_control_status :: "(service_error, status_data) outcome" where
  "dummy_control_status = Err NotImplemented"

record grpc_forks =
  gf_genesis :: bytes
  gf_forks :: "u64 list"

record grpc_status =
  gs_network_id :: u64
  gs_total_difficulty :: bytes
  gs_best_hash :: bytes
  gs_fork_data :: "grpc_forks option"

definition grpc_forward :: "(inbound_message \<Rightarrow> bool) \<Rightarrow> inbound_message \<Rightarrow> (service_error, unit) outcome" where
  "grpc_forward call m = (if call m then Ok () else Err Transport)"

text \<open>\<open>hex::encode(..).parse()\<close>: the number and the hash that are written with these bytes.\<close>

definition grpc_control_status :: "(bytes \<Rightarrow> nat option) \<Rightarrow> (bytes \<Rightarrow> bytes option) \<Rightarrow> grpc_status option
    \<Rightarrow> (service_error, status_data) outcome" where
  "grpc_control_status parse_u256 parse_h256 answer =
     bind_outcome (of_option Transport answer) (\<lambda>st.
     bind_outcome (of_option NoForkData (gs_fork_data st)) (\<lambda>fork_data.
     bind_outcome (of_option BadValue (parse_u256 (gs_total_difficulty st))) (\<lambda>total_difficulty.
     bind_outcome (of_option BadValue (parse_h256 (gs_best_hash st))) (\<lambda>best_hash.
     bind_outcome (of_option BadValue (parse_h256 (gf_genesis fork_data))) (\<lambda>genesis.
     Ok \<lparr>sd_network_id = gs_network_id st, sd_total_difficulty = total_difficulty, sd_best_hash = best_hash,
         sd_fork_data = \<lparr>fk_genesis = genesis, fk_forks = gf_forks fork_data\<rparr>\<rparr>)))))"

section \<open>The server with a provider\<close>

text \<open>What the capability server sees of a result: whether there is a value.\<close>

fun forget_error :: "('e, 'a) outcome \<Rightarrow> (unit, 'a) outcome" where
  "forget_error (Ok a) = Ok a"
| "forget_error (Err e) = Err ()"
| "forget_error Panic = Panic"

fun value_of :: "('e, 'a) outcome \<Rightarrow> 'a option" where
  "value_of (Ok a) = Some a"
| "value_of _ = None"

definition tarpc_env :: "build \<Rightarrow> rlp_api \<Rightarrow> ('ff, 'fid) fork_api \<Rightarrow> ('h \<Rightarrow> nat) \<Rightarrow> ('h \<Rightarrow> rlp) \<Rightarrow> ('b \<Rightarrow> rlp) \<Rightarrow> ('h, 'b) eth_client
    \<Rightarrow> ('ff, 'fid) cap_env" where
  "tarpc_env bd R F number header_rlp body_rlp c =
     \<lparr>env_build = bd, env_rlp = R, env_fork = F, env_resolve = forget_error \<circ> tarpc_resolve number c,
      env_headers = (\<lambda>ids. map (map_option header_rlp \<circ> value_of) (tarpc_headers c ids)),
      env_bodies = (\<lambda>ids. map (map_option body_rlp \<circ> value_of) (tarpc_bodies c ids))\<rparr>"

definition dummy_env :: "build \<Rightarrow> rlp_api \<Rightarrow> ('ff, 'fid) fork_api \<Rightarrow> ('ff, 'fid) cap_env" where
  "dummy_env bd R F =
     \<lparr>env_build = bd, env_rlp = R, env_fork = F, env_resolve = forget_error \<circ> dummy_resolve,
      env_headers = (\<lambda>ids. map value_of (dummy_headers ids)), env_bodies = (\<lambda>ids. map value_of (dummy_bodies ids))\<rparr>"

text \<open>A service that knows a chain: the headers of its blocks by number, and each by its hash.\<close>

definition serves_chain :: "('h, 'b) eth_client \<Rightarrow> ('h \<Rightarrow> bytes) \<Rightarrow> (u64 \<Rightarrow> 'h option) \<Rightarrow> bool" where
  "serves_chain c hash chain \<longleftrightarrow>
     (\<forall>n. et_canonical_hash c n = Inr (Inr (map_option hash (chain n)))) \<and>
     (\<forall>n h. chain n = Some h \<longrightarrow> et_header c (hash h) = Inr (Inr (Some h)))"

lemma tarpc_header_number: "serves_chain c hash chain \<Longrightarrow> value_of (tarpc_header c (BNumber n)) = chain n"
  by (cases "chain n") (simp_all add: serves_chain_def tarpc_header_def of_option_def)

text \<open>The block a request starts from: its number, or the number of the header with its hash.\<close>

definition anchor_of :: "('h \<Rightarrow> nat) \<Rightarrow> ('h, 'b) eth_client \<Rightarrow> block_id \<Rightarrow> u64 \<Rightarrow> bool" where
  "anchor_of number c b n \<longleftrightarrow>
     b = BNumber n \<or> (\<exists>h hd. b = BHash h \<and> et_header c h = Inr (Inr (Some hd)) \<and> number hd < 2 ^ 64 \<and> n = word_of_nat (number hd))"

text \<open>
  What the capability server relies on: the results for the numbers of blocks, up to the first error, are
  the headers of a chain, and a block that is an anchor resolves to its number. \<open>ok\<close> is the hypothesis
  on the service behind the provider.
\<close>

locale chain_provider =
  fixes ok :: bool
    and headers :: "block_id list \<Rightarrow> rlp option list"
    and resolve :: "bytes \<Rightarrow> (unit, u64 option) outcome"
    and chain :: "u64 \<Rightarrow> rlp option"
    and anchor :: "block_id \<Rightarrow> u64 \<Rightarrow> bool"
  assumes headers_chain: "ok \<Longrightarrow> until_error (headers (map BNumber ns)) = until_error (map chain ns)"
    and anchor_number: "ok \<Longrightarrow> anchor (BNumber m) n \<Longrightarrow> m = n"
    and anchor_hash: "ok \<Longrightarrow> anchor (BHash h) n \<Longrightarrow> resolve h = Ok (Some n)"
begin

lemma numbers_of_anchor:
  assumes "ok" "env_resolve env = resolve" "anchor (gb_block q) n"
  shows "query_anchor env q = Ok (Some n)"
proof (cases "gb_block q")
  case (BHash h)
  then show ?thesis using anchor_hash [OF assms(1), of h n] assms(2,3) by (simp add: query_anchor_def)
next
  case (BNumber m)
  then show ?thesis using anchor_number [OF assms(1), of m n] assms(3) by (simp add: query_anchor_def)
qed

lemma answered_from_chain:
  assumes "ok" "env_headers env = headers" "env_resolve env = resolve"
    and "get_block_headers_decode (env_rlp env) data = Some q" "anchor (gb_block q) n"
    and "query_fits (env_build env) q" "header_numbers (bd_checked (env_build env)) n q = (Ok ns :: (disconnect_reason, u64 list) outcome)"
  shows "answer_headers env data =
    Ok \<lparr>msg_id = mid_to_usize BlockHeaders, msg_data = rl_out (env_rlp env) (RList (until_error (map chain ns)))\<rparr>"
  using assms(2,4,6,7) numbers_of_anchor [OF assms(1,3,5)] headers_chain [OF assms(1)] header_numbers_OkD(2) [OF assms(7)]
  by (simp add: answer_headers_def of_option_def requested_numbers_def query_fits_def)

end

interpretation tarpc: chain_provider "serves_chain c hash chain" "env_headers (tarpc_env bd R F number header_rlp body_rlp c)"
  "env_resolve (tarpc_env bd R F number header_rlp body_rlp c)" "map_option header_rlp \<circ> chain" "anchor_of number c"
  for c :: "('h, 'b) eth_client" and hash chain R and F :: "('ff, 'fid) fork_api" and number header_rlp body_rlp bd
proof
  show "until_error (env_headers (tarpc_env bd R F number header_rlp body_rlp c) (map BNumber ns)) =
      until_error (map (map_option header_rlp \<circ> chain) ns)" if "serves_chain c hash chain" for ns
    by (simp add: tarpc_env_def tarpc_headers_def comp_def tarpc_header_number [OF that])
qed (auto simp: anchor_of_def tarpc_env_def tarpc_resolve_def)

text \<open>The dummy provider serves the chain without blocks, and no hash is an anchor.\<close>

interpretation dummy: chain_provider True "env_headers (dummy_env bd R F)" "env_resolve (dummy_env bd R F)" "\<lambda>n. None"
  "\<lambda>b n. b = BNumber n" for bd R and F :: "('ff, 'fid) fork_api"
proof
  show "until_error (env_headers (dummy_env bd R F) (map BNumber ns)) = until_error (map (\<lambda>n. None) ns)" for ns
    by (cases ns) (simp_all add: dummy_env_def dummy_headers_def)
qed simp_all

lemma until_error_map: "until_error (map (map_option f \<circ> g) xs) = map f (until_error (map g xs))"
proof (induction xs)
  case (Cons x xs)
  then show ?case by (cases "g x") simp_all
qed simp

text \<open>
  Requests for headers are answered from the chain. With a data service that serves a chain, the
  answer to a request that starts from a known block is the headers of the requested numbers, in the
  order of the request, up to the first that the chain does not have; the request must be one whose
  numbers the server can collect.
\<close>

theorem headers_from_chain:
  assumes "serves_chain c hash chain" "get_block_headers_decode R data = Some q" "anchor_of number c (gb_block q) n"
    and "query_fits bd q" "header_numbers (bd_checked bd) n q = (Ok ns :: (disconnect_reason, u64 list) outcome)"
  shows "answer_headers (tarpc_env bd R F number header_rlp body_rlp c) data =
    Ok \<lparr>msg_id = mid_to_usize BlockHeaders,
       msg_data = rl_out R (RList (map header_rlp (until_error (map chain ns))))\<rparr>"
proof -
  have env: "env_build (tarpc_env bd R F number header_rlp body_rlp c) = bd" "env_rlp (tarpc_env bd R F number header_rlp body_rlp c) = R"
    by (simp_all add: tarpc_env_def)
  note a = tarpc.answered_from_chain [OF assms(1) refl refl _ assms(3), of bd R F header_rlp body_rlp data, unfolded env, OF assms(2,4,5)]
  show ?thesis using a by (simp add: until_error_map)
qed

lemma no_status_no_valid:
  assumes "cs_status s = None"
  shows "valid_peers (snd (handle_event env q e s)) \<subseteq> valid_peers s"
proof (cases e)
  case (InDisconnect r)
  then show ?thesis by (auto simp: handle_event_def teardown_peer_def)
next
  case (InMessage c m)
  have "valid_peers (snd (handle_status env q d s)) = valid_peers s" for d
    using assms by (cases "status_decode (env_rlp env) (env_fork env) d") (simp_all add: handle_status_def of_option_def)
  then show ?thesis using InMessage by (auto simp: handle_event_def Let_def split: option.splits)
qed

text \<open>
  C40. With the dummy data provider the sentry has no peers. Whatever status the control service has, it
  is dropped because its best block is not resolved; the first thing a new peer is told is to
  disconnect, and no peer is ever found valid.
\<close>

theorem dummy_provider_refuses:
  assumes "control_status \<noteq> Panic" "s1 = update_status (dummy_env bd R F) control_status (forget_error dummy_status) s"
    and "p \<notin> all_peers s1" "on_peer_connect (dummy_env bd R F) p caps s1 = (r, s2)"
  shows "cs_status s1 = None \<and> r = Ok () \<and> fst (next_event p s2) = Ok (Some (OutDisconnect DisconnectRequested)) \<and>
    (\<forall>q e. valid_peers (snd (handle_event (dummy_env bd R F) q e s2)) \<subseteq> valid_peers s1)"
proof -
  let ?env = "dummy_env bd R F :: ('a, 'b) cap_env"
  have "env_resolve ?env h = Ok None" for h by (simp add: dummy_env_def dummy_resolve_def)
  then have none: "cs_status s1 = None"
    using assms(1) unfolding assms(2) update_status_def fetch_status_def
    by (cases control_status) (simp_all add: dummy_status_def of_option_def)
  have "get_pipes p s1 = None" using assms(3) by (simp add: all_peers_def get_pipes_def map_of_eq_None_iff)
  then have r: "r = Ok ()" "get_pipes p s2 = Some \<lparr>pp_first = [OutDisconnect DisconnectRequested], pp_queue = []\<rparr>"
    "cs_status s2 = None" "valid_peers s2 = valid_peers s1"
    using assms(4) none by (auto simp: on_peer_connect_def first_events_def setup_peer_def get_pipes_def update_conv')
  have "valid_peers (snd (handle_event ?env q e s2)) \<subseteq> valid_peers s1" for q e
    using no_status_no_valid [OF r(3)] r(4) by blast
  moreover have "fst (next_event p s2) = Ok (Some (OutDisconnect DisconnectRequested))"
    using r(2) by (simp add: next_event_def)
  ultimately show ?thesis using none r(1) by blast
qed

section \<open>Closed instances\<close>

text \<open>A chain of three blocks, whose headers are their numbers.\<close>

definition demo_chain :: "u64 \<Rightarrow> nat option" where "demo_chain n = (if n < 3 then Some (unat n) else None)"

definition demo_client :: "(nat, unit) eth_client" where
  "demo_client = \<lparr>et_forks = Inl (), et_best_block = Inl (), et_total_difficulty = (\<lambda>h. Inl ()),
     et_canonical_hash = (\<lambda>n. Inr (Inr (map_option (\<lambda>h. [word_of_nat h]) (demo_chain n)))),
     et_header = (\<lambda>h. Inr (Inr (Some (unat (hd h))))), et_body = (\<lambda>h. Inl ())\<rparr>"

lemma demo_client_serves: "serves_chain demo_client (\<lambda>h. [word_of_nat h]) demo_chain"
proof -
  have "unat (word_of_nat h :: byte) = h" if "demo_chain n = Some h" for n h
  proof -
    have "h < 3" using that by (auto simp: demo_chain_def word_less_nat_alt split: if_splits)
    then show ?thesis by (simp add: unat_of_nat take_bit_eq_mod)
  qed
  then show ?thesis by (simp add: serves_chain_def demo_client_def)
qed

definition demo_number_request :: get_block_headers where
  "demo_number_request = \<lparr>gb_block = BNumber 1, gb_max_headers = 5, gb_skip = 0, gb_reverse = False\<rparr>"

lemma demo_numbers:
  "query_fits demo_build demo_number_request"
  "header_numbers (bd_checked demo_build) 1 demo_number_request = Ok [1, 2, 3, 4, 5]"
  "until_error (map demo_chain [1, 2, 3, 4, 5]) = [1, 2]"
  by (simp_all add: query_fits_def vec_fits_def demo_number_request_def demo_build_def header_numbers_eq number_list_def
      BLOCK_ID_SIZE_def demo_chain_def upt_rec)

theorem headers_from_chain_witness:
  "answer_headers (tarpc_env demo_build demo_rlp demo_fork id RUint (\<lambda>b. RList []) demo_client)
      (rl_out demo_rlp (get_block_headers_rlp demo_number_request)) =
    Ok \<lparr>msg_id = mid_to_usize BlockHeaders, msg_data = rl_out demo_rlp (RList [RUint 1, RUint 2])\<rparr>"
proof -
  have dec: "get_block_headers_decode demo_rlp (rl_out demo_rlp (get_block_headers_rlp demo_number_request)) = Some demo_number_request"
    by (rule headers_codec.dec_enc_whole) (simp_all add: demo_rlp_ok demo_number_request_def)
  have anchor: "anchor_of id demo_client (gb_block demo_number_request) 1"
    by (simp add: anchor_of_def demo_number_request_def)
  show ?thesis
    using headers_from_chain [OF demo_client_serves dec anchor demo_numbers(1,2), of demo_fork RUint "\<lambda>b. RList []"]
    unfolding demo_numbers(3) by simp
qed

theorem dummy_provider_refuses_witness:
  "\<exists>s2. on_peer_connect (dummy_env demo_build demo_rlp demo_fork) [1] [(capability_name, 65)]
       (update_status (dummy_env demo_build demo_rlp demo_fork) (Ok demo_status) (forget_error dummy_status) demo_server) = (Ok (), s2) \<and>
     fst (next_event [1] s2) = Ok (Some (OutDisconnect DisconnectRequested))"
proof -
  let ?s = "update_status (dummy_env demo_build demo_rlp demo_fork) (Ok demo_status) (forget_error dummy_status) demo_server"
  obtain r s2 where c: "on_peer_connect (dummy_env demo_build demo_rlp demo_fork) [1] [(capability_name, 65)] ?s = (r, s2)" by fastforce
  have "[1] \<notin> all_peers ?s" using demo_server_inv(2) by (simp add: update_status_def all_peers_def)
  from dummy_provider_refuses [OF _ refl this c] c show ?thesis by auto
qed

end
