(* ===== verification/Discv4_Exchange.thy ===== *)
theory Discv4_Exchange
  imports Discv4_Lookup
begin

text \<open>
  Two nodes of the discovery protocol (\<^verbatim>\<open>discv4/src/node.rs\<close>) that talk to each other: a request that
  one of them puts into its egress router, its datagram at the ingress router of the other, and the reply
  back; then the whole query of a node, as \<open>lookup_inner\<close> makes it.
\<close>

section \<open>A request and its reply\<close>

record 'sk disc_party =
  dp_key :: 'sk
  dp_id :: node_id
  dp_addr :: sock_addr

text \<open>
  A request of the first node arrives at the second one: the reaction of the second, and both states.
  A datagram comes from the address of its sender.
\<close>

definition transmit :: "('sk, 'pk, 'c) crypto \<Rightarrow> rlp_api \<Rightarrow> 'sk disc_party \<Rightarrow> 'sk disc_party
    \<Rightarrow> sock_addr \<times> node_id \<times> 'cb egress_message \<Rightarrow> 'cb disc_node \<Rightarrow> 'cb disc_node
    \<Rightarrow> (ingress_error, 'cb effect list) outcome \<times> 'cb disc_node \<times> 'cb disc_node" where
  "transmit C R x y request a b =
     (case egress_route C R (dp_key x) (dp_id x) True request a of
        ([Datagram _ datagram], a') \<Rightarrow>
          (let (r, b') = ingress_route C R (dp_id y) (dp_addr x) datagram b in (r, a', b'))
      | (_, a') \<Rightarrow> (Ok [], a', b))"

text \<open>
  The reply to a request, transmitted back: what the second node does besides replying, the reaction of
  the first to the reply, and both states.
\<close>

definition exchange :: "('sk, 'pk, 'c) crypto \<Rightarrow> rlp_api \<Rightarrow> 'sk disc_party \<Rightarrow> 'sk disc_party
    \<Rightarrow> sock_addr \<times> node_id \<times> 'cb egress_message \<Rightarrow> 'cb disc_node \<Rightarrow> 'cb disc_node
    \<Rightarrow> 'cb effect list \<times> (ingress_error, 'cb effect list) outcome \<times> 'cb disc_node \<times> 'cb disc_node" where
  "exchange C R x y request a b =
     (case transmit C R x y request a b of
        (Ok (Request addr peer reply # effs), a, b) \<Rightarrow>
          (let (r, b, a) = transmit C R y x (addr, peer, reply) b a in (effs, r, a, b))
      | (Ok effs, a, b) \<Rightarrow> (effs, Ok [], a, b)
      | (_, a, b) \<Rightarrow> ([], Ok [], a, b))"

text \<open>Two nodes with their own ids and IPv4 addresses.\<close>

definition strangers :: "('sk, 'pk, 'c) crypto \<Rightarrow> 'sk disc_party \<Rightarrow> 'sk disc_party \<Rightarrow> bool" where
  "strangers C x y \<longleftrightarrow>
     dp_id x = pk2id C (cr_public C (dp_key x)) \<and> dp_id y = pk2id C (cr_public C (dp_key y)) \<and> dp_id x \<noteq> dp_id y \<and>
     \<not> is_ipv6 (fst (dp_addr x)) \<and> \<not> is_ipv6 (fst (dp_addr y))"

lemma strangers_sym: "strangers C x y \<Longrightarrow> strangers C y x"
  by (auto simp: strangers_def)

lemma transmit_understood:
  assumes "crypto_ok C" "rlp_ok R" "strangers C x y" "egress_ok m"
    and "length (egress_payload R m) \<le> MAX_PACKET_SIZE - 97"
    and "egress_route C R (dp_key x) (dp_id x) True (addr, dp_id y, m) a =
      ([Datagram addr (snd (seal C (dp_key x) (egress_payload R m)))], a')"
  shows "transmit C R x y (addr, dp_id y, m) a b =
    (let (r, b') = reaction_to (cr_keccak C) (dp_addr x) (dp_id x) (fst (seal C (dp_key x) (egress_payload R m))) m b in (r, a', b'))"
proof -
  have "dp_id x = pk2id C (cr_public C (dp_key x))" "\<not> is_ipv6 (fst (dp_addr x))" "pk2id C (cr_public C (dp_key x)) \<noteq> dp_id y"
    using assms(3) by (auto simp: strangers_def)
  then show ?thesis
    using datagram_understood [OF assms(1,2,4) _ _ assms(5), of "dp_addr x" "dp_key x" "dp_id y" b] assms(6)
    by (simp add: transmit_def)
qed

text \<open>Everything but a ping leaves the sender as it is.\<close>

lemma egress_plain:
  assumes "strangers C x y" "\<forall>p cb. m \<noteq> EPing p cb"
  shows "egress_route C R (dp_key x) (dp_id x) True (addr, dp_id y, m) a =
    ([Datagram addr (snd (seal C (dp_key x) (egress_payload R m)))], a)"
  using assms by (cases m) (auto simp: egress_route_def strangers_def split: prod.split)

lemma transmit_plain:
  assumes "crypto_ok C" "rlp_ok R" "strangers C x y" "egress_ok m" "\<forall>p cb. m \<noteq> EPing p cb"
    and "length (egress_payload R m) \<le> MAX_PACKET_SIZE - 97"
  shows "transmit C R x y (addr, dp_id y, m) a b =
    (let (r, b') = reaction_to (cr_keccak C) (dp_addr x) (dp_id x) (fst (seal C (dp_key x) (egress_payload R m))) m b in (r, a, b'))"
  by (rule transmit_understood [OF assms(1-4,6) egress_plain [OF assms(3,5)]])

section \<open>Sizes of the short messages\<close>

text \<open>
  A number of 64 bits takes at most nine bytes; the bound is kept loose. Then pings, pongs and requests
  for neighbours fit a datagram. A reply with neighbours need not.
\<close>

definition rlp_short :: "rlp_api \<Rightarrow> bool" where
  "rlp_short R \<longleftrightarrow> (\<forall>n. n < 2 ^ 64 \<longrightarrow> length (rl_out R (RUint n)) \<le> 17)"

abbreviation fits :: "rlp_api \<Rightarrow> 'cb egress_message \<Rightarrow> bool" where
  "fits R m \<equiv> length (egress_payload R m) \<le> MAX_PACKET_SIZE - 97"

lemma word_size:
  assumes "rlp_short R"
  shows "length (rl_out R (RUint (unat (w :: u64)))) \<le> 17" "length (rl_out R (RUint (unat (p :: u16)))) \<le> 17"
proof -
  have "unat w < 2 ^ LENGTH(64)" "unat p < 2 ^ LENGTH(16)" by (rule unsigned_less)+
  then have "unat w < 2 ^ 64" "unat p < 2 ^ 64" by simp_all
  then show "length (rl_out R (RUint (unat w))) \<le> 17" "length (rl_out R (RUint (unat p))) \<le> 17"
    using assms unfolding rlp_short_def by blast+
qed

lemma endpoint_size:
  assumes "rlp_ok R" "rlp_short R" "ip_wf (ep_address e)"
  shows "length (rl_out R (endpoint_rlp e)) \<le> 68"
proof -
  have "length (octets (ep_address e)) \<le> 16" using assms(3) by (cases "ep_address e") simp_all
  then have "length (rl_out R (RData (octets (ep_address e)))) \<le> 25"
    using rlp_okD(9) [OF assms(1), of "octets (ep_address e)"] by simp
  then show ?thesis
    using word_size(2) [OF assms(2), of "ep_udp_port e"] word_size(2) [OF assms(2), of "ep_tcp_port e"]
      rlp_okD(10) [OF assms(1), of "[RData (octets (ep_address e)), RUint (unat (ep_udp_port e)), RUint (unat (ep_tcp_port e))]"]
    by (simp add: endpoint_rlp_def)
qed

lemma short_messages_fit:
  assumes R: "rlp_ok R" "rlp_short R" and m: "egress_ok m" "\<forall>ns. m \<noteq> ENeighbours ns"
  shows "fits R m"
proof (cases m)
  case (EPing p cb)
  then have "ip_wf (ep_address (pi_from p))" "ip_wf (ep_address (pi_to p))" using m(1) by simp_all
  note e = this [THEN endpoint_size [OF R]]
  show ?thesis
    using e word_size(1) [OF R(2), of "pi_expire p"] rlp_okD(8) [OF R(1), of 4]
      rlp_okD(10) [OF R(1), of "[RUint 4, endpoint_rlp (pi_from p), endpoint_rlp (pi_to p), RUint (unat (pi_expire p))]"]
    by (simp add: EPing ping_rlp_def MAX_PACKET_SIZE_def)
next
  case (EPong p)
  then have p: "ip_wf (ep_address (po_to p))" "length (po_echo p) = 32" using m(1) by simp_all
  show ?thesis
    using endpoint_size [OF R p(1)] word_size(1) [OF R(2), of "po_expire p"] rlp_okD(9) [OF R(1), of "po_echo p"] p(2)
      rlp_okD(10) [OF R(1), of "[endpoint_rlp (po_to p), RData (po_echo p), RUint (unat (po_expire p))]"]
    by (simp add: EPong pong_rlp_def MAX_PACKET_SIZE_def)
next
  case (EFindNode p)
  then have p: "length (fn_id p) = 64" using m(1) by simp
  show ?thesis
    using word_size(1) [OF R(2), of "fn_expire p"] rlp_okD(9) [OF R(1), of "fn_id p"] p
      rlp_okD(10) [OF R(1), of "[RData (fn_id p), RUint (unat (fn_expire p))]"]
    by (simp add: EFindNode find_node_rlp_def MAX_PACKET_SIZE_def)
qed (use m(2) in simp)

section \<open>The ping\<close>

lemma delete_update_fresh: "map_of m k = None \<Longrightarrow> AList.delete k (AList.update k v m) = m"
  by (induction m) (auto simp: delete_idem)

text \<open>The endpoint a node takes over from a pong.\<close>

definition told_endpoint :: "endpoint \<Rightarrow> endpoint \<Rightarrow> endpoint" where
  "told_endpoint told own = own\<lparr>ep_address := ep_address told, ep_udp_port := ep_udp_port told\<rparr>"

text \<open>How a node that pings is entered: with the address that it claims, and its udp port for both.\<close>

definition claimed_node :: "node_id \<Rightarrow> endpoint \<Rightarrow> node_record" where
  "claimed_node i e = \<lparr>nr_address = ep_address e, nr_tcp_port = ep_udp_port e, nr_udp_port = ep_udp_port e, nr_id = i\<rparr>"

lemma ping_exchanged:
  assumes ok: "crypto_ok C" "rlp_ok R" "rlp_short R" "strangers C x y"
    and node: "nr_id node = dp_id y" "ip_wf (nr_address node)" "ip_wf (ep_address e)"
    and hash: "hash = fst (seal C (dp_key x) (egress_payload R (EPing \<lparr>pi_from = e, pi_to = endpoint_of node, pi_expire = expire\<rparr> (Some cb))))"
      "map_of (dn_inflight_pings a) hash = None"
  shows "exchange C R x y (query_ping e expire cb node) a b =
    (map (\<lambda>(_, cb). Fire cb) (case map_of (dn_expected_pings b) (dp_addr x) of None \<Rightarrow> [] | Some cbs \<Rightarrow> cbs),
      Ok [Fire cb],
      a\<lparr>dn_timers := (hash, dp_id y) # dn_timers a, dn_endpoint := told_endpoint e (dn_endpoint a)\<rparr>,
      b\<lparr>dn_connected := add_verified (cr_keccak C) (dn_connected b) (claimed_node (dp_id x) e),
        dn_expected_pings := AList.delete (dp_addr x) (dn_expected_pings b)\<rparr>)"
proof -
  let ?m = "EPing \<lparr>pi_from = e, pi_to = endpoint_of node, pi_expire = expire\<rparr> (Some cb)"
  let ?a = "a\<lparr>dn_inflight_pings := AList.update hash [cb] (dn_inflight_pings a), dn_timers := (hash, dp_id y) # dn_timers a\<rparr>"
  let ?p = "\<lparr>po_to = e, po_echo = hash, po_expire = expire\<rparr>"
  have ping: "egress_ok ?m" using node by (simp add: endpoint_of_def)
  have "length hash = 32" unfolding hash(1) by (simp add: seal_def Let_def crypto_okD(8) [OF ok(1)] split: prod.split)
  then have pong: "egress_ok (EPong ?p)" using node(3) by simp
  have out: "egress_route C R (dp_key x) (dp_id x) True (udp_addr node, dp_id y, ?m) a =
      ([Datagram (udp_addr node) (snd (seal C (dp_key x) (egress_payload R ?m)))], ?a)"
    using ok(4) hash by (auto simp: egress_route_def strangers_def split: prod.split)
  note there = transmit_understood [OF ok(1,2,4) ping short_messages_fit [OF ok(2,3) ping] out]
  let ?effs = "map (\<lambda>(_, cb). Fire cb) (case map_of (dn_expected_pings b) (dp_addr x) of None \<Rightarrow> [] | Some cbs \<Rightarrow> cbs)"
  let ?b = "b\<lparr>dn_connected := add_verified (cr_keccak C) (dn_connected b) (claimed_node (dp_id x) e),
        dn_expected_pings := AList.delete (dp_addr x) (dn_expected_pings b)\<rparr>"
  have "transmit C R x y (udp_addr node, dp_id y, ?m) a b = (Ok (Request (dp_addr x) (dp_id x) (EPong ?p) # ?effs), ?a, ?b)"
    using there unfolding hash(1) [symmetric] by (simp add: on_ping_effect ping_received_def claimed_node_def)
  moreover have "transmit C R y x (dp_addr x, dp_id x, EPong ?p) ?b ?a =
      (Ok [Fire cb], ?b, a\<lparr>dn_timers := (hash, dp_id y) # dn_timers a, dn_endpoint := told_endpoint e (dn_endpoint a)\<rparr>)"
    using transmit_plain [OF ok(1,2) strangers_sym [OF ok(4)] pong _ short_messages_fit [OF ok(2,3) pong], of "dp_addr x" ?b ?a] hash(2)
    by (simp add: on_pong_def map_of_update delete_update_fresh told_endpoint_def)
  ultimately show ?thesis by (simp add: exchange_def query_ping_def node(1))
qed

section \<open>The request for neighbours\<close>

lemma neighbours_exchanged:
  assumes ok: "crypto_ok C" "rlp_ok R" "rlp_short R" "strangers C x y"
    and node: "nr_id node = dp_id y" "length target = 64"
    and known: "table_get (cr_keccak C) (dn_connected b) (dp_id x) \<noteq> None"
      "neighbours (cr_keccak C) (dn_connected b) (dp_id x) = Some (Ok ns :: (ingress_error, node_record list) outcome)"
    and ns: "\<forall>n \<in> set ns. node_ok n" "fits R (ENeighbours \<lparr>nb_nodes = ns, nb_expire = expire\<rparr> :: 'cb egress_message)"
    and asked: "inflight_get (dp_id y) (dn_inflight_find a) \<noteq> []"
  shows "exchange C R x y (query_find_node target expire node) a (b :: 'cb disc_node) =
    ([], Ok (map (\<lambda>cb. Deliver cb \<lparr>nb_nodes = ns, nb_expire = expire\<rparr>) (inflight_get (dp_id y) (dn_inflight_find a))),
      a\<lparr>dn_connected := fold (\<lambda>n t. add_seen (cr_keccak C) t n) ns (dn_connected a)\<rparr>, b)"
proof -
  let ?m = "EFindNode \<lparr>fn_id = target, fn_expire = expire\<rparr> :: 'cb egress_message"
  let ?r = "ENeighbours \<lparr>nb_nodes = ns, nb_expire = expire\<rparr> :: 'cb egress_message"
  have m: "egress_ok ?m" using node(2) by simp
  have r: "egress_ok ?r" using ns(1) by simp
  have "transmit C R x y (udp_addr node, dp_id y, ?m) a b = (Ok [Request (dp_addr x) (dp_id x) ?r], a, b)"
    using transmit_plain [OF ok(1,2,4) m _ short_messages_fit [OF ok(2,3) m], of "udp_addr node" a b] known
    by (simp add: on_find_node_def)
  moreover have "transmit C R y x (dp_addr x, dp_id x, ?r) b a =
      (Ok (map (\<lambda>cb. Deliver cb \<lparr>nb_nodes = ns, nb_expire = expire\<rparr>) (inflight_get (dp_id y) (dn_inflight_find a))), b,
       a\<lparr>dn_connected := fold (\<lambda>n t. add_seen (cr_keccak C) t n) ns (dn_connected a)\<rparr>)"
    using transmit_plain [OF ok(1,2) strangers_sym [OF ok(4)] r _ ns(2), of "dp_addr x" b a] asked
    by (simp add: on_neighbours_def)
  ultimately show ?thesis by (simp add: exchange_def query_find_node_def node(1))
qed

section \<open>The query of a node\<close>

text \<open>What a query draws at random, and its channels.\<close>

record 'cb query_draw =
  qd_expected_id :: u64
  qd_expected_tx :: 'cb
  qd_pong_tx :: 'cb
  qd_request_ids :: "u64 list"
  qd_tx :: 'cb

text \<open>
  The query when nothing comes between: its ping and the pong, the wait for a ping that may come, the
  guarded request, what is delivered for it, and the guard dropped. \<open>None\<close>: there is no pong and the
  query waits for the timeouts, the draw of a request id never ends, or dropping the guard panics.
\<close>

definition query_run :: "('sk, 'pk, 'c) crypto \<Rightarrow> rlp_api \<Rightarrow> 'sk disc_party \<Rightarrow> 'sk disc_party \<Rightarrow> node_id
    \<Rightarrow> node_record \<Rightarrow> endpoint \<Rightarrow> u64 \<Rightarrow> u64 \<Rightarrow> 'cb query_draw \<Rightarrow> 'cb disc_node \<Rightarrow> 'cb disc_node
    \<Rightarrow> (query_end \<times> 'cb disc_node \<times> 'cb disc_node) option" where
  "query_run C R x y target node node_endpoint ping_expire find_expire dr a b =
     (let addr = udp_addr node;
          a = a\<lparr>dn_expected_pings := expect_ping addr (qd_expected_id dr) (qd_expected_tx dr) (dn_expected_pings a)\<rparr>;
          (_, r, a, b) = exchange C R x y (query_ping node_endpoint ping_expire (qd_pong_tx dr) node) a b
      in if (case r of Ok effs \<Rightarrow> Fire (qd_pong_tx dr) \<in> set effs | _ \<Rightarrow> False)
         then (case inflight_add (qd_request_ids dr) (nr_id node) (qd_tx dr) (dn_inflight_find a) of
                 None \<Rightarrow> None
               | Some (i, m) \<Rightarrow>
                   (let (_, r, a, b) = exchange C R x y (query_find_node target find_expire node) (a\<lparr>dn_inflight_find := m\<rparr>) b;
                        ms = (case r of Ok effs \<Rightarrow> [msg. Deliver cb msg \<leftarrow> effs, cb = qd_tx dr] | _ \<Rightarrow> [])
                    in case inflight_drop (nr_id node) i (dn_inflight_find a) of
                         Ok m \<Rightarrow> Some (Collected ms, a\<lparr>dn_inflight_find := m,
                           dn_expected_pings := unexpect_ping addr (qd_expected_id dr) (dn_expected_pings a)\<rparr>, b)
                       | _ \<Rightarrow> None))
         else None)"

lemma inflight_add_drop:
  assumes "guarded m G" "inflight_add ids n tx m = Some (i, m1)"
  shows "\<exists>m2. inflight_drop n i m1 = Ok m2 \<and> map_of m2 = map_of m"
proof -
  let ?d = "case map_of m n of None \<Rightarrow> [] | Some d \<Rightarrow> d"
  have i: "map_of ?d i = None" "m1 = AList.update n ((i, tx) # ?d) m"
    using assms(2) by (auto simp: inflight_add_def Let_def find_Some_iff)
  have d: "AList.delete i ((i, tx) # ?d) = ?d" using i(1) by (simp add: map_of_eq_None_iff delete_idem)
  have drop: "inflight_drop n i m1 = Ok (if ?d = [] then AList.delete n m1 else AList.update n ?d m1)"
    unfolding inflight_drop_def i(2) map_of_update using d by simp
  show ?thesis
  proof (cases "map_of m n")
    case None
    then have "map_of (AList.delete n m1) = map_of m"
      unfolding i(2) map_of_delete map_of_update by (intro ext) (auto simp del: map_of_eq_None_iff)
    then show ?thesis using drop None by simp
  next
    case (Some d)
    then have "d \<noteq> []" using assms(1) unfolding guarded_def by blast
    moreover have "map_of (AList.update n d m1) = map_of m"
      using Some unfolding i(2) map_of_update by (intro ext) (auto simp del: map_of_eq_Some_iff)
    ultimately show ?thesis using drop Some by simp
  qed
qed

lemma inflight_get_added:
  assumes "inflight_add ids n tx m = Some (i, m1)"
  shows "inflight_get n m1 = tx # inflight_get n m"
  using assms by (auto simp: inflight_add_def inflight_get_def Let_def map_of_update split: option.splits)

lemma inflight_add_free:
  assumes "guarded m G" "i \<in> set ids" "(n, i) \<notin> G"
  shows "\<exists>j m1. inflight_add ids n tx m = Some (j, m1)"
proof -
  let ?d = "case map_of m n of None \<Rightarrow> [] | Some d \<Rightarrow> d"
  have "map_of ?d i = None" using assms(1,3) unfolding guarded_def by (cases "map_of m n") auto
  then have "find (\<lambda>i. map_of ?d i = None) ids \<noteq> None" using assms(2) unfolding find_None_iff by blast
  then show ?thesis by (auto simp: inflight_add_def Let_def)
qed

lemma deliveries_of_tx:
  "tx \<notin> set cbs \<Longrightarrow> [msg. Deliver cb msg \<leftarrow> map (\<lambda>cb. Deliver cb r) (tx # cbs), cb = tx] = [r]"
  by (induction cbs) auto

lemma filter_remove_at: "i < length xs \<Longrightarrow> \<not> P (xs ! i) \<Longrightarrow> filter P (remove_at i xs) = filter P xs"
  unfolding remove_at_def by (subst (3) id_take_nth_drop [of i xs]) auto

lemma others_stay:
  "filter (\<lambda>x. nr_id n \<noteq> nr_id x) (kb_bucket (bucket_add_verified n b)) = filter (\<lambda>x. nr_id n \<noteq> nr_id x) (kb_bucket b)"
  using find_peer_pos_Some [of b "nr_id n"]
  by (auto simp: bucket_add_verified_def Let_def push_replacement_def filter_remove_at split: option.split)

lemma neighbours_of_claimed:
  assumes "keccak_ok kk" "table_inv kk t" "\<not> is_ipv6 (nr_address n)" "table_bucket kk t (nr_id n) = Some k"
  shows "neighbours kk (add_verified kk t n) (nr_id n) =
    Some (Ok (filter (\<lambda>x. nr_id n \<noteq> nr_id x) (kb_bucket k)) :: ('e, node_record list) outcome)"
proof -
  obtain d where d: "logdistance kk t (nr_id n) = Some d" "k = kbuckets t ! d" "d < ADDRESS_BITS"
    using assms(4) logdistance_less [OF assms(1,2)] by (auto simp: table_bucket_def)
  have "length (kb_bucket k) \<le> BUCKET_SIZE"
    using table_inv_bucketD [OF assms(2) d(3)] d(2) by (simp add: bucket_ok_def)
  then have "length (filter (\<lambda>x. nr_id n \<noteq> nr_id x) (kb_bucket k)) \<le> BUCKET_SIZE"
    using order_trans [OF length_filter_le] by blast
  moreover have "table_bucket kk (add_verified kk t n) (nr_id n) = Some (bucket_add_verified n k)"
    using assms(2,3) d by (simp add: add_verified_def table_bucket_def kbuckets_bucket_mut table_inv_def)
  ultimately show ?thesis by (simp add: neighbours_def collect_array_vec_def others_stay)
qed

text \<open>
  C12. A node that is asked answers with its bucket. Let two nodes be in any states they can reach, where
  the one that is asked has the asking node in its bucket or has room for it there, and where the other
  nodes of that bucket fit one datagram. A query of it proves the endpoint with a ping and ends with one
  message: the nodes of the other's own bucket for the asking node, whatever the target is. The other
  enters the asking node under the address that it claims; the asking node takes the nodes it is told as
  seen, takes the endpoint it sent itself for the one it is told, and no request stays pending. Without
  the two conditions it does not hold: a full bucket ignores newcomers, and its reply is too long.
\<close>

theorem query_answered:
  fixes a b :: "'cb disc_node"
  assumes ok: "crypto_ok C" "rlp_ok R" "rlp_short R" "strangers C x y"
    and states: "disc_reach C R (dp_key x) (dp_id x) (a, G)" "disc_reach C R (dp_key y) (dp_id y) (b, H)"
    and node: "nr_id node = dp_id y" "ip_wf (nr_address node)" "length target = 64"
    and e: "ip_wf (ep_address e)" "\<not> is_ipv6 (ep_address e)"
    and fresh: "map_of (dn_inflight_pings a) (fst (seal C (dp_key x) (egress_payload R
        (EPing \<lparr>pi_from = e, pi_to = endpoint_of node, pi_expire = ping_expire\<rparr> (Some (qd_pong_tx dr)))))) = None"
    and draw: "i \<in> set (qd_request_ids dr)" "(dp_id y, i) \<notin> G" "qd_tx dr \<notin> set (inflight_get (dp_id y) (dn_inflight_find a))"
    and room: "table_bucket (cr_keccak C) (dn_connected b) (dp_id x) = Some k"
      "dp_id x \<in> nr_id ` set (kb_bucket k) \<or> length (kb_bucket k) < BUCKET_SIZE"
    and reply: "r = \<lparr>nb_nodes = filter (\<lambda>n. dp_id x \<noteq> nr_id n) (kb_bucket k), nb_expire = find_expire\<rparr>"
      "egress_ok (ENeighbours r :: 'cb egress_message)" "fits R (ENeighbours r :: 'cb egress_message)"
  shows "\<exists>a' b'. query_run C R x y target node e ping_expire find_expire dr a b = Some (Collected [r], a', b') \<and>
    dn_connected b' = add_verified (cr_keccak C) (dn_connected b) (claimed_node (dp_id x) e) \<and>
    table_get (cr_keccak C) (dn_connected b') (dp_id x) = Some (endpoint_of (claimed_node (dp_id x) e)) \<and>
    dn_connected a' = fold (\<lambda>n t. add_seen (cr_keccak C) t n) (nb_nodes r) (dn_connected a) \<and>
    dn_endpoint a' = told_endpoint e (dn_endpoint a) \<and>
    map_of (dn_inflight_find a') = map_of (dn_inflight_find a)"
proof -
  let ?kk = "cr_keccak C"
  define n where "n = claimed_node (dp_id x) e"
  let ?a = "a\<lparr>dn_expected_pings := expect_ping (udp_addr node) (qd_expected_id dr) (qd_expected_tx dr) (dn_expected_pings a)\<rparr>"
  have kk: "keccak_ok ?kk" by (rule crypto_keccak_ok [OF ok(1)])
  have inv: "guarded (dn_inflight_find a) G" "table_inv ?kk (dn_connected b)"
    using disc_reach_inv [OF ok(1) states(1)] disc_reach_inv [OF ok(1) states(2)] by simp_all
  have n: "nr_id n = dp_id x" "\<not> is_ipv6 (nr_address n)" using e(2) by (simp_all add: n_def claimed_node_def)
  have pre: "map_of (dn_inflight_pings ?a) (fst (seal C (dp_key x) (egress_payload R
        (EPing \<lparr>pi_from = e, pi_to = endpoint_of node, pi_expire = ping_expire\<rparr> (Some (qd_pong_tx dr)))))) = None"
    using fresh by simp
  obtain effs a1 b1 where ping: "exchange C R x y (query_ping e ping_expire (qd_pong_tx dr) node) ?a b = (effs, Ok [Fire (qd_pong_tx dr)], a1, b1)"
    "dn_inflight_find a1 = dn_inflight_find a" "dn_connected a1 = dn_connected a" "dn_endpoint a1 = told_endpoint e (dn_endpoint a)"
    "dn_connected b1 = add_verified ?kk (dn_connected b) n"
    by (rule that [OF ping_exchanged [OF ok node(1,2) e(1) refl pre]]) (simp_all add: n_def)
  obtain j m1 where add: "inflight_add (qd_request_ids dr) (dp_id y) (qd_tx dr) (dn_inflight_find a) = Some (j, m1)"
    using inflight_add_free [OF inv(1) draw(1,2)] by blast
  obtain m2 where drop: "inflight_drop (dp_id y) j m1 = Ok m2" "map_of m2 = map_of (dn_inflight_find a)"
    using inflight_add_drop [OF inv(1) add] by blast
  note cbs = inflight_get_added [OF add]
  have get: "table_get ?kk (dn_connected b1) (dp_id x) = Some (endpoint_of n)"
    using verified_get [OF kk inv(2) n(2) room [folded n(1)], of "dp_id x"] n(1) ping(5) by simp
  have known: "table_get ?kk (dn_connected b1) (dp_id x) \<noteq> None" using get by simp
  have near: "neighbours ?kk (dn_connected b1) (dp_id x) = Some (Ok (nb_nodes r) :: (ingress_error, node_record list) outcome)"
    using neighbours_of_claimed [OF kk inv(2) n(2) room(1) [folded n(1)]] n(1) ping(5) reply(1) by simp
  have good: "\<forall>n \<in> set (nb_nodes r). node_ok n" using reply(2) by simp
  have r: "r = \<lparr>nb_nodes = nb_nodes r, nb_expire = find_expire\<rparr>" using reply(1) by simp
  have f: "fits R (ENeighbours \<lparr>nb_nodes = nb_nodes r, nb_expire = find_expire\<rparr> :: 'cb egress_message)"
    using reply(3) r by simp
  have asked: "inflight_get (dp_id y) (dn_inflight_find (a1\<lparr>dn_inflight_find := m1\<rparr>)) \<noteq> []" using cbs by simp
  note find = neighbours_exchanged [OF ok node(1,3) known near good f asked, folded r]
  have ms: "[msg. Deliver cb msg \<leftarrow> map (\<lambda>cb. Deliver cb r) (inflight_get (dp_id y) m1), cb = qd_tx dr] = [r]"
    unfolding cbs by (rule deliveries_of_tx [OF draw(3)])
  show ?thesis
    unfolding query_run_def Let_def ping(1) node(1)
    using add ping drop find ms get by (simp add: n_def)
qed

lemma table_get_full:
  assumes "keccak_ok kk" "table_inv kk t" "table_bucket kk t (nr_id n) = Some k"
    and "nr_id n \<notin> nr_id ` set (kb_bucket k)" "BUCKET_SIZE \<le> length (kb_bucket k)"
  shows "table_get kk (add_verified kk t n) (nr_id n) = None"
proof -
  obtain d where d: "logdistance kk t (nr_id n) = Some d" "k = kbuckets t ! d"
    using assms(3) by (auto simp: table_bucket_def)
  have none: "find_peer_pos k (nr_id n) = None"
  proof (cases "find_peer_pos k (nr_id n)")
    case (Some i)
    then have "nr_id n \<in> nr_id ` set (kb_bucket k)" using find_peer_pos_Some [OF Some] by (metis image_eqI nth_mem)
    then show ?thesis using assms(4) by contradiction
  qed
  have "find (\<lambda>e. nr_id e = nr_id n) (kb_bucket k) = None" using assms(4) unfolding find_None_iff by (metis imageI)
  then show ?thesis
    using d none assms(5)
    by (simp add: add_verified_def table_get_bucket_mut [OF assms(1,2)] table_get_def [of kk t] table_bucket_def
        bucket_add_verified_def push_replacement_def Let_def)
qed

lemma find_unanswered:
  fixes a b :: "'cb disc_node"
  assumes ok: "crypto_ok C" "rlp_ok R" "rlp_short R" "strangers C x y"
    and node: "nr_id node = dp_id y" "length target = 64"
    and unknown: "table_get (cr_keccak C) (dn_connected b) (dp_id x) = None"
  shows "exchange C R x y (query_find_node target expire node) a b = ([], Ok [], a, b)"
proof -
  let ?m = "EFindNode \<lparr>fn_id = target, fn_expire = expire\<rparr> :: 'cb egress_message"
  have m: "egress_ok ?m" using node(2) by simp
  show ?thesis
    using transmit_plain [OF ok(1,2,4) m _ short_messages_fit [OF ok(2,3) m], of "udp_addr node" a b] unknown
    by (simp add: exchange_def query_find_node_def on_find_node_def node(1))
qed

text \<open>
  A node with a full bucket does not answer newcomers. When the bucket for the asking node is full
  and does not have it, the ping is answered, but the request for neighbours is not: the query waits in
  vain, its result is none, and the other node still does not know the one that asked.
\<close>

theorem full_bucket_ignores:
  fixes a b :: "'cb disc_node"
  assumes ok: "crypto_ok C" "rlp_ok R" "rlp_short R" "strangers C x y"
    and states: "disc_reach C R (dp_key x) (dp_id x) (a, G)" "disc_reach C R (dp_key y) (dp_id y) (b, H)"
    and node: "nr_id node = dp_id y" "ip_wf (nr_address node)" "length target = 64" and e: "ip_wf (ep_address e)"
    and fresh: "map_of (dn_inflight_pings a) (fst (seal C (dp_key x) (egress_payload R
        (EPing \<lparr>pi_from = e, pi_to = endpoint_of node, pi_expire = ping_expire\<rparr> (Some (qd_pong_tx dr)))))) = None"
    and draw: "i \<in> set (qd_request_ids dr)" "(dp_id y, i) \<notin> G"
    and full: "table_bucket (cr_keccak C) (dn_connected b) (dp_id x) = Some k"
      "dp_id x \<notin> nr_id ` set (kb_bucket k)" "BUCKET_SIZE \<le> length (kb_bucket k)"
  shows "\<exists>a' b'. query_run C R x y target node e ping_expire find_expire dr a b = Some (Collected [], a', b') \<and>
    query_result (Collected []) = None \<and> map_of (dn_inflight_find a') = map_of (dn_inflight_find a) \<and>
    table_get (cr_keccak C) (dn_connected b') (dp_id x) = None"
proof -
  let ?kk = "cr_keccak C"
  define n where "n = claimed_node (dp_id x) e"
  let ?a = "a\<lparr>dn_expected_pings := expect_ping (udp_addr node) (qd_expected_id dr) (qd_expected_tx dr) (dn_expected_pings a)\<rparr>"
  have inv: "guarded (dn_inflight_find a) G" "table_inv ?kk (dn_connected b)"
    using disc_reach_inv [OF ok(1) states(1)] disc_reach_inv [OF ok(1) states(2)] by simp_all
  have n: "nr_id n = dp_id x" by (simp add: n_def claimed_node_def)
  have pre: "map_of (dn_inflight_pings ?a) (fst (seal C (dp_key x) (egress_payload R
        (EPing \<lparr>pi_from = e, pi_to = endpoint_of node, pi_expire = ping_expire\<rparr> (Some (qd_pong_tx dr)))))) = None"
    using fresh by simp
  obtain effs a1 b1 where ping: "exchange C R x y (query_ping e ping_expire (qd_pong_tx dr) node) ?a b = (effs, Ok [Fire (qd_pong_tx dr)], a1, b1)"
    "dn_inflight_find a1 = dn_inflight_find a" "dn_connected b1 = add_verified ?kk (dn_connected b) n"
    by (rule that [OF ping_exchanged [OF ok node(1,2) e refl pre]]) (simp_all add: n_def)
  obtain j m1 where add: "inflight_add (qd_request_ids dr) (dp_id y) (qd_tx dr) (dn_inflight_find a) = Some (j, m1)"
    using inflight_add_free [OF inv(1) draw] by blast
  obtain m2 where drop: "inflight_drop (dp_id y) j m1 = Ok m2" "map_of m2 = map_of (dn_inflight_find a)"
    using inflight_add_drop [OF inv(1) add] by blast
  have get: "table_get ?kk (dn_connected b1) (dp_id x) = None"
    using table_get_full [OF crypto_keccak_ok [OF ok(1)] inv(2) full [folded n]] n ping(3) by simp
  show ?thesis
    unfolding query_run_def Let_def ping(1) node(1)
    using add ping drop find_unanswered [OF ok node(1,3) get] get by simp
qed

lemma length_others:
  assumes "distinct (map nr_id ns)" "i \<in> nr_id ` set ns"
  shows "length (filter (\<lambda>n. i \<noteq> nr_id n) ns) = length ns - 1"
  using assms
proof (induction ns)
  case (Cons n ns)
  show ?case
  proof (cases "nr_id n = i")
    case True
    then have "filter (\<lambda>n. i \<noteq> nr_id n) ns = ns" using Cons.prems(1) by (auto simp: filter_id_conv)
    then show ?thesis using True by simp
  next
    case False
    then have "i \<in> nr_id ` set ns" using Cons.prems(2) by auto
    then show ?thesis using False Cons by (cases ns) auto
  qed
qed simp

lemma seal_hash:
  assumes "crypto_ok C"
  shows "take 32 (snd (seal C k payload)) = cr_keccak C (drop 32 (snd (seal C k payload)))"
  by (simp add: seal_def Let_def crypto_okD(8) [OF assms] split: prod.split)

text \<open>
  C37. The reply from a full bucket is lost. A node in a full bucket that asks for neighbours is sent the
  other 15 nodes of it in one datagram. With ports and an expiry time of the usual size that is more than
  1280 bytes; the node that receives it cuts it off, and refuses what is left unless it happens to hash
  to the same value: the query collects nothing.
\<close>

theorem full_reply_too_long:
  fixes a b :: "'cb disc_node"
  assumes ok: "crypto_ok C" "rlp_ok R" "rlp_short R" "rlp_sizes R" "strangers C x y"
    and node: "nr_id node = dp_id y" "length target = 64"
    and state: "disc_reach C R (dp_key y) (dp_id y) (b, H)"
    and full: "table_bucket (cr_keccak C) (dn_connected b) (dp_id x) = Some k"
      "length (kb_bucket k) = BUCKET_SIZE" "distinct (map nr_id (kb_bucket k))" "dp_id x \<in> nr_id ` set (kb_bucket k)"
    and usual: "\<forall>n \<in> set (kb_bucket k). node_ok n \<and> 256 \<le> nr_udp_port n \<and> 256 \<le> nr_tcp_port n" "2 ^ 24 \<le> expire"
  shows "\<exists>reply datagram.
    transmit C R x y (query_find_node target expire node) a b = (Ok [Request (dp_addr x) (dp_id x) (ENeighbours reply)], a, b) \<and>
    nb_nodes reply = filter (\<lambda>n. dp_id x \<noteq> nr_id n) (kb_bucket k) \<and> length (nb_nodes reply) = BUCKET_SIZE - 1 \<and>
    egress_route C R (dp_key y) (dp_id y) True (dp_addr x, dp_id x, ENeighbours reply) b = ([Datagram (dp_addr x) datagram], b) \<and>
    MAX_PACKET_SIZE < length datagram \<and>
    (cr_keccak C (drop 32 (take MAX_PACKET_SIZE datagram)) \<noteq> cr_keccak C (drop 32 datagram) \<longrightarrow>
       ingress_route C R (dp_id x) (dp_addr y) datagram a = (Err HashMismatch, a))"
proof -
  let ?kk = "cr_keccak C" and ?others = "filter (\<lambda>n. dp_id x \<noteq> nr_id n) (kb_bucket k)"
  let ?m = "EFindNode \<lparr>fn_id = target, fn_expire = expire\<rparr> :: 'cb egress_message"
  define reply where "reply = \<lparr>nb_nodes = ?others, nb_expire = expire\<rparr>"
  define datagram where "datagram = snd (seal C (dp_key y) (egress_payload R (ENeighbours reply :: 'cb egress_message)))"
  have others: "length ?others = BUCKET_SIZE - 1"
    using length_others [OF full(3,4)] full(2) by simp
  have "find (\<lambda>e. nr_id e = dp_id x) (kb_bucket k) \<noteq> None" using full(4) by (auto simp: find_None_iff)
  then have known: "table_get ?kk (dn_connected b) (dp_id x) \<noteq> None" using full(1) by (simp add: table_get_def)
  have "neighbours ?kk (dn_connected b) (dp_id x) = Some (Ok ?others :: (ingress_error, node_record list) outcome)"
    using full(1) others by (simp add: neighbours_def collect_array_vec_def)
  then have "transmit C R x y (query_find_node target expire node) a b = (Ok [Request (dp_addr x) (dp_id x) (ENeighbours reply)], a, b)"
    using transmit_plain [OF ok(1,2,5) _ _ short_messages_fit [OF ok(2,3)], of ?m "udp_addr node" a b] known node
    by (simp add: on_find_node_def query_find_node_def reply_def)
  moreover have "egress_route C R (dp_key y) (dp_id y) True (dp_addr x, dp_id x, ENeighbours reply) b = ([Datagram (dp_addr x) datagram], b)"
    using egress_plain [OF strangers_sym [OF ok(5)], of "ENeighbours reply"] by (simp add: datagram_def)
  moreover have long: "MAX_PACKET_SIZE < length datagram"
    unfolding datagram_def using usual others by (intro long_reply_size [OF ok(1,4)]) (auto simp: reply_def)
  moreover have "ingress_route C R (dp_id x) (dp_addr y) datagram a = (Err HashMismatch, a)"
    if "?kk (drop 32 (take MAX_PACKET_SIZE datagram)) \<noteq> ?kk (drop 32 datagram)"
  proof -
    have "take 32 datagram = ?kk (drop 32 datagram)" unfolding datagram_def by (rule seal_hash [OF ok(1)])
    then have "take 32 (take MAX_PACKET_SIZE datagram) \<noteq> ?kk (drop 32 (take MAX_PACKET_SIZE datagram))"
      using that by (simp add: MAX_PACKET_SIZE_def min_def)
    moreover have "length (take MAX_PACKET_SIZE datagram) = MAX_PACKET_SIZE" using long by simp
    moreover have "\<not> is_ipv6 (fst (dp_addr y))" using ok(5) by (simp add: strangers_def)
    ultimately show ?thesis by (simp add: ingress_route_def open_datagram_def Let_def MAX_PACKET_SIZE_def)
  qed
  ultimately show ?thesis using others by (intro exI [of _ reply] exI [of _ datagram]) (simp add: reply_def)
qed

text \<open>A reply of at most eight nodes fits a datagram.\<close>

lemma node_record_short:
  assumes "rlp_ok R" "rlp_short R" "node_ok n"
  shows "length (rl_out R (node_record_rlp n)) \<le> 141"
proof -
  have "length (octets (nr_address n)) \<le> 16" using assms(3) by (cases "nr_address n") (simp_all add: node_ok_def)
  then have "length (rl_out R (RData (octets (nr_address n)))) \<le> 25"
    using rlp_okD(9) [OF assms(1), of "octets (nr_address n)"] by simp
  moreover have "length (rl_out R (RData (nr_id n))) \<le> 73"
    using rlp_okD(9) [OF assms(1), of "nr_id n"] assms(3) by (simp add: node_ok_def)
  ultimately show ?thesis
    using word_size(2) [OF assms(2), of "nr_udp_port n"] word_size(2) [OF assms(2), of "nr_tcp_port n"]
      rlp_okD(10) [OF assms(1), of "[RData (octets (nr_address n)), RUint (unat (nr_udp_port n)),
        RUint (unat (nr_tcp_port n)), RData (nr_id n)]"]
    by (simp add: node_record_rlp_def)
qed

lemma length_concat_le: "\<forall>x \<in> set xs. length (f x) \<le> k \<Longrightarrow> length (concat (map f xs)) \<le> k * length xs"
  by (induction xs) auto

lemma small_reply_fits:
  assumes "rlp_ok R" "rlp_short R" "egress_ok (ENeighbours r :: 'cb egress_message)" "length (nb_nodes r) \<le> 8"
  shows "fits R (ENeighbours r :: 'cb egress_message)"
proof -
  let ?nodes = "map node_record_rlp (nb_nodes r)"
  have "length (concat (map (\<lambda>n. rl_out R (node_record_rlp n)) (nb_nodes r))) \<le> 141 * length (nb_nodes r)"
    using assms(3) node_record_short [OF assms(1,2)] by (intro length_concat_le) simp
  then have nodes: "length (rl_out R (RList ?nodes)) \<le> 1137"
    using rlp_okD(10) [OF assms(1), of ?nodes] assms(4) by (simp add: o_def)
  then show ?thesis
    using word_size(1) [OF assms(2), of "nb_expire r"] rlp_okD(10) [OF assms(1), of "[RList ?nodes, RUint (unat (nb_expire r))]"]
    by (simp add: neighbours_rlp_def MAX_PACKET_SIZE_def)
qed

section \<open>Closed instance\<close>

lemma demo_rlp_short: "rlp_short demo_rlp"
proof -
  have "length (rl_out demo_rlp (RUint n)) \<le> 17" if "n < 2 ^ 64" for n
  proof -
    have "length (digits256 n) \<le> 8" using that length_digits256 [of n 8] by simp
    then show ?thesis using length_tagged [of "digits256 n" 1 129] by (simp add: demo_rlp_def)
  qed
  then show ?thesis by (simp add: rlp_short_def)
qed

definition party :: "byte \<Rightarrow> byte disc_party" where
  "party k = \<lparr>dp_key = k, dp_id = k # replicate 63 0, dp_addr = (V4 [10, 0, 0, k], 30303)\<rparr>"

definition party_node :: "byte \<Rightarrow> node_record" where
  "party_node k = \<lparr>nr_address = V4 [10, 0, 0, k], nr_tcp_port = 30303, nr_udp_port = 30303, nr_id = k # replicate 63 0\<rparr>"

definition party_state :: "byte \<Rightarrow> byte list \<Rightarrow> nat disc_node" where
  "party_state k ks = new_node (cr_keccak demo_crypto) (k # replicate 63 0) demo_endpoint (map party_node ks)"

definition demo_draw :: "nat query_draw" where
  "demo_draw = \<lparr>qd_expected_id = 1, qd_expected_tx = 1, qd_pong_tx = 2, qd_request_ids = [7], qd_tx = 3\<rparr>"

lemma party_reach: "disc_reach demo_crypto demo_rlp (dp_key (party k)) (dp_id (party k)) (party_state k ks, {})"
  unfolding disc_reach_def by (rule reach_init) (auto simp: disc_start_def party_state_def party_def)

lemma party_strangers: "k \<noteq> l \<Longrightarrow> strangers demo_crypto (party k) (party l)"
  by (simp add: strangers_def party_def pk2id_def demo_crypto_def)

lemma party_bucket:
  "table_bucket (cr_keccak demo_crypto) (dn_connected (party_state 6 [4])) (5 # replicate 63 0) =
    Some \<lparr>kb_bucket = [party_node 4], kb_replacements = []\<rparr>"
  by code_simp

definition demo_found :: neighbours_message where
  "demo_found = \<lparr>nb_nodes = [party_node 4], nb_expire = 9\<rparr>"

theorem query_answered_witness:
  "\<exists>a' b'. query_run demo_crypto demo_rlp (party 5) (party 6) (replicate 64 7) (party_node 6) demo_endpoint 4 9 demo_draw
      (party_state 5 [6]) (party_state 6 [4]) = Some (Collected [demo_found], a', b') \<and>
    dn_connected b' = add_verified (cr_keccak demo_crypto) (dn_connected (party_state 6 [4])) (claimed_node (dp_id (party 5)) demo_endpoint) \<and>
    table_get (cr_keccak demo_crypto) (dn_connected b') (dp_id (party 5)) =
      Some (endpoint_of (claimed_node (dp_id (party 5)) demo_endpoint)) \<and>
    dn_connected a' = fold (\<lambda>n t. add_seen (cr_keccak demo_crypto) t n) (nb_nodes demo_found) (dn_connected (party_state 5 [6])) \<and>
    dn_endpoint a' = told_endpoint demo_endpoint (dn_endpoint (party_state 5 [6])) \<and>
    map_of (dn_inflight_find a') = map_of (dn_inflight_find (party_state 5 [6]))"
proof -
  have ok: "egress_ok (ENeighbours demo_found :: nat egress_message)"
    by (simp add: demo_found_def party_node_def node_ok_def)
  have "fits demo_rlp (ENeighbours demo_found :: nat egress_message)"
    by (rule small_reply_fits [OF demo_rlp_ok demo_rlp_short ok]) (simp add: demo_found_def)
  with ok party_bucket [unfolded party_node_def party_state_def new_node_def, simplified] show ?thesis
    by (intro query_answered [OF demo_crypto_ok demo_rlp_ok demo_rlp_short party_strangers party_reach party_reach,
          where k = "\<lparr>kb_bucket = [party_node 4], kb_replacements = []\<rparr>" and i = 7])
       (simp_all add: party_def party_node_def demo_found_def demo_endpoint_def demo_draw_def party_state_def
         new_node_def inflight_get_def BUCKET_SIZE_def)
qed

lemma crowded_bucket:
  "table_bucket (cr_keccak demo_crypto) (dn_connected (party_state 128 demo_ids)) (100 # replicate 63 0) =
    Some \<lparr>kb_bucket = map party_node (rev demo_ids), kb_replacements = []\<rparr>"
  by code_simp

lemma crowded_bucket_16:
  "table_bucket (cr_keccak demo_crypto) (dn_connected (party_state 128 demo_ids)) (16 # replicate 63 0) =
    Some \<lparr>kb_bucket = map party_node (rev demo_ids), kb_replacements = []\<rparr>"
  by code_simp

theorem full_reply_too_long_witness:
  "\<exists>reply datagram.
    transmit demo_crypto demo_rlp (party 16) (party 128) (query_find_node (replicate 64 7) (2 ^ 30) (party_node 128))
      (party_state 16 [128]) (party_state 128 demo_ids) =
      (Ok [Request (dp_addr (party 16)) (dp_id (party 16)) (ENeighbours reply)], party_state 16 [128], party_state 128 demo_ids) \<and>
    length (nb_nodes reply) = 15 \<and>
    egress_route demo_crypto demo_rlp 128 (dp_id (party 128)) True (dp_addr (party 16), dp_id (party 16), ENeighbours reply)
      (party_state 128 demo_ids) = ([Datagram (dp_addr (party 16)) datagram], party_state 128 demo_ids) \<and>
    1280 < length datagram"
proof -
  let ?k = "\<lparr>kb_bucket = map party_node (rev demo_ids), kb_replacements = []\<rparr>"
  have "table_bucket (cr_keccak demo_crypto) (dn_connected (party_state 128 demo_ids)) (dp_id (party 16)) = Some ?k"
    using crowded_bucket_16 by (simp add: party_def)
  moreover have "\<forall>n \<in> set (kb_bucket ?k). node_ok n \<and> 256 \<le> nr_udp_port n \<and> 256 \<le> nr_tcp_port n"
    by (simp add: party_node_def node_ok_def)
  moreover have "nr_id (party_node 128) = dp_id (party 128)" "length (replicate 64 (7 :: byte)) = 64"
    by (simp_all add: party_def party_node_def)
  moreover have "length (kb_bucket ?k) = BUCKET_SIZE" "distinct (map nr_id (kb_bucket ?k))" "dp_id (party 16) \<in> nr_id ` set (kb_bucket ?k)"
    by (simp_all add: party_def party_node_def demo_ids_def BUCKET_SIZE_def)
  moreover have "(2::u64) ^ 24 \<le> 2 ^ 30" by simp
  moreover have "strangers demo_crypto (party 16) (party 128)" by (rule party_strangers) simp
  ultimately show ?thesis
    using full_reply_too_long [OF demo_crypto_ok demo_rlp_ok demo_rlp_short demo_rlp_sizes, of "party 16" "party 128" "party_node 128"
        "replicate 64 7" "party_state 128 demo_ids" "{}" ?k "2 ^ 30" "party_state 16 [128]"] party_reach [of 128 demo_ids]
    by (simp add: BUCKET_SIZE_def MAX_PACKET_SIZE_def) (auto simp: party_def)
qed

theorem full_bucket_ignores_witness:
  "\<exists>a' b'. query_run demo_crypto demo_rlp (party 100) (party 128) (replicate 64 7) (party_node 128) demo_endpoint 4 9 demo_draw
      (party_state 100 [128]) (party_state 128 demo_ids) = Some (Collected [], a', b') \<and>
    query_result (Collected []) = None \<and>
    map_of (dn_inflight_find a') = map_of (dn_inflight_find (party_state 100 [128])) \<and>
    table_get (cr_keccak demo_crypto) (dn_connected b') (dp_id (party 100)) = None"
proof -
  have "table_bucket (cr_keccak demo_crypto) (dn_connected (party_state 128 demo_ids)) (dp_id (party 100)) =
      Some \<lparr>kb_bucket = map party_node (rev demo_ids), kb_replacements = []\<rparr>"
    using crowded_bucket by (simp add: party_def)
  note full = full_bucket_ignores [OF demo_crypto_ok demo_rlp_ok demo_rlp_short party_strangers party_reach party_reach _ _ _ _ _ _ _ this]
  show ?thesis
    by (rule full [where i = 7])
       (simp_all add: party_def party_node_def demo_endpoint_def demo_draw_def party_state_def new_node_def BUCKET_SIZE_def demo_ids_def)
qed

section \<open>The address of a node\<close>

text \<open>
  A node is entered under the address it claims, and never learns another. A node that listens on
  0.0.0.0 without a public address, as the sentry starts it, pings from whatever address; the other node
  enters it with the address 0.0.0.0 and its udp port for both ports, and its pong repeats the claim, so
  that the node keeps its endpoint. Only the UPnP task changes it.
\<close>

theorem claimed_address_recorded:
  fixes a b :: "'cb disc_node"
  assumes ok: "crypto_ok C" "rlp_ok R" "rlp_short R" "strangers C x y"
    and states: "dn_endpoint a = start_endpoint (V4 [0, 0, 0, 0], port) None tcp" "disc_reach C R (dp_key y) (dp_id y) (b, H)"
    and node: "nr_id node = dp_id y" "ip_wf (nr_address node)"
    and fresh: "map_of (dn_inflight_pings a) (fst (seal C (dp_key x) (egress_payload R
        (EPing \<lparr>pi_from = dn_endpoint a, pi_to = endpoint_of node, pi_expire = expire\<rparr> (Some cb))))) = None"
    and room: "table_bucket (cr_keccak C) (dn_connected b) (dp_id x) = Some k"
      "dp_id x \<in> nr_id ` set (kb_bucket k) \<or> length (kb_bucket k) < BUCKET_SIZE"
  shows "case exchange C R x y (query_ping (dn_endpoint a) expire cb node) a b of (effs, r, a', b') \<Rightarrow>
    r = Ok [Fire cb] \<and> dn_endpoint a' = dn_endpoint a \<and>
    table_get (cr_keccak C) (dn_connected b') (dp_id x) =
      Some \<lparr>ep_address = V4 [0, 0, 0, 0], ep_udp_port = port, ep_tcp_port = port\<rparr> \<and>
    dn_endpoint (upnp_round (Some v) a') = (dn_endpoint a)\<lparr>ep_address := v\<rparr>"
proof -
  let ?e = "dn_endpoint a"
  define n where "n = claimed_node (dp_id x) ?e"
  have inv: "table_inv (cr_keccak C) (dn_connected b)" using disc_reach_inv [OF ok(1) states(2)] by simp
  have n: "nr_id n = dp_id x" "\<not> is_ipv6 (nr_address n)" by (simp_all add: n_def claimed_node_def states(1) start_endpoint_def)
  have e: "ip_wf (ep_address ?e)" by (simp add: states(1) start_endpoint_def)
  have "table_get (cr_keccak C) (add_verified (cr_keccak C) (dn_connected b) n) (dp_id x) = Some (endpoint_of n)"
    using verified_get [OF crypto_keccak_ok [OF ok(1)] inv n(2) room [folded n(1)], of "dp_id x"] n(1) by simp
  moreover have "endpoint_of n = \<lparr>ep_address = V4 [0, 0, 0, 0], ep_udp_port = port, ep_tcp_port = port\<rparr>"
    by (simp add: n_def claimed_node_def endpoint_of_def states(1) start_endpoint_def)
  moreover have "told_endpoint ?e ?e = ?e" by (simp add: told_endpoint_def)
  ultimately show ?thesis
    unfolding ping_exchanged [OF ok node e refl fresh] by (simp add: n_def upnp_round_def)
qed

theorem claimed_address_recorded_witness:
  "case exchange demo_crypto demo_rlp (party 5) (party 6)
      (query_ping (start_endpoint (V4 [0, 0, 0, 0], 30303) None 30303) 4 2 (party_node 6))
      ((party_state 5 [6])\<lparr>dn_endpoint := start_endpoint (V4 [0, 0, 0, 0], 30303) None 30303\<rparr>) (party_state 6 [4]) of (effs, r, a', b') \<Rightarrow>
    r = Ok [Fire 2] \<and> dn_endpoint a' = start_endpoint (V4 [0, 0, 0, 0], 30303) None 30303 \<and>
    table_get (cr_keccak demo_crypto) (dn_connected b') (dp_id (party 5)) =
      Some \<lparr>ep_address = V4 [0, 0, 0, 0], ep_udp_port = 30303, ep_tcp_port = 30303\<rparr> \<and>
    dn_endpoint (upnp_round (Some (V4 [9, 9, 9, 9])) a') = (start_endpoint (V4 [0, 0, 0, 0], 30303) None 30303)\<lparr>ep_address := V4 [9, 9, 9, 9]\<rparr>"
proof -
  let ?a = "(party_state 5 [6])\<lparr>dn_endpoint := start_endpoint (V4 [0, 0, 0, 0], 30303) None 30303\<rparr>"
  have bucket: "table_bucket (cr_keccak demo_crypto) (dn_connected (party_state 6 [4])) (dp_id (party 5)) =
      Some \<lparr>kb_bucket = [party_node 4], kb_replacements = []\<rparr>"
    using party_bucket by (simp add: party_def)
  have "strangers demo_crypto (party 5) (party 6)" by (rule party_strangers) simp
  note c = claimed_address_recorded [OF demo_crypto_ok demo_rlp_ok demo_rlp_short this _ party_reach _ _ _ bucket,
      of ?a 30303 30303 "party_node 6" 4 2 "V4 [9, 9, 9, 9]"]
  have "map_of (dn_inflight_pings ?a) h = None" for h by (simp add: party_state_def new_node_def)
  moreover have "nr_id (party_node 6) = dp_id (party 6)" "ip_wf (nr_address (party_node 6))" by (simp_all add: party_node_def party_def)
  ultimately show ?thesis using c by (simp add: BUCKET_SIZE_def)
qed

end
