(* ===== verification/Relay.thy ===== *)
theory Relay
  imports Connection Swarm Sentry Peer_Tasks Provider
begin

text \<open>
  Two sentries that are connected, from the client of one to the data of the other. A sentry is its
  capability server and the stream of one of its peers; \<open>peer_out\<close> is a round of the egress router
  (\<open>setup_peer_state\<close> of \<^verbatim>\<open>devp2p/src/rlpx.rs\<close>) that takes the next event of the server and writes it, and
  \<open>peer_in\<close> a round of the ingress router that reads one message and hands it to the server, with what
  the server forwards to its control service.
\<close>

record ('sk, 'pk, 'c, 'ff) sentry_end =
  se_server :: "'ff cap_server"
  se_stream :: "('sk, 'pk, 'c) codec peer_stream"

text \<open>\<open>None\<close>: there is no event yet, or the task does not go on.\<close>

definition peer_out :: "rlp_api \<Rightarrow> ('sk, 'pk, 'c) crypto \<Rightarrow> snappy_api \<Rightarrow> 'sk enc_rand \<Rightarrow> peer_id
    \<Rightarrow> ('sk, 'pk, 'c, 'ff) sentry_end \<Rightarrow> bytes \<Rightarrow> (bytes \<times> ('sk, 'pk, 'c, 'ff) sentry_end) option" where
  "peer_out R C Z rnd peer x buf =
     (case next_event peer (se_server x) of
        (Ok (Some ev), s) \<Rightarrow>
          (case egress_select (FromServer ev) of
             (_, Some m, _, _) \<Rightarrow>
               map_option (\<lambda>(out, p). (out, x\<lparr>se_server := s, se_stream := p\<rparr>)) (peer_send R C Z rnd m buf (se_stream x))
           | (_, None, _, _) \<Rightarrow> Some (buf, x\<lparr>se_server := s\<rparr>))
      | _ \<Rightarrow> None)"

text \<open>
  What the server makes of a message: the events for its control service, and its next state, with the
  reply put into the channel of the peer. \<open>None\<close>: the handler panics.
\<close>

definition server_handles :: "('ff, 'fid) cap_env \<Rightarrow> peer_id \<Rightarrow> bytes \<Rightarrow> message \<Rightarrow> 'ff cap_server
    \<Rightarrow> (inbound_message list \<times> 'ff cap_server) option" where
  "server_handles env peer name msg srv =
     (case on_peer_event env peer (InMessage name msg) srv of
        ((Ok reply, forwarded), s) \<Rightarrow>
          map_option (Pair forwarded) (case reply of None \<Rightarrow> Some s | Some ev \<Rightarrow> pipe_send peer ev s)
      | _ \<Rightarrow> None)"

definition peer_in :: "rlp_api \<Rightarrow> ('sk, 'pk, 'c) crypto \<Rightarrow> snappy_api \<Rightarrow> ('ff, 'fid) cap_env \<Rightarrow> peer_id
    \<Rightarrow> ('sk, 'pk, 'c, 'ff) sentry_end \<Rightarrow> bytes
    \<Rightarrow> (inbound_message list \<times> ('sk, 'pk, 'c, 'ff) sentry_end \<times> bytes) option" where
  "peer_in R C Z env peer x buf =
     (case peer_recv R C Z (se_stream x) buf of
        None \<Rightarrow> None
      | Some (m, p, rest) \<Rightarrow>
          (case fst (ingress_router [Ok m]) of
             IngressEvent name msg # _ \<Rightarrow>
               map_option (\<lambda>(forwarded, s). (forwarded, x\<lparr>se_server := s, se_stream := p\<rparr>, rest))
                 (server_handles env peer name msg (se_server x))
           | _ \<Rightarrow> Some ([], x\<lparr>se_stream := p\<rparr>, rest)))"

text \<open>A peer with nothing waiting for it.\<close>

abbreviation idle :: "peer_id \<Rightarrow> 'ff cap_server \<Rightarrow> bool" where
  "idle p s \<equiv> get_pipes p s = Some \<lparr>pp_first = [], pp_queue = []\<rparr>"

abbreviation waiting :: "peer_id \<Rightarrow> outbound_event \<Rightarrow> 'ff cap_server \<Rightarrow> bool" where
  "waiting p ev s \<equiv> get_pipes p s = Some \<lparr>pp_first = [], pp_queue = [ev]\<rparr>"

lemma pipe_send_idle:
  assumes "idle p s"
  shows "\<exists>s'. pipe_send p ev s = Some s' \<and> waiting p ev s' \<and> valid_peers s' = valid_peers s \<and> cs_status s' = cs_status s"
  using assms by (simp add: pipe_send_def get_pipes_def update_conv')

lemma next_event_waiting:
  assumes "waiting p ev s"
  shows "\<exists>s'. next_event p s = (Ok (Some ev), s') \<and> idle p s' \<and> valid_peers s' = valid_peers s \<and> cs_status s' = cs_status s"
  using assms by (simp add: next_event_def get_pipes_def update_conv')

lemma peers_linked_sym: "peers_linked cap a b \<Longrightarrow> peers_linked cap b a"
  by (auto simp: peers_linked_def intro: codec_linked_sym)

text \<open>One event from the channel of one server to the other's.\<close>

lemma first_event_crosses:
  assumes ok: "rlp_ok R" "crypto_ok C" "snappy_ok Z"
    and l: "peers_linked cap (se_stream a) (se_stream b)"
    and w: "next_event pb (se_server a) = (Ok (Some (OutMessage name msg)), s)" and m: "sendable cap (PSubprotocol name msg)"
  shows "\<exists>f a' p. peer_out R C Z rnd pb a [] = Some (f, a') \<and> se_server a' = s \<and> peers_linked cap (se_stream a') p \<and>
    (\<forall>rest. peer_in R C Z env pa b (f @ rest) =
       map_option (\<lambda>(forwarded, s). (forwarded, b\<lparr>se_server := s, se_stream := p\<rparr>, rest))
         (server_handles env pa name msg (se_server b)))"
proof -
  obtain f a' p where f: "\<And>buf. peer_send R C Z rnd (PSubprotocol name msg) buf (se_stream a) = Some (buf @ f, a')"
    "\<And>rest. peer_recv R C Z (se_stream b) (f @ rest) = Some (PSubprotocol name msg, p, rest)" "peers_linked cap a' p"
    using peer_one_message [OF ok l m] by metis
  have "peer_out R C Z rnd pb a [] = Some (f, a\<lparr>se_server := s, se_stream := a'\<rparr>)"
    using w f(1) [of "[]"] by (simp add: peer_out_def)
  then show ?thesis using f(2,3) by (intro exI [of _ f] exI [of _ "a\<lparr>se_server := s, se_stream := a'\<rparr>"] exI [of _ p])
      (simp add: peer_in_def)
qed

lemma event_crosses:
  assumes ok: "rlp_ok R" "crypto_ok C" "snappy_ok Z"
    and l: "peers_linked cap (se_stream a) (se_stream b)"
    and w: "waiting pb (OutMessage name msg) (se_server a)" and m: "sendable cap (PSubprotocol name msg)"
  shows "\<exists>f a' p. peer_out R C Z rnd pb a [] = Some (f, a') \<and>
    idle pb (se_server a') \<and> valid_peers (se_server a') = valid_peers (se_server a) \<and>
    peers_linked cap (se_stream a') p \<and>
    (\<forall>rest. peer_in R C Z env pa b (f @ rest) =
       map_option (\<lambda>(forwarded, s). (forwarded, b\<lparr>se_server := s, se_stream := p\<rparr>, rest))
         (server_handles env pa name msg (se_server b)))"
proof -
  obtain s where s: "next_event pb (se_server a) = (Ok (Some (OutMessage name msg)), s)" "idle pb s"
    "valid_peers s = valid_peers (se_server a)"
    using next_event_waiting [OF w] by blast
  show ?thesis using first_event_crosses [OF ok l s(1) m, of rnd env pa] s(2,3) by (elim exE conjE) (intro exI conjI; simp)
qed

section \<open>A request and its answer\<close>

lemma request_handled:
  assumes "pa \<in> valid_peers s" "get_pipes pa s = Some pp" "pipe_send pa (OutMessage capability_name reply) s = Some t" "answer_headers env d = Ok reply"
  shows "server_handles env pa name \<lparr>msg_id = mid_to_usize GetBlockHeaders, msg_data = d\<rparr> s = Some ([], t)"
proof -
  have "mid_from_usize 3 = Some GetBlockHeaders" using mid_from_to [of GetBlockHeaders] by simp
  then show ?thesis using assms by (simp add: server_handles_def on_peer_event_def handle_event_def Let_def)
qed

lemma answer_forwarded:
  assumes "pb \<in> valid_peers s"
  shows "server_handles env pb name \<lparr>msg_id = mid_to_usize BlockHeaders, msg_data = d\<rparr> s =
    Some ([\<lparr>im_id = InBlockHeaders, im_data = d, im_peer_id = pb\<rparr>], s)"
proof -
  have "mid_from_usize 4 = Some BlockHeaders" using mid_from_to [of BlockHeaders] by simp
  then show ?thesis using assms by (simp add: server_handles_def on_peer_event_def handle_event_def Let_def)
qed

text \<open>The connection of two sentries that have found each other valid, with nothing on its way.\<close>

definition relay_ready :: "capability_info \<Rightarrow> peer_id \<Rightarrow> peer_id \<Rightarrow> ('sk, 'pk, 'c, 'ff) sentry_end \<Rightarrow> ('sk, 'pk, 'c, 'ff) sentry_end \<Rightarrow> bool" where
  "relay_ready cap pa pb a b \<longleftrightarrow>
     ci_name cap = capability_name \<and> 17 \<le> ci_length cap \<and> peers_linked cap (se_stream a) (se_stream b) \<and>
     idle pb (se_server a) \<and> pb \<in> valid_peers (se_server a) \<and> idle pa (se_server b) \<and> pa \<in> valid_peers (se_server b)"

lemma request_crosses:
  assumes ok: "rlp_ok R" "crypto_ok C" "snappy_ok Z" and ready: "relay_ready cap pa pb a b" and pb: "length pb = 64"
    and req: "length d \<le> 2 ^ 23" and ans: "answer_headers env d = Ok \<lparr>msg_id = mid_to_usize BlockHeaders, msg_data = h\<rparr>" "length h \<le> 2 ^ 23"
  shows "\<exists>s f a1 b1 g b2 a2.
    send_message_by_id pb (Some \<lparr>om_id = 0, om_data = d\<rparr>) (se_server a) = Ok (([pb], []), s) \<and>
    peer_out R C Z rnd pb (a\<lparr>se_server := s\<rparr>) [] = Some (f, a1) \<and>
    (\<forall>rest. peer_in R C Z env pa b (f @ rest) = Some ([], b1, rest)) \<and>
    peer_out R C Z rnd' pa b1 [] = Some (g, b2) \<and>
    (\<forall>rest. peer_in R C Z env' pb a1 (g @ rest) =
       Some ([\<lparr>im_id = InBlockHeaders, im_data = h, im_peer_id = pb\<rparr>], a2, rest)) \<and>
    relay_ready cap pa pb a2 b2"
proof -
  have r: "ci_name cap = capability_name" "17 \<le> ci_length cap" "peers_linked cap (se_stream a) (se_stream b)"
    "idle pb (se_server a)" "pb \<in> valid_peers (se_server a)" "idle pa (se_server b)" "pa \<in> valid_peers (se_server b)"
    using ready by (simp_all add: relay_ready_def)
  let ?req = "\<lparr>msg_id = mid_to_usize GetBlockHeaders, msg_data = d\<rparr>"
  let ?ans = "\<lparr>msg_id = mid_to_usize BlockHeaders, msg_data = h\<rparr>"
  have send: "sendable cap (PSubprotocol capability_name ?req)" "sendable cap (PSubprotocol capability_name ?ans)"
    using r(1,2) req ans(2) by (simp_all add: sendable_def)
  obtain s where s: "pipe_send pb (OutMessage capability_name ?req) (se_server a) = Some s"
    "waiting pb (OutMessage capability_name ?req) s" "valid_peers s = valid_peers (se_server a)"
    using pipe_send_idle [OF r(4)] by blast
  have 1: "send_message_by_id pb (Some \<lparr>om_id = 0, om_data = d\<rparr>) (se_server a) = Ok (([pb], []), s)"
    using pb s(1) r(4) by (simp add: send_message_by_id_def parse_peer_id_def send_by_predicate_def from_outbound_message_id_def)
  let ?a = "a\<lparr>se_server := s\<rparr>"
  have w: "waiting pb (OutMessage capability_name ?req) (se_server ?a)" "peers_linked cap (se_stream ?a) (se_stream b)"
    using s(2) r(3) by simp_all
  obtain f a1 p where f: "peer_out R C Z rnd pb ?a [] = Some (f, a1)" "idle pb (se_server a1)"
    "valid_peers (se_server a1) = valid_peers (se_server ?a)" "peers_linked cap (se_stream a1) p"
    "\<forall>rest. peer_in R C Z env pa b (f @ rest) =
       map_option (\<lambda>(forwarded, s). (forwarded, b\<lparr>se_server := s, se_stream := p\<rparr>, rest))
         (server_handles env pa capability_name ?req (se_server b))"
    using event_crosses [OF ok w(2,1) send(1), of rnd env pa] by (elim exE conjE) (rule that)
  obtain t where t: "pipe_send pa (OutMessage capability_name ?ans) (se_server b) = Some t"
    "waiting pa (OutMessage capability_name ?ans) t" "valid_peers t = valid_peers (se_server b)"
    using pipe_send_idle [OF r(6)] by blast
  let ?b = "b\<lparr>se_server := t, se_stream := p\<rparr>"
  have 2: "peer_in R C Z env pa b (f @ rest) = Some ([], ?b, rest)" for rest
    by (rule trans [OF f(5) [THEN spec]]) (simp add: request_handled [OF r(7,6) t(1) ans(1), simplified])
  have w': "waiting pa (OutMessage capability_name ?ans) (se_server ?b)" "peers_linked cap (se_stream ?b) (se_stream a1)"
    using t(2) peers_linked_sym [OF f(4)] by simp_all
  obtain g b2 q where g: "peer_out R C Z rnd' pa ?b [] = Some (g, b2)" "idle pa (se_server b2)"
    "valid_peers (se_server b2) = valid_peers (se_server ?b)" "peers_linked cap (se_stream b2) q"
    "\<forall>rest. peer_in R C Z env' pb a1 (g @ rest) =
       map_option (\<lambda>(forwarded, s). (forwarded, a1\<lparr>se_server := s, se_stream := q\<rparr>, rest))
         (server_handles env' pb capability_name ?ans (se_server a1))"
    using event_crosses [OF ok w'(2,1) send(2), of rnd' env' pb] by (elim exE conjE) (rule that)
  have valid: "pb \<in> valid_peers (se_server a1)" using f(3) s(3) r(5) by simp
  have 3: "peer_in R C Z env' pb a1 (g @ rest) =
      Some ([\<lparr>im_id = InBlockHeaders, im_data = h, im_peer_id = pb\<rparr>], a1\<lparr>se_stream := q\<rparr>, rest)" for rest
    by (rule trans [OF g(5) [THEN spec]]) (simp add: answer_forwarded [OF valid, simplified])
  have ready': "relay_ready cap pa pb (a1\<lparr>se_stream := q\<rparr>) b2"
    using r(1,2,7) peers_linked_sym [OF g(4)] f(2) valid g(2,3) t(3) by (simp add: relay_ready_def)
  show ?thesis
    by (intro exI conjI allI) (rule 1 f(1) 2 g(1) 3 ready')+
qed

text \<open>
  C3. A client of one sentry gets headers from the chain behind another. The client asks its sentry to
  send a request, one whose numbers can be collected, to a peer that is a sentry with a data service; the request crosses the connection and
  is answered with the headers of the chain at the requested numbers, up to the first that is missing;
  the answer crosses back and is forwarded, as it is and under the id of the peer, to the control
  service of the first sentry; and the connection is as it was.
\<close>

theorem headers_relayed:
  assumes "rlp_ok R" "crypto_ok C" "snappy_ok Z" "relay_ready cap pa pb a b" "length pb = 64"
    and "serves_chain c hash chain" "get_block_headers_decode R d = Some q" "anchor_of number c (gb_block q) n"
    and "query_fits bd q" "header_numbers (bd_checked bd) n q = (Ok ns :: (disconnect_reason, u64 list) outcome)"
    and "h = rl_out R (RList (map header_rlp (until_error (map chain ns))))"
    and "length d \<le> 2 ^ 23" "length h \<le> 2 ^ 23"
  shows "\<exists>s f a1 b1 g b2 a2.
    send_message_by_id pb (Some \<lparr>om_id = 0, om_data = d\<rparr>) (se_server a) = Ok (([pb], []), s) \<and>
    peer_out R C Z rnd pb (a\<lparr>se_server := s\<rparr>) [] = Some (f, a1) \<and>
    (\<forall>rest. peer_in R C Z (tarpc_env bd R F number header_rlp body_rlp c) pa b (f @ rest) = Some ([], b1, rest)) \<and>
    peer_out R C Z rnd' pa b1 [] = Some (g, b2) \<and>
    (\<forall>rest. peer_in R C Z env' pb a1 (g @ rest) =
       Some ([\<lparr>im_id = InBlockHeaders, im_data = h, im_peer_id = pb\<rparr>], a2, rest)) \<and>
    relay_ready cap pa pb a2 b2"
proof (rule request_crosses [OF assms(1-5,12) _ assms(13)])
  show "answer_headers (tarpc_env bd R F number header_rlp body_rlp c) d = Ok \<lparr>msg_id = mid_to_usize BlockHeaders, msg_data = h\<rparr>"
    unfolding assms(11)
    using tarpc.answered_from_chain [OF assms(6) refl refl _ assms(8), of bd R F header_rlp body_rlp d] assms(7,9,10)
    by (simp add: until_error_map) (simp add: tarpc_env_def)
qed

section \<open>Witness\<close>

definition demo_end :: "peer_id \<Rightarrow> (byte, byte, unit, unit) sentry_end" where
  "demo_end peer = \<lparr>se_server = new_cap_server\<lparr>peer_pipes := [(peer, \<lparr>pp_first = [], pp_queue = []\<rparr>)], valid_peers := {peer}\<rparr>,
     se_stream = demo_peer [eth_cap 65] True\<rparr>"

lemma demo_ready: "relay_ready (eth_cap 65) pa pb (demo_end pb) (demo_end pa)"
  by (simp add: relay_ready_def demo_end_def peers_linked_def single_cap_def demo_peer_def eth_cap_def demo_codec_linked
      get_pipes_def eth_name_def capability_name_def)

lemma demo_request_short: "length (rl_out demo_rlp (get_block_headers_rlp demo_number_request)) \<le> 2 ^ 23"
  by (simp add: demo_rlp_def get_block_headers_rlp_def demo_number_request_def tagged_def Let_def digits256.simps)

theorem headers_relayed_witness:
  "\<exists>s f a1 b1 g b2 a2.
    send_message_by_id (replicate 64 2) (Some \<lparr>om_id = 0, om_data = rl_out demo_rlp (get_block_headers_rlp demo_number_request)\<rparr>)
      (se_server (demo_end (replicate 64 2))) = Ok (([replicate 64 2], []), s) \<and>
    peer_out demo_rlp demo_crypto demo_snappy demo_rand (replicate 64 2) ((demo_end (replicate 64 2))\<lparr>se_server := s\<rparr>) [] = Some (f, a1) \<and>
    (\<forall>rest. peer_in demo_rlp demo_crypto demo_snappy (tarpc_env demo_build demo_rlp demo_fork id RUint (\<lambda>b. RList []) demo_client)
       (replicate 64 1) (demo_end (replicate 64 1)) (f @ rest) = Some ([], b1, rest)) \<and>
    peer_out demo_rlp demo_crypto demo_snappy demo_rand (replicate 64 1) b1 [] = Some (g, b2) \<and>
    (\<forall>rest. peer_in demo_rlp demo_crypto demo_snappy demo_env (replicate 64 2) a1 (g @ rest) =
       Some ([\<lparr>im_id = InBlockHeaders, im_data = rl_out demo_rlp (RList [RUint 1, RUint 2]), im_peer_id = replicate 64 2\<rparr>], a2, rest)) \<and>
    relay_ready (eth_cap 65) (replicate 64 1) (replicate 64 2) a2 b2"
proof (rule headers_relayed [OF demo_rlp_ok demo_crypto_ok demo_snappy_ok demo_ready _ demo_client_serves])
  show "get_block_headers_decode demo_rlp (rl_out demo_rlp (get_block_headers_rlp demo_number_request)) = Some demo_number_request"
    by (rule headers_codec.dec_enc_whole) (simp_all add: demo_rlp_ok demo_number_request_def)
  show "anchor_of id demo_client (gb_block demo_number_request) 1"
    by (simp add: anchor_of_def demo_number_request_def)
  show "rl_out demo_rlp (RList [RUint 1, RUint 2]) = rl_out demo_rlp (RList (map RUint (until_error (map demo_chain [1, 2, 3, 4, 5]))))"
    unfolding demo_numbers(3) by simp
  show "length (rl_out demo_rlp (RList [RUint 1, RUint 2])) \<le> 2 ^ 23"
    by (simp add: demo_rlp_def tagged_def Let_def digits256.simps)
qed (simp, rule demo_numbers, rule demo_numbers, rule demo_request_short)

section \<open>The exchange of statuses\<close>

text \<open>The status a sentry greets its peers with.\<close>

definition greeting :: "('ff, 'fid) fork_api \<Rightarrow> nat \<Rightarrow> status_data \<times> 'ff \<Rightarrow> 'fid status_message" where
  "greeting F version x = \<lparr>sm_protocol_version = version, sm_network_id = sd_network_id (fst x),
     sm_total_difficulty = sd_total_difficulty (fst x), sm_best_hash = sd_best_hash (fst x),
     sm_genesis_hash = fk_genesis (sd_fork_data (fst x)), sm_fork_id = fk_current F (snd x)\<rparr>"

lemma connected_greets:
  assumes "peer \<notin> all_peers s" "cs_status s = Some x" "env_rlp env = R" "env_fork env = F"
    and "map_of caps capability_name = Some v"
  shows "\<exists>s1 s2. on_peer_connect env peer caps s = (Ok (), s1) \<and>
    next_event peer s1 = (Ok (Some (OutMessage capability_name
      \<lparr>msg_id = mid_to_usize Status, msg_data = rl_out R (status_rlp F (greeting F v x))\<rparr>)), s2) \<and>
    idle peer s2 \<and> cs_status s2 = Some x \<and> valid_peers s2 = valid_peers s \<and> get_pipes peer s1 \<noteq> None \<and> cs_status s1 = Some x \<and>
    valid_peers s1 = valid_peers s"
proof -
  have "map_of (peer_pipes s) peer = None" using assms(1) get_pipes_iff [of peer s] by (simp add: get_pipes_def)
  then show ?thesis using assms(2-)
    by (cases x) (simp add: on_peer_connect_def first_events_def setup_peer_def next_event_def get_pipes_def update_conv' greeting_def)
qed

lemma status_handled:
  assumes "rlp_ok R" "fork_ok R F" "env_rlp env = R" "env_fork env = F" "status_ok m"
    and "cs_status s = Some (d, ff)" "fk_validate F ff (sm_fork_id m)"
  shows "server_handles env pa name \<lparr>msg_id = mid_to_usize Status, msg_data = rl_out R (status_rlp F m)\<rparr> s =
    Some ([], s\<lparr>valid_peers := insert pa (valid_peers s)\<rparr>)"
proof -
  have "mid_from_usize 0 = Some Status" using mid_from_to [of Status] by simp
  moreover have "status_decode R F (rl_out R (status_rlp F m)) = Some m"
    using status_codec.dec_enc_whole [of R F m] assms(1,2,5) by simp
  ultimately show ?thesis using assms(3,4,6,7)
    by (simp add: server_handles_def on_peer_event_def handle_event_def handle_status_def Let_def st_bind_def)
qed

lemma next_event_valid:
  "next_event p s = (r, t) \<Longrightarrow> next_event p (s\<lparr>valid_peers := V\<rparr>) = (r, t\<lparr>valid_peers := V\<rparr>)"
  by (cases "get_pipes p s") (auto simp: next_event_def st_bind_def get_pipes_def split: list.splits)

lemma idle_valid: "idle p (s\<lparr>valid_peers := V\<rparr>) = idle p s"
  by (simp add: get_pipes_def)

text \<open>The status of one end crosses, and the other end counts its sender as valid.\<close>

abbreviation status_event :: "rlp_api \<Rightarrow> ('ff, 'fid) fork_api \<Rightarrow> nat \<Rightarrow> status_data \<times> 'ff \<Rightarrow> message" where
  "status_event R F v x \<equiv> \<lparr>msg_id = mid_to_usize Status, msg_data = rl_out R (status_rlp F (greeting F v x))\<rparr>"

definition greeting_ok :: "rlp_api \<Rightarrow> ('ff, 'fid) fork_api \<Rightarrow> nat \<Rightarrow> status_data \<times> 'ff \<Rightarrow> bool" where
  "greeting_ok R F v x \<longleftrightarrow> status_ok (greeting F v x) \<and> length (rl_out R (status_rlp F (greeting F v x))) \<le> 2 ^ 23"

lemma greeting_crosses:
  assumes ok: "rlp_ok R" "crypto_ok C" "snappy_ok Z" "fork_ok R F" and env: "env_rlp env = R" "env_fork env = F"
    and cap: "ci_name cap = capability_name" "17 \<le> ci_length cap" and l: "peers_linked cap (se_stream a) (se_stream b)"
    and next_ev: "next_event pb (se_server a) = (Ok (Some (OutMessage capability_name (status_event R F v x))), s)"
    and b: "cs_status (se_server b) = Some y" "fk_validate F (snd y) (fk_current F (snd x))"
    and x: "greeting_ok R F v x"
  shows "\<exists>f a' b'. peer_out R C Z rnd pb a [] = Some (f, a') \<and>
    (\<forall>rest. peer_in R C Z env pa b (f @ rest) = Some ([], b', rest)) \<and> se_server a' = s \<and>
    se_server b' = (se_server b)\<lparr>valid_peers := insert pa (valid_peers (se_server b))\<rparr> \<and> peers_linked cap (se_stream a') (se_stream b')"
proof -
  have send: "sendable cap (PSubprotocol capability_name (status_event R F v x))"
    using cap x by (simp add: sendable_def greeting_ok_def)
  obtain f a' p where f: "peer_out R C Z rnd pb a [] = Some (f, a')" "se_server a' = s" "peers_linked cap (se_stream a') p"
    "\<forall>rest. peer_in R C Z env pa b (f @ rest) =
       map_option (\<lambda>(forwarded, s). (forwarded, b\<lparr>se_server := s, se_stream := p\<rparr>, rest))
         (server_handles env pa capability_name (status_event R F v x) (se_server b))"
    using first_event_crosses [OF ok(1-3) l next_ev send, of rnd env pa] by (elim exE conjE) (rule that)
  have "server_handles env pa capability_name (status_event R F v x) (se_server b) =
      Some ([], (se_server b)\<lparr>valid_peers := insert pa (valid_peers (se_server b))\<rparr>)"
    using status_handled [OF ok(1,4) env, of "greeting F v x" "se_server b" "fst y" "snd y"] b x
    by (simp add: greeting_ok_def greeting_def)
  with f show ?thesis
    by (intro exI [of _ f] exI [of _ a'] exI [of _ "b\<lparr>se_server := (se_server b)\<lparr>valid_peers := insert pa (valid_peers (se_server b))\<rparr>,
        se_stream := p\<rparr>"]) simp
qed

text \<open>Both ways, between servers that have just been told of the connection.\<close>

lemma statuses_exchanged:
  assumes ok: "rlp_ok R" "crypto_ok C" "snappy_ok Z" "fork_ok R F"
    and env: "env_rlp ea = R" "env_fork ea = F" "env_rlp eb = R" "env_fork eb = F"
    and cap: "ci_name cap = capability_name" "17 \<le> ci_length cap" and linked: "peers_linked cap p q"
    and new: "pb \<notin> all_peers sa" "pa \<notin> all_peers sb" and status: "cs_status sa = Some xa" "cs_status sb = Some xb"
    and forks: "fk_validate F (snd xa) (fk_current F (snd xb))" "fk_validate F (snd xb) (fk_current F (snd xa))"
    and sizes: "greeting_ok R F (ci_version cap) xa" "greeting_ok R F (ci_version cap) xb"
  shows "\<exists>sa1 sb1 f a1 b1 g b2 a2.
    on_peer_connect ea pb [(capability_name, ci_version cap)] sa = (Ok (), sa1) \<and>
    on_peer_connect eb pa [(capability_name, ci_version cap)] sb = (Ok (), sb1) \<and>
    peer_out R C Z rnd pb \<lparr>se_server = sa1, se_stream = p\<rparr> [] = Some (f, a1) \<and>
    (\<forall>rest. peer_in R C Z eb pa \<lparr>se_server = sb1, se_stream = q\<rparr> (f @ rest) = Some ([], b1, rest)) \<and>
    peer_out R C Z rnd' pa b1 [] = Some (g, b2) \<and>
    (\<forall>rest. peer_in R C Z ea pb a1 (g @ rest) = Some ([], a2, rest)) \<and>
    relay_ready cap pa pb a2 b2"
proof -
  have v: "map_of [(capability_name, ci_version cap)] capability_name = Some (ci_version cap)" by simp
  obtain sa1 sa2 where a: "on_peer_connect ea pb [(capability_name, ci_version cap)] sa = (Ok (), sa1)"
    "next_event pb sa1 = (Ok (Some (OutMessage capability_name (status_event R F (ci_version cap) xa))), sa2)"
    "idle pb sa2" "cs_status sa2 = Some xa"
    using connected_greets [OF new(1) status(1) env(1,2) v] by (elim exE conjE) (rule that)
  obtain sb1 sb2 where b: "on_peer_connect eb pa [(capability_name, ci_version cap)] sb = (Ok (), sb1)"
    "next_event pa sb1 = (Ok (Some (OutMessage capability_name (status_event R F (ci_version cap) xb))), sb2)"
    "idle pa sb2" "cs_status sb1 = Some xb"
    using connected_greets [OF new(2) status(2) env(3,4) v] by (elim exE conjE) (rule that)
  let ?a = "\<lparr>se_server = sa1, se_stream = p\<rparr>" and ?b = "\<lparr>se_server = sb1, se_stream = q\<rparr>"
  obtain f a1 b1 where f: "peer_out R C Z rnd pb ?a [] = Some (f, a1)"
    "\<forall>rest. peer_in R C Z eb pa ?b (f @ rest) = Some ([], b1, rest)" "se_server a1 = sa2"
    "se_server b1 = (se_server ?b)\<lparr>valid_peers := insert pa (valid_peers (se_server ?b))\<rparr>" "peers_linked cap (se_stream a1) (se_stream b1)"
    using greeting_crosses [OF ok env(3,4) cap _ _ _ forks(2) sizes(1), of ?a ?b pb sa2 rnd pa] linked a(2) b(4) that by auto
  have nb: "next_event pa (se_server b1) = (Ok (Some (OutMessage capability_name (status_event R F (ci_version cap) xb))),
      sb2\<lparr>valid_peers := insert pa (valid_peers sb1)\<rparr>)"
    using next_event_valid [OF b(2)] f(4) by simp
  have sa: "cs_status (se_server a1) = Some xa" using f(3) a(4) by simp
  obtain g b2 a2 where g: "peer_out R C Z rnd' pa b1 [] = Some (g, b2)"
    "\<forall>rest. peer_in R C Z ea pb a1 (g @ rest) = Some ([], a2, rest)"
    "se_server b2 = sb2\<lparr>valid_peers := insert pa (valid_peers sb1)\<rparr>"
    "se_server a2 = (se_server a1)\<lparr>valid_peers := insert pb (valid_peers (se_server a1))\<rparr>" "peers_linked cap (se_stream b2) (se_stream a2)"
    using greeting_crosses [OF ok env(1,2) cap peers_linked_sym [OF f(5)] nb sa forks(1) sizes(2), of rnd' pb]
    by (elim exE conjE) (rule that)
  have ready: "relay_ready cap pa pb a2 b2"
    using cap peers_linked_sym [OF g(5)] a(3) b(3) g(3,4) f(3) by (simp add: relay_ready_def idle_valid)
  show ?thesis by (intro exI conjI) (rule a(1) b(1) f(1,2) g(1,2) ready)+
qed

text \<open>
  C4. Two sentries that have connected become valid for each other. Each announces the peer to its
  server, whose first event is its status; when both have a status and each one's fork filter accepts
  the other's fork, the two statuses cross the connection, nobody is kicked, each server counts the
  other as valid, and requests can be relayed.
\<close>

theorem sentries_become_valid:
  assumes ok: "rlp_ok R" "crypto_ok C" "snappy_ok Z" "fork_ok R F"
    and env: "env_rlp ea = R" "env_fork ea = F" "env_rlp eb = R" "env_fork eb = F"
    and cap: "ci_name cap = capability_name" "17 \<le> ci_length cap"
    and linked: "peers_linked cap p q"
    and new: "pb \<notin> all_peers sa" "pa \<notin> all_peers sb"
    and status: "cs_status sa = Some xa" "cs_status sb = Some xb"
    and forks: "fk_validate F (snd xa) (fk_current F (snd xb))" "fk_validate F (snd xb) (fk_current F (snd xa))"
    and sizes: "status_ok (greeting F (ci_version cap) xa)" "status_ok (greeting F (ci_version cap) xb)"
      "length (rl_out R (status_rlp F (greeting F (ci_version cap) xa))) \<le> 2 ^ 23"
      "length (rl_out R (status_rlp F (greeting F (ci_version cap) xb))) \<le> 2 ^ 23"
  shows "\<exists>sa1 sb1 f a1 b1 g b2 a2.
    on_peer_connect ea pb (capability_map (ps_shared_capabilities p)) sa = (Ok (), sa1) \<and>
    on_peer_connect eb pa (capability_map (ps_shared_capabilities q)) sb = (Ok (), sb1) \<and>
    peer_out R C Z rnd pb \<lparr>se_server = sa1, se_stream = p\<rparr> [] = Some (f, a1) \<and>
    (\<forall>rest. peer_in R C Z eb pa \<lparr>se_server = sb1, se_stream = q\<rparr> (f @ rest) = Some ([], b1, rest)) \<and>
    peer_out R C Z rnd' pa b1 [] = Some (g, b2) \<and>
    (\<forall>rest. peer_in R C Z ea pb a1 (g @ rest) = Some ([], a2, rest)) \<and>
    relay_ready cap pa pb a2 b2"
proof -
  have "capability_map (ps_shared_capabilities p) = [(capability_name, ci_version cap)]"
    "capability_map (ps_shared_capabilities q) = [(capability_name, ci_version cap)]"
    using linked cap(1) by (simp_all add: peers_linked_def single_cap_def capability_map_def)
  moreover have "greeting_ok R F (ci_version cap) xa" "greeting_ok R F (ci_version cap) xb"
    using sizes by (simp_all add: greeting_ok_def)
  note statuses_exchanged [OF ok env cap linked new status forks this, of rnd rnd']
  ultimately show ?thesis by simp
qed

lemma demo_greeting_short:
  "length (rl_out demo_rlp (status_rlp demo_fork (greeting demo_fork 65 (demo_status, ())))) \<le> 2 ^ 23"
proof -
  note len = rlp_okD(8-10) [OF demo_rlp_ok]
  have "length (rl_out demo_rlp (RData (replicate 32 1))) \<le> 41" "length (rl_out demo_rlp (RData (replicate 32 2))) \<le> 41"
    "length (rl_out demo_rlp (RData [1, 2])) \<le> 11"
    using len(2) [of "replicate 32 1"] len(2) [of "replicate 32 2"] len(2) [of "[1, 2]"] by simp_all
  then show ?thesis
    using len(1) [of 65] len(1) [of 1] len(1) [of 17]
      len(3) [of "[RUint 65, RUint 1, RUint 17, RData (replicate 32 1), RData (replicate 32 2), RData [1, 2]]"]
    by (simp add: status_rlp_def greeting_def demo_status_def demo_fork_def)
qed

theorem sentries_become_valid_witness:
  "\<exists>sa1 sb1 f a1 b1 g b2 a2.
    on_peer_connect demo_env [2] (capability_map (ps_shared_capabilities (demo_peer [eth_cap 65] True))) demo_server = (Ok (), sa1) \<and>
    on_peer_connect demo_env [1] (capability_map (ps_shared_capabilities (demo_peer [eth_cap 65] True))) demo_server = (Ok (), sb1) \<and>
    peer_out demo_rlp demo_crypto demo_snappy demo_rand [2] \<lparr>se_server = sa1, se_stream = demo_peer [eth_cap 65] True\<rparr> [] = Some (f, a1) \<and>
    (\<forall>rest. peer_in demo_rlp demo_crypto demo_snappy demo_env [1] \<lparr>se_server = sb1, se_stream = demo_peer [eth_cap 65] True\<rparr> (f @ rest) =
       Some ([], b1, rest)) \<and>
    peer_out demo_rlp demo_crypto demo_snappy demo_rand [1] b1 [] = Some (g, b2) \<and>
    (\<forall>rest. peer_in demo_rlp demo_crypto demo_snappy demo_env [2] a1 (g @ rest) = Some ([], a2, rest)) \<and>
    relay_ready (eth_cap 65) [1] [2] a2 b2"
proof (rule sentries_become_valid [OF demo_rlp_ok demo_crypto_ok demo_snappy_ok demo_fork_ok,
    where xa = "(demo_status, ())" and xb = "(demo_status, ())"])
  show "length (rl_out demo_rlp (status_rlp demo_fork (greeting demo_fork (ci_version (eth_cap 65)) (demo_status, ())))) \<le> 2 ^ 23"
    "length (rl_out demo_rlp (status_rlp demo_fork (greeting demo_fork (ci_version (eth_cap 65)) (demo_status, ())))) \<le> 2 ^ 23"
    using demo_greeting_short by (simp_all add: eth_cap_def)
  show "peers_linked (eth_cap 65) (demo_peer [eth_cap 65] True) (demo_peer [eth_cap 65] True)"
    by (simp add: peers_linked_def single_cap_def demo_peer_def eth_cap_def demo_codec_linked)
  show "status_ok (greeting demo_fork (ci_version (eth_cap 65)) (demo_status, ()))"
    "status_ok (greeting demo_fork (ci_version (eth_cap 65)) (demo_status, ()))"
    by (simp_all add: status_ok_def greeting_def demo_status_def eth_cap_def)
  show "fk_validate demo_fork (snd (demo_status, ())) (fk_current demo_fork (snd (demo_status, ())))"
    "fk_validate demo_fork (snd (demo_status, ())) (fk_current demo_fork (snd (demo_status, ())))"
    by (simp_all add: demo_fork_def)
qed (simp_all add: demo_server_inv, simp_all add: demo_env_def demo_server_def eth_cap_def eth_name_def capability_name_def)

end
