(* ===== verification/Setup.thy ===== *)
theory Setup
  imports Relay Discovery Discv4_Exchange
begin

text \<open>
  How a sentry is put together: the options of \<^verbatim>\<open>src/config.rs\<close>, what \<open>main\<close> of \<^verbatim>\<open>src/main.rs\<close> makes of them, and
  the builder of the swarm in \<^verbatim>\<open>devp2p/src/rlpx.rs\<close>. The parser of the file, of keys and of addresses, the
  sockets and the remote services are parameters: whether they are there, and what they give.
\<close>

section \<open>The options\<close>

definition DEFAULT_DNS_ADDRESS :: string where "DEFAULT_DNS_ADDRESS = ''all.mainnet.ethdisco.net''"

record discv4_config =
  d4_port :: u16
  d4_bootnodes :: "node_record list"
  d4_cache :: nat
  d4_concurrent_lookups :: nat

record 'enr discv5_config =
  d5_enr :: "'enr option"
  d5_addr :: string
  d5_bootnodes :: "'enr list"

datatype data_provider_settings = UseDummy | UseTarpc string

record 'enr config =
  cf_node_key :: "string option"
  cf_listen_port :: u16
  cf_cidr :: "(ip_addr \<Rightarrow> bool) option"
  cf_sentry_addr :: string
  cf_dnsdisc :: "string option"
  cf_discv4 :: "discv4_config option"
  cf_discv5 :: "'enr discv5_config option"
  cf_reserved_peers :: "rlpx_record list"
  cf_max_peers :: nat
  cf_data_provider :: data_provider_settings
  cf_control_addr :: "string option"

definition default_discv4 :: discv4_config where
  "default_discv4 = \<lparr>d4_port = 30303, d4_bootnodes = [], d4_cache = 20, d4_concurrent_lookups = 1\<rparr>"

definition default_discv5 :: "'enr discv5_config" where
  "default_discv5 = \<lparr>d5_enr = None, d5_addr = ''0.0.0.0:30304'', d5_bootnodes = []\<rparr>"

definition default_config :: "'enr config" where
  "default_config = \<lparr>cf_node_key = None, cf_listen_port = 30303, cf_cidr = None, cf_sentry_addr = ''0.0.0.0:8000'',
     cf_dnsdisc = None, cf_discv4 = None, cf_discv5 = None, cf_reserved_peers = [], cf_max_peers = 50,
     cf_data_provider = UseDummy, cf_control_addr = None\<rparr>"

section \<open>The swarm\<close>

text \<open>The streams of \<^verbatim>\<open>devp2p/src/disc\<close> with what they are started from.\<close>

datatype 'enr discovery =
    DnsStream string
  | Discv4Stream endpoint "node_record list" nat nat  \<comment> \<open>lookups at a time, records that may wait\<close>
  | Discv5Stream "'enr list" nat
  | ReservedStream bootnodes

text \<open>What can keep a sentry from starting.\<close>

datatype setup_error = BadNodeKey | NoResolver | NoEnr | Discv5Failed | BadAddress | NoProvider | NoControl | CannotListen

text \<open>The builder of \<^verbatim>\<open>devp2p/src/disc/v4.rs\<close>.\<close>

record discv4_builder =
  db_concurrent_lookups :: nat
  db_cache :: nat

definition discv4_builder_default :: discv4_builder where
  "discv4_builder_default = \<lparr>db_concurrent_lookups = 1, db_cache = 20\<rparr>"

definition with_concurrent_lookups :: "nat \<Rightarrow> discv4_builder \<Rightarrow> discv4_builder" where
  "with_concurrent_lookups n b = b\<lparr>db_concurrent_lookups := n\<rparr>"

definition with_cache :: "nat \<Rightarrow> discv4_builder \<Rightarrow> discv4_builder" where
  "with_cache n b = b\<lparr>db_cache := n\<rparr>"

text \<open>
  \<open>mpsc::channel\<close> panics when its capacity is 0, or more than the permits of the semaphore behind it,
  \<open>usize::MAX >> 3\<close>.
\<close>

definition channel_ok :: "nat \<Rightarrow> bool" where
  "channel_ok capacity \<longleftrightarrow> 0 < capacity \<and> capacity < 2 ^ 61"

definition discv4_build :: "endpoint \<Rightarrow> node_record list \<Rightarrow> discv4_builder \<Rightarrow> (setup_error, 'enr discovery) outcome" where
  "discv4_build node bootnodes b =
     (if channel_ok (db_cache b) then Ok (Discv4Stream node bootnodes (db_concurrent_lookups b) (db_cache b)) else Panic)"

record 'enr listen_options =
  lo_discovery_tasks :: "(string \<times> 'enr discovery) list"
  lo_max_peers :: nat
  lo_addr :: sock_addr
  lo_cidr :: "(ip_addr \<Rightarrow> bool) option"

record 'enr swarm_builder =
  sb_listen_options :: "'enr listen_options option"
  sb_client_version :: bytes

definition ascii :: "string \<Rightarrow> bytes" where "ascii = map of_char"

definition swarm_builder_new :: "'enr swarm_builder" where
  "swarm_builder_new = \<lparr>sb_listen_options = None, sb_client_version = ascii ''rust-devp2p/0.4.0''\<rparr>"

definition with_listen_options :: "'enr listen_options \<Rightarrow> 'enr swarm_builder \<Rightarrow> 'enr swarm_builder" where
  "with_listen_options options b = b\<lparr>sb_listen_options := Some options\<rparr>"

definition with_client_version :: "bytes \<Rightarrow> 'enr swarm_builder \<Rightarrow> 'enr swarm_builder" where
  "with_client_version version b = b\<lparr>sb_client_version := version\<rparr>"

text \<open>What a node says of itself in its handshakes, and its swarm.\<close>

record ('sk, 's) swarm_node =
  sn_secret_key :: 'sk
  sn_version :: protocol_version
  sn_client_version :: bytes
  sn_capabilities :: capability_set
  sn_port :: u16
  sn_cidr :: "(ip_addr \<Rightarrow> bool) option"
  sn_swarm :: "'s swarm"

definition swarm_new_inner :: "(sock_addr \<Rightarrow> bool) \<Rightarrow> 'sk \<Rightarrow> bytes \<Rightarrow> capability_set \<Rightarrow> 's \<Rightarrow> 'enr listen_options option
    \<Rightarrow> (setup_error, ('sk, 's) swarm_node) outcome" where
  "swarm_new_inner can_bind secret_key client_version capabilities srv options =
     (let node = \<lparr>sn_secret_key = secret_key, sn_version = V5, sn_client_version = client_version,
            sn_capabilities = capabilities, sn_port = (case options of None \<Rightarrow> 0 | Some opt \<Rightarrow> snd (lo_addr opt)),
            sn_cidr = Option.bind options lo_cidr,
            sn_swarm = new_swarm (case options of None \<Rightarrow> 0 | Some opt \<Rightarrow> lo_max_peers opt) srv\<rparr>
      in if (case options of None \<Rightarrow> True | Some opt \<Rightarrow> can_bind (lo_addr opt)) then Ok node else Err CannotListen)"

definition swarm_build :: "(sock_addr \<Rightarrow> bool) \<Rightarrow> (capability_id \<times> nat) list \<Rightarrow> 's \<Rightarrow> 'sk \<Rightarrow> 'enr swarm_builder
    \<Rightarrow> (setup_error, ('sk, 's) swarm_node) outcome" where
  "swarm_build can_bind capability_mask srv secret_key b =
     swarm_new_inner can_bind secret_key (sb_client_version b) (capability_set_from capability_mask) srv (sb_listen_options b)"

text \<open>\<open>Swarm::new\<close>: a swarm that does not listen.\<close>

definition swarm_new :: "(sock_addr \<Rightarrow> bool) \<Rightarrow> (capability_id \<times> nat) list \<Rightarrow> 's \<Rightarrow> 'sk
    \<Rightarrow> (setup_error, ('sk, 's) swarm_node) outcome" where
  "swarm_new can_bind capability_mask srv secret_key = swarm_build can_bind capability_mask srv secret_key (swarm_builder_new :: unit swarm_builder)"

section \<open>The main program\<close>

text \<open>What the program needs from outside: each part may be missing or fail.\<close>

record ('sk, 'enr) setup_env =
  se_hex :: "string \<Rightarrow> bytes option"
  se_secret_key :: "bytes \<Rightarrow> 'sk option"
  se_random_key :: 'sk
  se_resolver :: bool
  se_discv4_new :: "sock_addr \<Rightarrow> bool"
  se_discv5_new :: "'enr \<Rightarrow> 'sk \<Rightarrow> bool"
  se_discv5_start :: "sock_addr \<Rightarrow> bool"
  se_discv5_add :: "'enr \<Rightarrow> bool"
  se_parse_addr :: "string \<Rightarrow> sock_addr option"
  se_tarpc :: "string \<Rightarrow> bool"
  se_grpc :: "string \<Rightarrow> bool"
  se_bind :: "sock_addr \<Rightarrow> bool"

definition ensure_ok :: "'e \<Rightarrow> bool \<Rightarrow> ('e, unit) outcome" where
  "ensure_ok e b = (if b then Ok () else Err e)"

definition any_addr :: "u16 \<Rightarrow> sock_addr" where "any_addr port = (ip_addr.V4 [0, 0, 0, 0], port)"

definition setup_key :: "('sk, 'enr) setup_env \<Rightarrow> 'enr config \<Rightarrow> (setup_error, 'sk) outcome" where
  "setup_key E c =
     (case cf_node_key c of
        None \<Rightarrow> Ok (se_random_key E)
      | Some data \<Rightarrow> of_option BadNodeKey (Option.bind (se_hex E data) (se_secret_key E)))"

definition setup_dns :: "('sk, 'enr) setup_env \<Rightarrow> 'enr config \<Rightarrow> (setup_error, (string \<times> 'enr discovery) list) outcome" where
  "setup_dns E c =
     (case cf_dnsdisc c of
        None \<Rightarrow> Ok []
      | Some address \<Rightarrow> bind_outcome (ensure_ok NoResolver (se_resolver E)) (\<lambda>_. Ok [(''dnsdisc'', DnsStream address)]))"

text \<open>A socket that cannot be bound panics (\<open>unwrap\<close>).\<close>

definition setup_discv4 :: "('sk, 'enr) setup_env \<Rightarrow> 'enr config \<Rightarrow> (setup_error, (string \<times> 'enr discovery) list) outcome" where
  "setup_discv4 E c =
     (case cf_discv4 c of
        None \<Rightarrow> Ok []
      | Some d \<Rightarrow>
          if se_discv4_new E (any_addr (d4_port d))
          then bind_outcome (discv4_build (start_endpoint (any_addr (d4_port d)) None (cf_listen_port c)) (d4_bootnodes d)
                 (with_concurrent_lookups (d4_concurrent_lookups d) (with_cache (d4_cache d) discv4_builder_default)))
                 (\<lambda>discv4. Ok [(''discv4'', discv4)])
          else Panic)"

definition setup_discv5 :: "('sk, 'enr) setup_env \<Rightarrow> 'enr config \<Rightarrow> 'sk \<Rightarrow> (setup_error, (string \<times> 'enr discovery) list) outcome" where
  "setup_discv5 E c secret_key =
     (case cf_discv5 c of
        None \<Rightarrow> Ok []
      | Some d \<Rightarrow>
          bind_outcome (of_option NoEnr (d5_enr d)) (\<lambda>enr.
          bind_outcome (ensure_ok Discv5Failed (se_discv5_new E enr secret_key)) (\<lambda>_.
          bind_outcome (of_option BadAddress (se_parse_addr E (d5_addr d))) (\<lambda>addr.
          bind_outcome (ensure_ok Discv5Failed (se_discv5_start E addr)) (\<lambda>_.
          if list_all (se_discv5_add E) (d5_bootnodes d) then Ok [(''discv5'', Discv5Stream (d5_bootnodes d) 20)] else Panic)))))"

definition setup_reserved :: "'enr config \<Rightarrow> (string \<times> 'enr discovery) list" where
  "setup_reserved c =
     (if cf_reserved_peers c = [] then []
      else [(''reserved peers'', ReservedStream (fold (\<lambda>r. AList.update (rx_addr r) (rx_id r)) (cf_reserved_peers c) []))])"

definition setup_provider :: "('sk, 'enr) setup_env \<Rightarrow> 'enr config \<Rightarrow> (setup_error, data_provider_settings) outcome" where
  "setup_provider E c =
     (case cf_data_provider c of
        UseDummy \<Rightarrow> Ok UseDummy
      | UseTarpc addr \<Rightarrow> bind_outcome (ensure_ok NoProvider (se_tarpc E addr)) (\<lambda>_. Ok (UseTarpc addr)))"

definition setup_control :: "('sk, 'enr) setup_env \<Rightarrow> 'enr config \<Rightarrow> (setup_error, string option) outcome" where
  "setup_control E c =
     (case cf_control_addr c of
        None \<Rightarrow> Ok None
      | Some addr \<Rightarrow> bind_outcome (ensure_ok NoControl (se_grpc E addr)) (\<lambda>_. Ok (Some addr)))"

definition SENTRY_CAPABILITIES :: "(capability_id \<times> nat) list" where
  "SENTRY_CAPABILITIES = [(\<lparr>id_name = capability_name, id_version = 65\<rparr>, 17)]"

record ('sk, 'ff, 'enr) sentry =
  st_node :: "('sk, 'ff cap_server) swarm_node"
  st_discovery :: "(string \<times> 'enr discovery) list"
  st_provider :: data_provider_settings
  st_control :: "string option"
  st_service_addr :: sock_addr

text \<open>The parts in the order of \<open>main\<close>, up to its last loop; an error ends the program.\<close>

definition sentry_setup :: "('sk, 'enr) setup_env \<Rightarrow> 'enr config \<Rightarrow> (setup_error, ('sk, 'ff, 'enr) sentry) outcome" where
  "sentry_setup E c =
     bind_outcome (setup_key E c) (\<lambda>secret_key.
     bind_outcome (setup_dns E c) (\<lambda>dns.
     bind_outcome (setup_discv4 E c) (\<lambda>discv4.
     bind_outcome (setup_discv5 E c secret_key) (\<lambda>discv5.
     let tasks = dns @ discv4 @ discv5 @ setup_reserved c in
     bind_outcome (setup_provider E c) (\<lambda>provider.
     bind_outcome (setup_control E c) (\<lambda>control.
     bind_outcome
       (swarm_build (se_bind E) SENTRY_CAPABILITIES new_cap_server secret_key
         (with_client_version (ascii ''sentry/v0.1.0'')
           (with_listen_options \<lparr>lo_discovery_tasks = tasks, lo_max_peers = cf_max_peers c,
              lo_addr = any_addr (cf_listen_port c), lo_cidr = cf_cidr c\<rparr> swarm_builder_new))) (\<lambda>node.
     bind_outcome (of_option BadAddress (se_parse_addr E (cf_sentry_addr c))) (\<lambda>service_addr.
     Ok \<lparr>st_node = node, st_discovery = tasks, st_provider = provider, st_control = control,
         st_service_addr = service_addr\<rparr>))))))))"

section \<open>What a configured sentry is\<close>

lemma sentry_setup_parts:
  assumes "sentry_setup E c = Ok s"
  shows "\<exists>k. setup_key E c = Ok k \<and> st_provider s = cf_data_provider c \<and> st_control s = cf_control_addr c \<and>
    st_node s = \<lparr>sn_secret_key = k, sn_version = V5, sn_client_version = ascii ''sentry/v0.1.0'',
      sn_capabilities = capability_set_from SENTRY_CAPABILITIES, sn_port = cf_listen_port c, sn_cidr = cf_cidr c,
      sn_swarm = new_swarm (cf_max_peers c) new_cap_server\<rparr>"
proof -
  have p: "x = cf_data_provider c" if "setup_provider E c = Ok x" for x
    using that by (auto simp: setup_provider_def ensure_ok_def bind_outcome_Ok_iff split: data_provider_settings.splits if_splits)
  have q: "x = cf_control_addr c" if "setup_control E c = Ok x" for x
    using that by (auto simp: setup_control_def ensure_ok_def bind_outcome_Ok_iff split: option.splits if_splits)
  show ?thesis
    using assms p q
    by (auto simp: sentry_setup_def bind_outcome_Ok_iff Let_def swarm_build_def swarm_new_inner_def with_listen_options_def
        with_client_version_def any_addr_def swarm_builder_new_def split: if_splits)
qed

lemma sentry_capabilities: "get_capabilities (capability_set_from SENTRY_CAPABILITIES) = [eth_cap 65]"
  by (simp add: get_capabilities_def capability_set_from_def SENTRY_CAPABILITIES_def eth_cap_def eth_name_def capability_name_def)

lemma sentry_version: "utf8_valid (ascii ''sentry/v0.1.0'')" "length (ascii ''sentry/v0.1.0'') = 13"
  by code_simp+

text \<open>A hello that names one version of the eth protocol is short.\<close>

lemma eth_hello_short:
  assumes "rlp_ok R" "crypto_ok C" "rlp_short R" "length cv \<le> 100" "ci_name cap = eth_name" "ci_version cap < 128"
  shows "length (outbound_hello R (own_hello C k V5 cv [cap] (unat (p :: u16)))) < 2 ^ 24"
proof -
  note len = rlp_okD(8-10) [OF assms(1)]
  have "length (rl_out R (RData eth_name)) \<le> 12" "length (rl_out R (RData cv)) \<le> 109"
    "length (rl_out R (RData (pk2id C (cr_public C k)))) \<le> 73"
    using len(2) [of eth_name] len(2) [of cv] len(2) [of "pk2id C (cr_public C k)"]
      length_pk2id [OF assms(2), of k] assms(4) by (simp_all add: eth_name_def)
  moreover have "length (rl_out R (RList [RData eth_name, RUint (ci_version cap)])) \<le> length (rl_out R (RData eth_name)) + 10"
    using len(3) [of "[RData eth_name, RUint (ci_version cap)]"] len(1) [OF assms(6)] calculation(1) by simp
  moreover have "length (rl_out R (RList [RList [RData eth_name, RUint (ci_version cap)]])) \<le>
      length (rl_out R (RList [RData eth_name, RUint (ci_version cap)])) + 9"
    using len(3) [of "[RList [RData eth_name, RUint (ci_version cap)]]"] calculation by simp
  ultimately show ?thesis
    using len(1) [of 0] len(1) [of 5] word_size(2) [OF assms(3), of p]
      len(3) [of "[RUint 5, RData cv, RList [RList [RData eth_name, RUint (ci_version cap)]], RUint (unat p), RData (pk2id C (cr_public C k))]"]
    by (simp add: outbound_hello_def hello_rlp_def own_hello_def capability_messages_def capability_message_rlp_def
        cap_name_rlp_def assms(5))
qed

lemma sentry_hello_short:
  assumes "rlp_ok R" "crypto_ok C" "rlp_short R"
  shows "length (outbound_hello R (own_hello C k V5 (ascii ''sentry/v0.1.0'') [eth_cap 65] (unat (p :: u16)))) < 2 ^ 24"
  by (rule eth_hello_short [OF assms]) (simp_all add: sentry_version(2) eth_cap_def)

lemma started_sentries_handshake:
  assumes ok: "rlp_ok R" "crypto_ok C" "snappy_ok Z" "rlp_short R"
    and setups: "sentry_setup Ec cc = Ok x" "sentry_setup Es cs = Ok y"
    and rand: "length nc = 32" "length ns = 32" "length (er_iv rc) = 16" "length (er_iv rs) = 16" "er_pad rc \<le> 300"
  shows "\<exists>a b out_c out_s. \<forall>u w.
    peer_connect R C Z (sn_secret_key (st_node x)) (pk2id C (cr_public C (sn_secret_key (st_node y)))) nc ec rc
      (sn_version (st_node x)) (sn_client_version (st_node x)) (get_capabilities (sn_capabilities (st_node x)))
      (unat (sn_port (st_node x))) (out_s @ u) = (Ok a, out_c, u) \<and>
    peer_incoming R C Z (sn_secret_key (st_node y)) ns es rs
      (sn_version (st_node y)) (sn_client_version (st_node y)) (get_capabilities (sn_capabilities (st_node y)))
      (unat (sn_port (st_node y))) (out_c @ w) = (Ok b, out_s, w) \<and>
    ps_remote_id a = pk2id C (cr_public C (sn_secret_key (st_node y))) \<and>
    ps_remote_id b = pk2id C (cr_public C (sn_secret_key (st_node x))) \<and> peers_linked (eth_cap 65) a b \<and>
    capability_map (ps_shared_capabilities a) = [(capability_name, 65)] \<and>
    capability_map (ps_shared_capabilities b) = [(capability_name, 65)]"
proof -
  obtain kc where x: "st_node x = \<lparr>sn_secret_key = kc, sn_version = V5, sn_client_version = ascii ''sentry/v0.1.0'',
      sn_capabilities = capability_set_from SENTRY_CAPABILITIES, sn_port = cf_listen_port cc, sn_cidr = cf_cidr cc,
      sn_swarm = new_swarm (cf_max_peers cc) new_cap_server\<rparr>"
    using sentry_setup_parts [OF setups(1)] by blast
  obtain ks where y: "st_node y = \<lparr>sn_secret_key = ks, sn_version = V5, sn_client_version = ascii ''sentry/v0.1.0'',
      sn_capabilities = capability_set_from SENTRY_CAPABILITIES, sn_port = cf_listen_port cs, sn_cidr = cf_cidr cs,
      sn_swarm = new_swarm (cf_max_peers cs) new_cap_server\<rparr>"
    using sentry_setup_parts [OF setups(2)] by blast
  have port: "unat (p :: u16) < 2 ^ 16" for p using unsigned_less [of p] by simp
  have caps: "\<forall>c \<in> set [eth_cap 65]. cap_name_ok (ci_name c) \<and> ci_version c < 2 ^ 64" "ci_length (eth_cap 65) \<le> 112"
    by (simp_all add: eth_cap_def eth_name_def cap_name_ok_def)
  have share: "share_caps [eth_cap 65] (capability_messages [eth_cap 65]) = [eth_cap 65]"
    by (simp add: share_caps_def retain_newest_def matching_caps_def capability_messages_def)
  have shared: "capability_map (ps_shared_capabilities s) = [(capability_name, 65)]" if "single_cap (eth_cap 65) s" for s :: "('a, 'b, 'c) codec peer_stream"
    using that by (simp add: single_cap_def capability_map_def eth_cap_def eth_name_def capability_name_def)
  have "\<exists>a b out_c out_s. \<forall>u w.
    peer_connect R C Z kc (pk2id C (cr_public C ks)) nc ec rc V5 (ascii ''sentry/v0.1.0'') [eth_cap 65]
      (unat (cf_listen_port cc)) (out_s @ u) = (Ok a, out_c, u) \<and>
    peer_incoming R C Z ks ns es rs V5 (ascii ''sentry/v0.1.0'') [eth_cap 65] (unat (cf_listen_port cs)) (out_c @ w) = (Ok b, out_s, w) \<and>
    ps_remote_id a = pk2id C (cr_public C ks) \<and> ps_remote_id b = pk2id C (cr_public C kc) \<and>
    peers_linked (eth_cap 65) a b \<and> peers_linked (eth_cap 65) b a"
    by (rule peers_handshake [OF ok(1-3) rand sentry_version(1) port caps(1) sentry_hello_short [OF ok(1,2,4)]
      sentry_version(1) port caps(1) sentry_hello_short [OF ok(1,2,4)] share share caps(2)])
  then obtain a b out_c out_s where c: "\<And>u w. peer_connect R C Z kc (pk2id C (cr_public C ks)) nc ec rc V5 (ascii ''sentry/v0.1.0'') [eth_cap 65]
      (unat (cf_listen_port cc)) (out_s @ u) = (Ok a, out_c, u) \<and>
    peer_incoming R C Z ks ns es rs V5 (ascii ''sentry/v0.1.0'') [eth_cap 65] (unat (cf_listen_port cs)) (out_c @ w) = (Ok b, out_s, w) \<and>
    ps_remote_id a = pk2id C (cr_public C ks) \<and> ps_remote_id b = pk2id C (cr_public C kc) \<and> peers_linked (eth_cap 65) a b" by blast
  then have "single_cap (eth_cap 65) a" "single_cap (eth_cap 65) b" by (simp_all add: peers_linked_def)
  from this [THEN shared] c show ?thesis
    by (intro exI [of _ a] exI [of _ b] exI [of _ out_c] exI [of _ out_s]) (simp add: x y sentry_capabilities)
qed

text \<open>
  C11. Sentries that start get connected. Whatever their options, when two sentries have started, the one
  that dials the key of the other completes both handshakes with it; they share the \<open>eth\<close> capability in
  version 65 with its 17 messages, which is what their servers need of a peer, and messages go both ways.
\<close>

theorem configured_sentries_connect:
  assumes ok: "rlp_ok R" "crypto_ok C" "snappy_ok Z" "rlp_short R"
    and setups: "sentry_setup Ec cc = Ok x" "sentry_setup Es cs = Ok y"
    and rand: "length nc = 32" "length ns = 32" "length (er_iv rc) = 16" "length (er_iv rs) = 16" "er_pad rc \<le> 300"
  shows "\<exists>a b out_c out_s. \<forall>u w.
    peer_connect R C Z (sn_secret_key (st_node x)) (pk2id C (cr_public C (sn_secret_key (st_node y)))) nc ec rc
      (sn_version (st_node x)) (sn_client_version (st_node x)) (get_capabilities (sn_capabilities (st_node x)))
      (unat (sn_port (st_node x))) (out_s @ u) = (Ok a, out_c, u) \<and>
    peer_incoming R C Z (sn_secret_key (st_node y)) ns es rs
      (sn_version (st_node y)) (sn_client_version (st_node y)) (get_capabilities (sn_capabilities (st_node y)))
      (unat (sn_port (st_node y))) (out_c @ w) = (Ok b, out_s, w) \<and>
    peers_linked (eth_cap 65) a b \<and>
    capability_map (ps_shared_capabilities a) = [(capability_name, 65)] \<and>
    capability_map (ps_shared_capabilities b) = [(capability_name, 65)]"
  using started_sentries_handshake [OF assms, of ec es] by (elim exE) (intro exI allI; blast)

section \<open>When a sentry starts\<close>

text \<open>
  C29. A sentry starts exactly when everything its options name is there: a node key that parses, the
  resolver for DNS discovery, the socket of discv4 and a cache that its channel can have, for discv5 a
  record of its own and a service that takes the boot nodes, the data service, the control service, the
  listening socket, and an address to serve on. In particular a discv5 section without a record never
  starts, nor does a discv4 section with a cache of 0.
\<close>

theorem setup_succeeds_iff:
  "(\<exists>s :: ('sk, 'ff, 'enr) sentry. sentry_setup E c = Ok s) =
    ((\<exists>k. setup_key E c = Ok k \<and>
       (case cf_discv5 c of
          None \<Rightarrow> True
        | Some d \<Rightarrow>
            (\<exists>enr addr. d5_enr d = Some enr \<and> se_discv5_new E enr k \<and> se_parse_addr E (d5_addr d) = Some addr \<and>
               se_discv5_start E addr \<and> list_all (se_discv5_add E) (d5_bootnodes d)))) \<and>
     (cf_dnsdisc c = None \<or> se_resolver E) \<and>
     (case cf_discv4 c of None \<Rightarrow> True | Some d \<Rightarrow> se_discv4_new E (any_addr (d4_port d)) \<and> channel_ok (d4_cache d)) \<and>
     (case cf_data_provider c of UseDummy \<Rightarrow> True | UseTarpc addr \<Rightarrow> se_tarpc E addr) \<and>
     (case cf_control_addr c of None \<Rightarrow> True | Some addr \<Rightarrow> se_grpc E addr) \<and>
     se_bind E (any_addr (cf_listen_port c)) \<and> se_parse_addr E (cf_sentry_addr c) \<noteq> None)"
proof -
  have dns: "(\<exists>x. setup_dns E c = Ok x) = (cf_dnsdisc c = None \<or> se_resolver E)"
    by (cases "cf_dnsdisc c") (simp_all add: setup_dns_def ensure_ok_def)
  have v4: "(\<exists>x. setup_discv4 E c = Ok x) = (case cf_discv4 c of None \<Rightarrow> True | Some d \<Rightarrow> se_discv4_new E (any_addr (d4_port d)) \<and> channel_ok (d4_cache d))"
    by (cases "cf_discv4 c") (simp_all add: setup_discv4_def discv4_build_def with_cache_def with_concurrent_lookups_def)
  have v5: "(\<exists>x. setup_discv5 E c k = Ok x) = (case cf_discv5 c of None \<Rightarrow> True | Some d \<Rightarrow>
      (\<exists>enr addr. d5_enr d = Some enr \<and> se_discv5_new E enr k \<and> se_parse_addr E (d5_addr d) = Some addr \<and>
         se_discv5_start E addr \<and> list_all (se_discv5_add E) (d5_bootnodes d)))" for k
  proof (cases "cf_discv5 c")
    case (Some d)
    show ?thesis
      by (cases "d5_enr d"; cases "se_parse_addr E (d5_addr d)") (auto simp: setup_discv5_def ensure_ok_def Some)
  qed (simp add: setup_discv5_def)
  have provider: "(\<exists>x. setup_provider E c = Ok x) = (case cf_data_provider c of UseDummy \<Rightarrow> True | UseTarpc addr \<Rightarrow> se_tarpc E addr)"
    by (cases "cf_data_provider c") (simp_all add: setup_provider_def ensure_ok_def)
  have control: "(\<exists>x. setup_control E c = Ok x) = (case cf_control_addr c of None \<Rightarrow> True | Some addr \<Rightarrow> se_grpc E addr)"
    by (cases "cf_control_addr c") (simp_all add: setup_control_def ensure_ok_def)
  have "(\<exists>s :: ('sk, 'ff, 'enr) sentry. sentry_setup E c = Ok s) =
    ((\<exists>k. setup_key E c = Ok k \<and> (\<exists>x. setup_discv5 E c k = Ok x)) \<and> (\<exists>x. setup_dns E c = Ok x) \<and> (\<exists>x. setup_discv4 E c = Ok x) \<and>
     (\<exists>x. setup_provider E c = Ok x) \<and> (\<exists>x. setup_control E c = Ok x) \<and>
     se_bind E (any_addr (cf_listen_port c)) \<and> se_parse_addr E (cf_sentry_addr c) \<noteq> None)"
    by (auto simp: sentry_setup_def bind_outcome_Ok_iff Let_def swarm_build_def swarm_new_inner_def with_listen_options_def
        with_client_version_def swarm_builder_new_def of_option_def split: if_splits option.splits)
  then show ?thesis unfolding dns v4 v5 provider control .
qed

section \<open>The services of a sentry\<close>

text \<open>The data provider the options choose, as the server sees it.\<close>

definition service_env :: "build \<Rightarrow> rlp_api \<Rightarrow> ('ff, 'fid) fork_api \<Rightarrow> ('h \<Rightarrow> nat) \<Rightarrow> ('h \<Rightarrow> rlp) \<Rightarrow> ('b \<Rightarrow> rlp) \<Rightarrow> (string \<Rightarrow> ('h, 'b) eth_client)
    \<Rightarrow> data_provider_settings \<Rightarrow> ('ff, 'fid) cap_env" where
  "service_env bd R F number header_rlp body_rlp client settings =
     (case settings of
        UseDummy \<Rightarrow> dummy_env bd R F
      | UseTarpc addr \<Rightarrow> tarpc_env bd R F number header_rlp body_rlp (client addr))"

text \<open>A sentry with the default options looks for nobody, and has no data to serve from.\<close>

lemma default_sentry_alone:
  assumes "sentry_setup E default_config = Ok s"
  shows "st_discovery s = [] \<and> st_provider s = UseDummy \<and> st_control s = None"
  using assms
  by (auto simp: sentry_setup_def default_config_def setup_dns_def setup_discv4_def setup_discv5_def setup_reserved_def
      setup_provider_def setup_control_def bind_outcome_Ok_iff Let_def)

lemma default_discv5_refused:
  assumes "setup_key E c = Ok k" "cf_dnsdisc c = None" "cf_discv4 c = None" "cf_discv5 c = Some default_discv5"
  shows "sentry_setup E c = Err NoEnr"
  using assms by (simp add: sentry_setup_def setup_dns_def setup_discv4_def setup_discv5_def default_discv5_def)

lemma cacheless_discv4_panics:
  assumes "setup_key E c = Ok k" "cf_dnsdisc c = None" "cf_discv4 c = Some d" "d4_cache d = 0"
  shows "sentry_setup E c = Panic"
  using assms by (simp add: sentry_setup_def setup_dns_def setup_discv4_def discv4_build_def channel_ok_def with_cache_def
      with_concurrent_lookups_def)

text \<open>Every sentry starts in an initial state of the swarm.\<close>

lemma sentry_starts:
  assumes "sentry_setup E c = Ok s"
  shows "sentry_reach env (sn_swarm (st_node s))"
proof -
  have "sentry_start (sn_swarm (st_node s))" using sentry_setup_parts [OF assms] by (auto simp: sentry_start_def)
  then show ?thesis unfolding sentry_reach_def by (rule reach_init)
qed

section \<open>Closed instance\<close>

definition demo_setup_env :: "byte \<Rightarrow> (byte, nat) setup_env" where
  "demo_setup_env k = \<lparr>se_hex = (\<lambda>s. Some (ascii s)), se_secret_key = (\<lambda>b. None), se_random_key = k, se_resolver = True,
     se_discv4_new = (\<lambda>a. True), se_discv5_new = (\<lambda>e k. True), se_discv5_start = (\<lambda>a. True), se_discv5_add = (\<lambda>e. True),
     se_parse_addr = (\<lambda>s. Some (any_addr 8000)), se_tarpc = (\<lambda>s. True), se_grpc = (\<lambda>s. True), se_bind = (\<lambda>a. True)\<rparr>"

lemma demo_setup: "\<exists>s :: (byte, unit, nat) sentry. sentry_setup (demo_setup_env k) default_config = Ok s \<and> sn_secret_key (st_node s) = k"
  by (simp add: sentry_setup_def default_config_def demo_setup_env_def setup_key_def setup_dns_def setup_discv4_def setup_discv5_def
      setup_provider_def setup_control_def swarm_build_def swarm_new_inner_def with_listen_options_def with_client_version_def
      swarm_builder_new_def)

theorem configured_sentries_connect_witness:
  "\<exists>(x :: (byte, unit, nat) sentry) (y :: (byte, unit, nat) sentry) a b out_c out_s.
    sentry_setup (demo_setup_env 1) default_config = Ok x \<and> sentry_setup (demo_setup_env 2) default_config = Ok y \<and>
    (\<forall>u w. peer_connect demo_rlp demo_crypto demo_snappy 1 (pk2id demo_crypto (cr_public demo_crypto 2)) (replicate 32 8) 5 demo_rand
        (sn_version (st_node x)) (sn_client_version (st_node x)) (get_capabilities (sn_capabilities (st_node x)))
        (unat (sn_port (st_node x))) (out_s @ u) = (Ok a, out_c, u) \<and>
      peer_incoming demo_rlp demo_crypto demo_snappy 2 (replicate 32 9) 6 demo_rand
        (sn_version (st_node y)) (sn_client_version (st_node y)) (get_capabilities (sn_capabilities (st_node y)))
        (unat (sn_port (st_node y))) (out_c @ w) = (Ok b, out_s, w) \<and>
      peers_linked (eth_cap 65) a b)"
proof -
  obtain x :: "(byte, unit, nat) sentry" where x: "sentry_setup (demo_setup_env 1) default_config = Ok x" "sn_secret_key (st_node x) = 1"
    using demo_setup by blast
  obtain y :: "(byte, unit, nat) sentry" where y: "sentry_setup (demo_setup_env 2) default_config = Ok y" "sn_secret_key (st_node y) = 2"
    using demo_setup by blast
  have "length (replicate 32 (8 :: byte)) = 32" "length (replicate 32 (9 :: byte)) = 32" "length (er_iv demo_rand) = 16" "er_pad demo_rand \<le> 300"
    by (simp_all add: demo_rand_def)
  note conn = configured_sentries_connect [OF demo_rlp_ok demo_crypto_ok demo_snappy_ok demo_rlp_short x(1) y(1) this(1-3,3,4), of 5 6,
      unfolded x(2) y(2)]
  show ?thesis
    by (rule exI [of _ x], rule exI [of _ y], insert conn, elim exE, rule exI, rule exI, rule exI, rule exI, intro conjI)
      (rule x(1) y(1) | (intro allI, blast))+
qed

end
