(* ===== verification/Example_Server.thy ===== *)
theory Example_Server
  imports Cap_Server
begin

text \<open>
  The capability server of the example \<^verbatim>\<open>devp2p/examples/sentry.rs\<close>: it greets every peer with a fixed
  status, answers requests for headers and bodies with nothing, and kicks a peer whose status does not
  decode. It is the second provider of the contract of a capability server.
\<close>

record example_status =
  es_protocol_version :: nat
  es_network_id :: nat
  es_total_difficulty :: nat
  es_best_hash :: bytes
  es_genesis_hash :: bytes

text \<open>The derived encoding and decoding.\<close>

definition example_status_rlp :: "example_status \<Rightarrow> rlp" where
  "example_status_rlp s = RList [RUint (es_protocol_version s), RUint (es_network_id s), RUint (es_total_difficulty s),
     RData (es_best_hash s), RData (es_genesis_hash s)]"

definition example_status_decode :: "rlp_api \<Rightarrow> bytes \<Rightarrow> example_status option" where
  "example_status_decode R d =
     Option.bind (Option.bind (rl_at R d 0) (rl_uint R 64)) (\<lambda>protocol_version.
     Option.bind (Option.bind (rl_at R d 1) (rl_uint R 64)) (\<lambda>network_id.
     Option.bind (Option.bind (rl_at R d 2) (rl_uint R 256)) (\<lambda>total_difficulty.
     Option.bind (Option.bind (rl_at R d 3) (rl_hash R 32)) (\<lambda>best_hash.
     Option.bind (Option.bind (rl_at R d 4) (rl_hash R 32)) (\<lambda>genesis_hash.
     Some \<lparr>es_protocol_version = protocol_version, es_network_id = network_id, es_total_difficulty = total_difficulty,
           es_best_hash = best_hash, es_genesis_hash = genesis_hash\<rparr>)))))"

definition main_net_best :: bytes where
  "main_net_best = [0x28, 0x04, 0x2e, 0x7e, 0x4d, 0x35, 0xa3, 0x48, 0x2b, 0xf5, 0xf0, 0xd8, 0x62, 0x50, 0x18, 0x68,
     0xb0, 0x4c, 0x17, 0x34, 0xf4, 0x83, 0xce, 0xae, 0x3b, 0xf1, 0x39, 0x35, 0x61, 0x95, 0x18, 0x29]"

definition main_net_genesis :: bytes where
  "main_net_genesis = [0xd4, 0xe5, 0x67, 0x40, 0xf8, 0x76, 0xae, 0xf8, 0xc0, 0x10, 0xb8, 0x6a, 0x40, 0xd5, 0xf5, 0x67,
     0x45, 0xa1, 0x18, 0xd0, 0x90, 0x6a, 0x34, 0xe6, 0x9a, 0xec, 0x8c, 0x0d, 0xb1, 0xcb, 0x8f, 0xa3]"

definition fixed_status :: "nat \<Rightarrow> example_status" where
  "fixed_status version = \<lparr>es_protocol_version = version, es_network_id = 1,
     es_total_difficulty = 17608636743620256866935, es_best_hash = main_net_best, es_genesis_hash = main_net_genesis\<rparr>"

lemma example_status_roundtrip:
  assumes "rlp_ok R" "version < 2 ^ 64"
  shows "example_status_decode R (rl_out R (example_status_rlp (fixed_status version))) = Some (fixed_status version)"
  using assms
  by (simp add: example_status_decode_def example_status_rlp_def fixed_status_def rlp_okD_whole main_net_best_def main_net_genesis_def)

section \<open>The server\<close>

type_synonym example_server = "(peer_id \<times> pipes) list"

definition example_setup :: "peer_id \<Rightarrow> pipes \<Rightarrow> (example_server, unit, unit) st" where
  "example_setup peer p =
     st_bind st_get (\<lambda>s.
     st_bind (st_modify (AList.update peer p)) (\<lambda>_.
     if map_of s peer \<noteq> None then st_lift Panic else st_ret ()))"

definition example_teardown :: "peer_id \<Rightarrow> example_server \<Rightarrow> example_server" where
  "example_teardown peer = AList.delete peer"

definition example_connect :: "rlp_api \<Rightarrow> peer_id \<Rightarrow> (cap_name \<times> nat) list \<Rightarrow> (example_server, unit, unit) st" where
  "example_connect R peer caps =
     st_bind (st_lift (unwrap (map_of caps capability_name))) (\<lambda>version.
     example_setup peer \<lparr>pp_first = [OutMessage capability_name
       \<lparr>msg_id = 0, msg_data = rl_out R (example_status_rlp (fixed_status version))\<rparr>], pp_queue = []\<rparr>)"

text \<open>The answer to a message, and the channel of the peer it goes to.\<close>

definition example_answer :: "rlp_api \<Rightarrow> message \<Rightarrow> outbound_event option" where
  "example_answer R m =
     (if msg_id m = 0 \<and> example_status_decode R (msg_data m) = None then Some (OutDisconnect ProtocolBreach)
      else if msg_id m = 3 then Some (OutMessage capability_name \<lparr>msg_id = 4, msg_data = rl_out R (RList [])\<rparr>)
      else if msg_id m = 5 then Some (OutMessage capability_name \<lparr>msg_id = 6, msg_data = rl_out R (RList [])\<rparr>)
      else None)"

definition example_event :: "rlp_api \<Rightarrow> peer_id \<Rightarrow> inbound_event \<Rightarrow> (example_server, unit, outbound_event option) st" where
  "example_event R peer event =
     (case event of
        InDisconnect _ \<Rightarrow> st_bind (st_modify (example_teardown peer)) (\<lambda>_. st_ret None)
      | InMessage _ m \<Rightarrow>
          (case example_answer R m of
             None \<Rightarrow> st_ret None
           | Some ev \<Rightarrow>
               st_bind st_get (\<lambda>s.
               st_bind (st_lift (unwrap (map_of s peer))) (\<lambda>_. st_ret (Some ev)))))"

text \<open>\<open>next\<close>: \<open>Ok None\<close> waits for an event.\<close>

definition example_next :: "peer_id \<Rightarrow> (example_server, unit, outbound_event option) st" where
  "example_next peer =
     st_bind st_get (\<lambda>s.
     st_bind (st_lift (unwrap (map_of s peer))) (\<lambda>p.
     case pp_first p @ pp_queue p of
       [] \<Rightarrow> st_ret None
     | ev # _ \<Rightarrow>
         st_bind (st_modify (AList.update peer
           (if pp_first p = [] then p\<lparr>pp_queue := tl (pp_queue p)\<rparr> else p\<lparr>pp_first := tl (pp_first p)\<rparr>))) (\<lambda>_.
         st_ret (Some ev))))"

definition example_connected_peers :: "example_server \<Rightarrow> nat" where
  "example_connected_peers s = card (dom (map_of s))"

lemma dom_update': "dom (map_of (AList.update k v m)) = insert k (dom (map_of m))"
  by (simp add: update_conv')

lemma dom_delete': "dom (map_of (AList.delete k m)) = dom (map_of m) - {k}"
  by (auto simp: delete_conv' split: if_splits)

interpretation example_srv: capability_server "example_connect R" "example_event R" example_next
  "\<lambda>s. dom (map_of s)" "\<lambda>_. True" "\<lambda>caps. map_of caps capability_name \<noteq> None" "\<lambda>_. True" for R :: rlp_api
proof
  fix s :: example_server and p :: peer_id and caps :: "(cap_name \<times> nat) list"
  assume "p \<notin> dom (map_of s)" "map_of caps capability_name \<noteq> None"
  then show "\<exists>s'. example_connect R p caps s = (Ok (), s') \<and> True \<and> dom (map_of s') = insert p (dom (map_of s))"
    by (auto simp: example_connect_def example_setup_def domIff dom_update' simp del: map_of_eq_None_iff)
next
  fix s :: example_server and p :: peer_id and c m
  assume "p \<in> dom (map_of s)"
  then show "\<exists>r s'. example_event R p (InMessage c m) s = (Ok r, s') \<and> True \<and> dom (map_of s') = dom (map_of s)"
    by (auto simp: example_event_def domIff split: option.split simp del: map_of_eq_None_iff map_of_eq_Some_iff)
next
  fix s :: example_server and p :: peer_id and r
  show "\<exists>s'. example_event R p (InDisconnect r) s = (Ok None, s') \<and> True \<and> dom (map_of s') = dom (map_of s) - {p}"
    by (simp add: example_event_def example_teardown_def dom_delete')
next
  fix s :: example_server and p :: peer_id
  assume "p \<in> dom (map_of s)"
  then obtain x where "map_of s p = Some x" by blast
  then show "\<exists>r s'. example_next p s = (Ok r, s') \<and> True \<and> dom (map_of s') = dom (map_of s)"
    by (cases "pp_first x"; cases "pp_queue x") (auto simp: example_next_def dom_update')
qed

lemma example_no_panic:
  assumes "well_ordered (\<lambda>caps. map_of caps capability_name \<noteq> None) (\<lambda>_. True) {} cs"
  shows "\<exists>rs s'. server_run (server_call_run (example_connect R) (example_event R) example_next) cs [] = (Ok rs, s') \<and> length rs = length cs"
  using example_srv.run_ok [of "[]" cs R] assms by simp

text \<open>Two example servers accept each other, and a request gets an empty answer.\<close>

lemma examples_greet:
  assumes "rlp_ok R" "map_of caps capability_name = Some version" "version < 2 ^ 64" "p \<notin> dom (map_of s)"
  shows "\<exists>s1 s2 m. example_connect R p caps s = (Ok (), s1) \<and>
    example_next p s1 = (Ok (Some (OutMessage capability_name m)), s2) \<and>
    (\<forall>q t. example_event R q (InMessage capability_name m) t = (Ok None, t)) \<and> example_next p s2 = (Ok None, s2)"
  using assms
  by (auto simp: example_connect_def example_setup_def example_next_def example_event_def example_answer_def
      example_status_roundtrip domIff update_conv' simp del: map_of_eq_None_iff map_of_eq_Some_iff)

end
