(* ===== verification/End_To_End.thy ===== *)
theory End_To_End
  imports Setup
begin

text \<open>
  Two sentries from their options to a working relay, and what happens when both dial at once. The steps
  are those of the other theories: the dialer and the future of \<open>add_peer_inner\<close> of the one,
  \<open>handle_incoming_request\<close> of the other (\<^verbatim>\<open>devp2p/src/rlpx.rs\<close>), the handshakes of \<open>PeerStream\<close>, and
  the capability servers of both.
\<close>

section \<open>One connection between two swarms\<close>

text \<open>The dialer takes a record of the peer, and the future runs up to the connection.\<close>

definition dial_peer :: "nat \<Rightarrow> peer_id \<Rightarrow> 's swarm \<Rightarrow> 's swarm" where
  "dial_peer cid p sw =
     (let sw = dialer_add cid p sw
      in case map_of (sw_attempts sw) cid of None \<Rightarrow> sw | Some a \<Rightarrow> add_peer_start cid a sw)"

text \<open>The future goes on with the result of the handshake.\<close>

definition adopt_peer :: "'s connect_fn \<Rightarrow> nat \<Rightarrow> (unit, capability_info list) outcome \<Rightarrow> ('s swarm, unit, bool) st" where
  "adopt_peer con cid res sw =
     (case map_of (sw_attempts sw) cid of None \<Rightarrow> (Ok False, sw) | Some a \<Rightarrow> add_peer_finish con cid a res sw)"

definition entry_of :: "peer_id \<Rightarrow> 's swarm \<Rightarrow> peer_state option" where
  "entry_of p sw = map_of (sw_mapping sw) p"

text \<open>A peer the swarm would take: it has no entry, is not being added, and passes the filter.\<close>

definition admits :: "peer_id \<Rightarrow> 's swarm \<Rightarrow> bool" where
  "admits p sw \<longleftrightarrow> entry_of p sw = None \<and> p \<notin> sw_current_peers sw \<and>
     memory_allow (sw_filter sw) (length (sw_mapping sw)) p"

lemma dial_admitted:
  assumes "admits p sw" "map_of (sw_attempts sw) cid = None"
  shows "entry_of p (dial_peer cid p sw) = Some (Connecting cid) \<and> sw_server (dial_peer cid p sw) = sw_server sw \<and>
    map_of (sw_attempts (dial_peer cid p sw)) cid =
      Some \<lparr>at_peer = p, at_check = True, at_phase = Dialing, at_polled = True, at_reaped = False\<rparr>"
  using assms by (simp add: dial_peer_def admits_def entry_of_def swarm_ops Let_def)

lemma adopt_dialing:
  assumes "map_of (sw_attempts sw) cid = Some a" "entry_of (at_peer a) sw = Some (Connecting c)"
    and "con (at_peer a) (capability_map caps) (sw_server sw) = (Ok (), s)"
  shows "\<exists>sw'. adopt_peer con cid (Ok caps) sw = (Ok True, sw') \<and> entry_of (at_peer a) sw' = Some Connected \<and> sw_server sw' = s"
  using assms by (simp add: adopt_peer_def add_peer_finish_def entry_of_def setup_peer_state_def set_attempt_def Let_def)

lemma incoming_admitted:
  assumes "admits p sw" "con p (capability_map caps) (sw_server sw) = (Ok (), s)"
  shows "\<exists>sw'. handle_incoming_request con (Ok (p, caps)) sw = (Ok (), sw') \<and> entry_of p sw' = Some Connected \<and> sw_server sw' = s"
  using assms by (simp add: handle_incoming_request_def admits_def entry_of_def setup_peer_state_def)

lemma incoming_refused:
  assumes "entry_of p sw \<noteq> None"
  shows "handle_incoming_request con (Ok (p, caps)) sw = (Ok (), sw)"
  using assms by (auto simp: handle_incoming_request_def entry_of_def split: option.split)

section \<open>From the options to the relay\<close>

text \<open>A sentry that has started, after a round of its status updater.\<close>

definition sentry_swarm :: "('ff, 'fid) cap_env \<Rightarrow> (unit, status_data) outcome \<Rightarrow> (unit, status_data) outcome
    \<Rightarrow> ('sk, 'ff, 'enr) sentry \<Rightarrow> 'ff cap_server swarm" where
  "sentry_swarm env control provider x =
     (let sw = sn_swarm (st_node x) in sw\<lparr>sw_server := update_status env control provider (sw_server sw)\<rparr>)"

lemma sentry_swarm_ready:
  assumes "sentry_setup E c = Ok x" "0 < cf_max_peers c" "fetch_status env control provider = Ok v"
  shows "admits p (sentry_swarm env control provider x) \<and> dialer_wants (sentry_swarm env control provider x) \<and>
    map_of (sw_attempts (sentry_swarm env control provider x)) cid = None \<and>
    all_peers (sw_server (sentry_swarm env control provider x)) = {} \<and>
    cs_status (sw_server (sentry_swarm env control provider x)) = Some v"
proof -
  obtain k where "st_node x = \<lparr>sn_secret_key = k, sn_version = V5, sn_client_version = ascii ''sentry/v0.1.0'',
      sn_capabilities = capability_set_from SENTRY_CAPABILITIES, sn_port = cf_listen_port c, sn_cidr = cf_cidr c,
      sn_swarm = new_swarm (cf_max_peers c) new_cap_server\<rparr>"
    using sentry_setup_parts [OF assms(1)] by blast
  then show ?thesis using assms(2,3)
    by (simp add: sentry_swarm_def new_swarm_def new_cap_server_def update_status_def all_peers_def admits_def entry_of_def
        dialer_wants_def filter_allow_def memory_max_peers_def memory_is_banned_def new_memory_filter_def)
qed

text \<open>
  C5. From the options of two sentries to a working relay. Both start, and each has a status its
  control service or data provider gave it. When the dialer of the first takes the record of the second,
  the two complete their handshakes over the connection; the one adopts its connection and the other
  lets it in; each announces the peer to its server; the two statuses cross; and, when the forks agree,
  requests can be relayed between them.
\<close>

theorem sentries_end_to_end:
  fixes x :: "('sk, 'ff, 'ex) sentry" and y :: "('sk, 'ff, 'ey) sentry"
  assumes ok: "rlp_ok R" "crypto_ok C" "snappy_ok Z" "rlp_short R" "fork_ok R F"
    and setups: "sentry_setup Sx cx = Ok x" "sentry_setup Sy cy = Ok y" "0 < cf_max_peers cx" "0 < cf_max_peers cy"
    and env: "env_rlp ex = R" "env_fork ex = F" "env_rlp ey = R" "env_fork ey = F"
    and status: "fetch_status ex controlx providerx = Ok sx" "fetch_status ey controly providery = Ok sy"
    and forks: "fk_validate F (snd sx) (fk_current F (snd sy))" "fk_validate F (snd sy) (fk_current F (snd sx))"
    and sizes: "greeting_ok R F 65 sx" "greeting_ok R F 65 sy"
    and rand: "length nx = 32" "length ny = 32" "length (er_iv rx) = 16" "length (er_iv ry) = 16" "er_pad rx \<le> 300"
    and ids: "px = pk2id C (cr_public C (sn_secret_key (st_node x)))" "py = pk2id C (cr_public C (sn_secret_key (st_node y)))"
    and swarms: "swx = sentry_swarm ex controlx providerx x" "swy = sentry_swarm ey controly providery y"
  shows "\<exists>a b out_x out_y swx' swy' f a1 b1 g b2 a2.
    dialer_wants swx \<and> entry_of py (dial_peer cid py swx) = Some (Connecting cid) \<and>
    (\<forall>u w. peer_connect R C Z (sn_secret_key (st_node x)) py nx kx rx
        (sn_version (st_node x)) (sn_client_version (st_node x)) (get_capabilities (sn_capabilities (st_node x)))
        (unat (sn_port (st_node x))) (out_y @ u) = (Ok a, out_x, u) \<and>
      peer_incoming R C Z (sn_secret_key (st_node y)) ny ky ry
        (sn_version (st_node y)) (sn_client_version (st_node y)) (get_capabilities (sn_capabilities (st_node y)))
        (unat (sn_port (st_node y))) (out_x @ w) = (Ok b, out_y, w)) \<and>
    adopt_peer (on_peer_connect ex) cid (Ok (ps_shared_capabilities a)) (dial_peer cid py swx) = (Ok True, swx') \<and>
    handle_incoming_request (on_peer_connect ey) (Ok (ps_remote_id b, ps_shared_capabilities b)) swy = (Ok (), swy') \<and>
    entry_of py swx' = Some Connected \<and> entry_of px swy' = Some Connected \<and>
    peer_out R C Z rx py \<lparr>se_server = sw_server swx', se_stream = a\<rparr> [] = Some (f, a1) \<and>
    (\<forall>rest. peer_in R C Z ey px \<lparr>se_server = sw_server swy', se_stream = b\<rparr> (f @ rest) = Some ([], b1, rest)) \<and>
    peer_out R C Z ry px b1 [] = Some (g, b2) \<and>
    (\<forall>rest. peer_in R C Z ex py a1 (g @ rest) = Some ([], a2, rest)) \<and>
    relay_ready (eth_cap 65) px py a2 b2"
proof -
  note rx = sentry_swarm_ready [OF setups(1,3) status(1), of py cid, folded swarms(1)]
  note ry = sentry_swarm_ready [OF setups(2,4) status(2), of px cid, folded swarms(2)]
  obtain a b out_x out_y where c: "\<forall>u w. peer_connect R C Z (sn_secret_key (st_node x)) py nx kx rx
        (sn_version (st_node x)) (sn_client_version (st_node x)) (get_capabilities (sn_capabilities (st_node x)))
        (unat (sn_port (st_node x))) (out_y @ u) = (Ok a, out_x, u) \<and>
      peer_incoming R C Z (sn_secret_key (st_node y)) ny ky ry
        (sn_version (st_node y)) (sn_client_version (st_node y)) (get_capabilities (sn_capabilities (st_node y)))
        (unat (sn_port (st_node y))) (out_x @ w) = (Ok b, out_y, w)"
    "ps_remote_id b = px" "peers_linked (eth_cap 65) a b"
    "capability_map (ps_shared_capabilities a) = [(capability_name, 65)]"
    "capability_map (ps_shared_capabilities b) = [(capability_name, 65)]"
    using started_sentries_handshake [OF ok(1-4) setups(1,2) rand, of kx ky] unfolding ids by blast
  have cap: "ci_name (eth_cap 65) = capability_name" "17 \<le> ci_length (eth_cap 65)" "ci_version (eth_cap 65) = 65"
    by (simp_all add: eth_cap_def eth_name_def capability_name_def)
  have new: "py \<notin> all_peers (sw_server swx)" "px \<notin> all_peers (sw_server swy)"
    "cs_status (sw_server swx) = Some sx" "cs_status (sw_server swy) = Some sy" using rx ry by simp_all
  obtain s1 t1 f a1 b1 g b2 a2 where s:
    "on_peer_connect ex py [(capability_name, 65)] (sw_server swx) = (Ok (), s1)"
    "on_peer_connect ey px [(capability_name, 65)] (sw_server swy) = (Ok (), t1)"
    "peer_out R C Z rx py \<lparr>se_server = s1, se_stream = a\<rparr> [] = Some (f, a1)"
    "\<forall>rest. peer_in R C Z ey px \<lparr>se_server = t1, se_stream = b\<rparr> (f @ rest) = Some ([], b1, rest)"
    "peer_out R C Z ry px b1 [] = Some (g, b2)" "\<forall>rest. peer_in R C Z ex py a1 (g @ rest) = Some ([], a2, rest)"
    "relay_ready (eth_cap 65) px py a2 b2"
    using statuses_exchanged [OF ok(1-3,5) env cap(1,2) c(3) new forks, of rx ry] sizes unfolding cap(3) by blast
  note d = dial_admitted [of py swx cid]
  obtain swx' where x': "adopt_peer (on_peer_connect ex) cid (Ok (ps_shared_capabilities a)) (dial_peer cid py swx) = (Ok True, swx')"
    "entry_of py swx' = Some Connected" "sw_server swx' = s1"
    using adopt_dialing [of "dial_peer cid py swx" cid _ cid "on_peer_connect ex" "ps_shared_capabilities a" s1] d rx s(1) c(4) by auto
  obtain swy' where y': "handle_incoming_request (on_peer_connect ey) (Ok (ps_remote_id b, ps_shared_capabilities b)) swy = (Ok (), swy')"
    "entry_of px swy' = Some Connected" "sw_server swy' = t1"
    using incoming_admitted [of px swy "on_peer_connect ey" "ps_shared_capabilities b" t1] ry s(2) c(2,5) by auto
  show ?thesis
    by (rule exI [of _ a], rule exI [of _ b], rule exI [of _ out_x], rule exI [of _ out_y], rule exI [of _ swx'], rule exI [of _ swy'])
      (use d rx c(1) x' y' s in auto)
qed

section \<open>A peer of another version\<close>

text \<open>What the swarm makes of the result of a dial.\<close>

definition dial_result :: "(peer_error, 's peer_stream) outcome \<Rightarrow> (unit, capability_info list) outcome" where
  "dial_result r = (case r of Ok p \<Rightarrow> Ok (ps_shared_capabilities p) | Err e \<Rightarrow> Err () | Panic \<Rightarrow> Panic)"

definition incoming_result :: "(peer_error, 's peer_stream) outcome \<Rightarrow> (unit, peer_id \<times> capability_info list) outcome" where
  "incoming_result r = (case r of Ok p \<Rightarrow> Ok (ps_remote_id p, ps_shared_capabilities p) | Err e \<Rightarrow> Err () | Panic \<Rightarrow> Panic)"

lemma dial_failed:
  assumes "admits p sw" "map_of (sw_attempts sw) cid = None"
  shows "\<exists>sw'. adopt_peer con cid (Err ()) (dial_peer cid p sw) = (Err (), sw') \<and> sw_mapping sw' = sw_mapping sw \<and>
    sw_server sw' = sw_server sw \<and> admits p (dialer_done p sw')"
proof -
  have none: "map_of (sw_mapping sw) p = None" using assms(1) by (simp add: admits_def entry_of_def)
  then have "AList.delete p (AList.update p x (sw_mapping sw)) = sw_mapping sw" for x
    by (simp add: AList.delete_update_same AList.delete_id map_of_eq_None_iff)
  then show ?thesis using assms none
    by (simp add: dial_peer_def adopt_peer_def add_peer_finish_def admits_def entry_of_def swarm_ops Let_def)
qed

text \<open>
  C13. A peer with which a sentry has nothing in common leaves no trace. Both ends read the other's hello,
  send a disconnect and fail; the dialing sentry takes its entry out of the map again, its server was not
  told, and once the dialer has taken it off its list the peer can be dialed anew; the other end leaves
  its swarm as it was.
\<close>

theorem strangers_leave_no_trace:
  fixes x :: "('sk, 'ff, 'enr) sentry" and swy :: "'s swarm"
  assumes ok: "rlp_ok R" "crypto_ok C" "snappy_ok Z" "rlp_short R" and started: "sentry_setup Sx cx = Ok x"
    and rand: "length nx = 32" "length ny = 32" "length (er_iv rx) = 16" "length (er_iv ry) = 16" "er_pad rx \<le> 300"
    and other: "utf8_valid cv" "port < 2 ^ 16" "\<forall>c \<in> set caps. cap_name_ok (ci_name c) \<and> ci_version c < 2 ^ 64"
      "length (outbound_hello R (own_hello C ky V5 cv caps port)) < 2 ^ 24"
    and strangers: "capability_id_of (eth_cap 65) \<notin> capability_id_of ` set caps"
    and py: "py = pk2id C (cr_public C ky)" "admits py swx" "map_of (sw_attempts swx) cid = None"
  shows "\<exists>out_x bye_x out_y bye_y swx'. \<forall>u w. \<exists>rx' ry'.
    peer_connect R C Z (sn_secret_key (st_node x)) py nx kx rx
      (sn_version (st_node x)) (sn_client_version (st_node x)) (get_capabilities (sn_capabilities (st_node x)))
      (unat (sn_port (st_node x))) (out_y @ u) = (rx', out_x @ bye_x, u) \<and>
    peer_incoming R C Z ky ny ey ry V5 cv caps port (out_x @ w) = (ry', out_y @ bye_y, w) \<and>
    rx' = Err NoSharedCapabilities \<and> ry' = Err NoSharedCapabilities \<and>
    adopt_peer con cid (dial_result rx') (dial_peer cid py swx) = (Err (), swx') \<and>
    sw_mapping swx' = sw_mapping swx \<and> sw_server swx' = sw_server swx \<and> admits py (dialer_done py swx') \<and>
    handle_incoming_request con' (incoming_result ry') swy = (Ok (), swy)"
proof -
  obtain k where x: "st_node x = \<lparr>sn_secret_key = k, sn_version = V5, sn_client_version = ascii ''sentry/v0.1.0'',
      sn_capabilities = capability_set_from SENTRY_CAPABILITIES, sn_port = cf_listen_port cx, sn_cidr = cf_cidr cx,
      sn_swarm = new_swarm (cf_max_peers cx) new_cap_server\<rparr>"
    using sentry_setup_parts [OF started] by blast
  have own: "unat (cf_listen_port cx) < 2 ^ 16" "\<forall>c \<in> set [eth_cap 65]. cap_name_ok (ci_name c) \<and> ci_version c < 2 ^ 64"
    using unsigned_less [of "cf_listen_port cx"] by (simp_all add: eth_cap_def eth_name_def cap_name_ok_def)
  have apart: "capability_id_of ` set [eth_cap 65] \<inter> capability_id_of ` set caps = {}" using strangers by simp
  obtain out_x bye_x out_y bye_y where c: "\<forall>u w.
    peer_connect R C Z k (pk2id C (cr_public C ky)) nx kx rx V5 (ascii ''sentry/v0.1.0'') [eth_cap 65] (unat (cf_listen_port cx)) (out_y @ u) =
      (Err NoSharedCapabilities, out_x @ bye_x, u) \<and>
    peer_incoming R C Z ky ny ey ry V5 cv caps port (out_x @ w) = (Err NoSharedCapabilities, out_y @ bye_y, w)"
    using strangers_part [OF ok(1-3) rand sentry_version(1) own sentry_hello_short [OF ok(1,2,4)] other apart, of k kx ey] by blast
  obtain swx' where d: "adopt_peer con cid (Err ()) (dial_peer cid py swx) = (Err (), swx')" "sw_mapping swx' = sw_mapping swx"
    "sw_server swx' = sw_server swx" "admits py (dialer_done py swx')"
    using dial_failed [OF py(2,3), of con] by blast
  have "handle_incoming_request con' (incoming_result (Err NoSharedCapabilities)) swy = (Ok (), swy)"
    by (simp add: incoming_result_def handle_incoming_request_def)
  then show ?thesis using c d
    by (intro exI [of _ out_x] exI [of _ bye_x] exI [of _ out_y] exI [of _ bye_y] exI [of _ swx'] allI)
      (simp add: x sentry_capabilities py(1) dial_result_def)
qed

section \<open>Two sentries that dial each other at once\<close>

text \<open>
  Each of the two dials the other before it has let the other in. What an end then does: its own dial
  comes up and is adopted, or the other's dial comes up and asks to be let in. With it are the ends of the
  two connections that the swarm keeps; the stream of an end it does not keep is dropped, which closes it.
\<close>

datatype race_event = Adopts | LetsIn

fun race_end :: "'s connect_fn \<Rightarrow> nat \<Rightarrow> peer_id \<Rightarrow> capability_info list \<Rightarrow> race_event
    \<Rightarrow> race_event set \<times> 's swarm \<Rightarrow> race_event set \<times> 's swarm" where
  "race_end con cid p caps Adopts (kept, sw) =
     (case adopt_peer con cid (Ok caps) sw of (r, sw') \<Rightarrow> (if r = Ok True then insert Adopts kept else kept, sw'))"
| "race_end con cid p caps LetsIn (kept, sw) =
     (case handle_incoming_request con (Ok (p, caps)) sw of
        (r, sw') \<Rightarrow> (if entry_of p sw \<noteq> Some Connected \<and> entry_of p sw' = Some Connected then insert LetsIn kept else kept, sw'))"

text \<open>The events of both ends in any order.\<close>

fun dial_race :: "(race_event \<Rightarrow> 'x \<Rightarrow> 'x) \<Rightarrow> (race_event \<Rightarrow> 'y \<Rightarrow> 'y) \<Rightarrow> (bool \<times> race_event) list \<Rightarrow> 'x \<times> 'y \<Rightarrow> 'x \<times> 'y" where
  "dial_race fx fy [] s = s"
| "dial_race fx fy ((first, e) # es) (x, y) =
     dial_race fx fy es (if first then (fx e x, y) else (x, fy e y))"

lemma dial_race_split:
  "dial_race fx fy es (x, y) =
     (fold fx (map snd (filter fst es)) x, fold fy (map snd (filter (\<lambda>e. \<not> fst e) es)) y)"
  by (induction es arbitrary: x y) auto

text \<open>One end: nothing happens before it adopts its dial, and nothing but that is ever kept.\<close>

definition race_inv :: "peer_id \<Rightarrow> nat \<Rightarrow> 's swarm \<Rightarrow> bool \<Rightarrow> race_event set \<times> 's swarm \<Rightarrow> bool" where
  "race_inv p cid sw0 adopted s \<longleftrightarrow> (case s of (kept, sw) \<Rightarrow>
     if adopted then kept = {Adopts} \<and> entry_of p sw = Some Connected \<and> (\<exists>a. map_of (sw_attempts sw) cid = Some a \<and> at_peer a = p)
     else kept = {} \<and> sw = sw0)"

lemma race_end_step:
  assumes dialing: "map_of (sw_attempts sw0) cid = Some a" "at_peer a = p" "entry_of p sw0 = Some (Connecting cid)"
    and con: "con p (capability_map caps) (sw_server sw0) = (Ok (), s0)" and inv: "race_inv p cid sw0 adopted s"
  shows "race_inv p cid sw0 (adopted \<or> e = Adopts) (race_end con cid p caps e s)"
proof (cases e)
  case Adopts
  show ?thesis
  proof (cases adopted)
    case True
    with inv obtain sw b where s: "s = ({Adopts}, sw)" "entry_of p sw = Some Connected" "map_of (sw_attempts sw) cid = Some b" "at_peer b = p"
      by (auto simp: race_inv_def split: prod.splits)
    then show ?thesis using Adopts True
      by (simp add: race_inv_def adopt_peer_def add_peer_finish_def entry_of_def set_attempt_def Let_def)
  next
    case False
    with inv have s: "s = ({}, sw0)" by (auto simp: race_inv_def split: prod.splits)
    show ?thesis using dialing con Adopts False unfolding s
      by (simp add: race_inv_def adopt_peer_def add_peer_finish_def entry_of_def setup_peer_state_def set_attempt_def Let_def)
  qed
next
  case LetsIn
  with inv dialing(3) show ?thesis by (cases s) (auto simp: race_inv_def incoming_refused split: if_splits)
qed

lemma race_end_run:
  assumes "map_of (sw_attempts sw0) cid = Some a" "at_peer a = p" "entry_of p sw0 = Some (Connecting cid)"
    and "con p (capability_map caps) (sw_server sw0) = (Ok (), s0)" and "race_inv p cid sw0 adopted s"
  shows "race_inv p cid sw0 (adopted \<or> Adopts \<in> set es) (fold (race_end con cid p caps) es s)"
  using assms(5)
proof (induction es arbitrary: adopted s)
  case (Cons e es)
  have "race_inv p cid sw0 (adopted \<or> e = Adopts) (race_end con cid p caps e s)"
    by (rule race_end_step [where con = con and caps = caps, OF assms(1-4) Cons.prems])
  from Cons.IH [OF this] show ?case by (simp add: disj_assoc eq_commute)
qed simp

text \<open>
  C6. Two sentries that dial each other at the same time lose both connections. Once each has an entry
  for its own dial, whatever the order in which the four ends come up, each adopts its own dial and
  drops the one of the other, so that no connection is kept at both ends; each records the other as
  connected over a stream whose far end is closed. An incoming connection never supersedes a dial.
\<close>

theorem simultaneous_dials_lost:
  assumes admits: "admits py swx" "admits px swy" "map_of (sw_attempts swx) cx = None" "map_of (sw_attempts swy) cy = None"
    and connect: "conx py (capability_map caps) (sw_server swx) = (Ok (), sx)" "cony px (capability_map caps) (sw_server swy) = (Ok (), sy)"
    and run: "dial_race (race_end conx cx py caps) (race_end cony cy px caps) es
        (({}, dial_peer cx py swx), ({}, dial_peer cy px swy)) = ((keptx, swx'), (kepty, swy'))"
    and all: "(True, Adopts) \<in> set es" "(False, Adopts) \<in> set es"
  shows "keptx = {Adopts} \<and> kepty = {Adopts} \<and> entry_of py swx' = Some Connected \<and> entry_of px swy' = Some Connected"
proof -
  note dx = dial_admitted [OF admits(1,3)] and dy = dial_admitted [OF admits(2,4)]
  have "race_inv py cx (dial_peer cx py swx) (False \<or> Adopts \<in> set (map snd (filter fst es))) (keptx, swx')"
    using race_end_run [of "dial_peer cx py swx" cx _ py conx caps sx False "({}, dial_peer cx py swx)" "map snd (filter fst es)"]
      dx connect(1) run by (simp add: dial_race_split race_inv_def)
  moreover have "race_inv px cy (dial_peer cy px swy) (False \<or> Adopts \<in> set (map snd (filter (\<lambda>e. \<not> fst e) es))) (kepty, swy')"
    using race_end_run [of "dial_peer cy px swy" cy _ px cony caps sy False "({}, dial_peer cy px swy)" "map snd (filter (\<lambda>e. \<not> fst e) es)"]
      dy connect(2) run by (simp add: dial_race_split race_inv_def)
  moreover have "Adopts \<in> set (map snd (filter fst es))" "Adopts \<in> set (map snd (filter (\<lambda>e. \<not> fst e) es))"
    using all by force+
  ultimately show ?thesis by (simp add: race_inv_def)
qed

section \<open>Witnesses\<close>

lemma demo_greeting_ok: "greeting_ok demo_rlp demo_fork 65 (demo_status, ())"
  using demo_greeting_short by (simp add: greeting_ok_def status_ok_def greeting_def demo_status_def)

lemma demo_fetch: "fetch_status demo_env (Ok demo_status) provider = Ok (demo_status, ())"
  by (simp add: fetch_status_def demo_env_def)

lemma demo_accepts: "fk_validate demo_fork (snd (demo_status, ())) (fk_current demo_fork (snd (demo_status, ())))"
  by (simp add: demo_fork_def)

text \<open>The peer of a sentry with the given secret key.\<close>

abbreviation demo_id :: "byte \<Rightarrow> peer_id" where "demo_id k \<equiv> pk2id demo_crypto (cr_public demo_crypto k)"

theorem sentries_end_to_end_witness:
  "\<exists>(x :: (byte, unit, nat) sentry) (y :: (byte, unit, nat) sentry)
      (a :: (byte, byte, unit) codec peer_stream) (b :: (byte, byte, unit) codec peer_stream) swx' swy' a2 b2.
    sentry_setup (demo_setup_env 1) default_config = Ok x \<and> sentry_setup (demo_setup_env 2) default_config = Ok y \<and>
    adopt_peer (on_peer_connect demo_env) 0 (Ok (ps_shared_capabilities a))
      (dial_peer 0 (demo_id 2) (sentry_swarm demo_env (Ok demo_status) (Err ()) x)) = (Ok True, swx') \<and>
    handle_incoming_request (on_peer_connect demo_env) (Ok (ps_remote_id b, ps_shared_capabilities b))
      (sentry_swarm demo_env (Ok demo_status) (Err ()) y) = (Ok (), swy') \<and>
    relay_ready (eth_cap 65) (demo_id 1) (demo_id 2) (a2 :: (byte, byte, unit, unit) sentry_end) b2"
proof -
  obtain x :: "(byte, unit, nat) sentry" where x: "sentry_setup (demo_setup_env 1) default_config = Ok x" "sn_secret_key (st_node x) = 1"
    using demo_setup by blast
  obtain y :: "(byte, unit, nat) sentry" where y: "sentry_setup (demo_setup_env 2) default_config = Ok y" "sn_secret_key (st_node y) = 2"
    using demo_setup by blast
  have peers: "0 < cf_max_peers (default_config :: nat config)" by (simp add: default_config_def)
  have env: "env_rlp demo_env = demo_rlp" "env_fork demo_env = demo_fork" by (simp_all add: demo_env_def)
  have rand: "length (replicate 32 (8 :: byte)) = 32" "length (replicate 32 (9 :: byte)) = 32" "length (er_iv demo_rand) = 16" "er_pad demo_rand \<le> 300"
    by (simp_all add: demo_rand_def)
  have ids: "demo_id 1 = pk2id demo_crypto (cr_public demo_crypto (sn_secret_key (st_node x)))"
    "demo_id 2 = pk2id demo_crypto (cr_public demo_crypto (sn_secret_key (st_node y)))" by (simp_all add: x(2) y(2))
  note run = sentries_end_to_end [OF demo_rlp_ok demo_crypto_ok demo_snappy_ok demo_rlp_short demo_fork_ok x(1) y(1) peers peers
      env env demo_fetch demo_fetch demo_accepts demo_accepts demo_greeting_ok demo_greeting_ok rand(1,2,3,3,4) ids refl refl,
      where cid = 0 and kx = 5 and ky = 6 and providerx = "Err ()" and providery = "Err ()"]
  show ?thesis
    by (insert run, elim exE conjE, rule exI [of _ x], rule exI [of _ y]) (intro exI conjI, (rule x(1) y(1) refl | assumption)+)
qed

theorem simultaneous_dials_lost_witness:
  "\<exists>swx' swy'. dial_race (race_end (on_peer_connect demo_env) 0 [2] [eth_cap 65]) (race_end (on_peer_connect demo_env) 0 [1] [eth_cap 65])
      [(True, Adopts), (False, LetsIn), (True, LetsIn), (False, Adopts)]
      (({}, dial_peer 0 [2] (new_swarm 5 demo_server)), ({}, dial_peer 0 [1] (new_swarm 5 demo_server))) =
    (({Adopts}, swx'), ({Adopts}, swy')) \<and> entry_of [2] swx' = Some Connected \<and> entry_of [1] swy' = Some Connected"
proof -
  let ?race = "dial_race (race_end (on_peer_connect demo_env) 0 [2] [eth_cap 65]) (race_end (on_peer_connect demo_env) 0 [1] [eth_cap 65])
      [(True, Adopts), (False, LetsIn), (True, LetsIn), (False, Adopts)]
      (({}, dial_peer 0 [2] (new_swarm 5 demo_server)), ({}, dial_peer 0 [1] (new_swarm 5 demo_server)))"
  obtain keptx swx' kepty swy' where r: "?race = ((keptx, swx'), (kepty, swy'))" by (metis surj_pair)
  have admits: "admits p (new_swarm 5 demo_server)" "map_of (sw_attempts (new_swarm 5 demo_server)) 0 = None" for p
    by (simp_all add: admits_def entry_of_def new_swarm_def new_memory_filter_def filter_allow_def memory_max_peers_def memory_is_banned_def)
  have con: "\<exists>s. on_peer_connect demo_env p (capability_map [eth_cap 65]) (sw_server (new_swarm 5 demo_server)) = (Ok (), s)" for p
    by (simp add: new_swarm_def on_peer_connect_def first_events_def setup_peer_def demo_server_def new_cap_server_def capability_map_def
        eth_cap_def eth_name_def capability_name_def)
  obtain s t where "on_peer_connect demo_env [2] (capability_map [eth_cap 65]) (sw_server (new_swarm 5 demo_server)) = (Ok (), s)"
    "on_peer_connect demo_env [1] (capability_map [eth_cap 65]) (sw_server (new_swarm 5 demo_server)) = (Ok (), t)"
    using con by metis
  from simultaneous_dials_lost [OF admits(1,1,2,2) this r] show ?thesis unfolding r by simp
qed

theorem strangers_leave_no_trace_witness:
  "\<exists>(x :: (byte, unit, nat) sentry) swx'. sentry_setup (demo_setup_env 1) default_config = Ok x \<and>
    adopt_peer (on_peer_connect demo_env) 0 (Err ()) (dial_peer 0 (demo_id 2) (new_swarm 5 demo_server)) = (Err (), swx') \<and>
    sw_mapping swx' = [] \<and> admits (demo_id 2) (dialer_done (demo_id 2) swx')"
proof -
  obtain x :: "(byte, unit, nat) sentry" where x: "sentry_setup (demo_setup_env 1) default_config = Ok x"
    using demo_setup by blast
  have rand: "length (replicate 32 (8 :: byte)) = 32" "length (replicate 32 (9 :: byte)) = 32" "length (er_iv demo_rand) = 16" "er_pad demo_rand \<le> 300"
    by (simp_all add: demo_rand_def)
  have hello: "length (outbound_hello demo_rlp (own_hello demo_crypto 2 V5 [] [eth_cap 66] 30303)) < 2 ^ 24"
    by (rule demo_hello_short) simp_all
  have other: "utf8_valid []" "30303 < (2 :: nat) ^ 16" "\<forall>c \<in> set [eth_cap 66]. cap_name_ok (ci_name c) \<and> ci_version c < 2 ^ 64"
    "capability_id_of (eth_cap 65) \<notin> capability_id_of ` set [eth_cap 66]"
    by (simp_all add: eth_cap_def eth_name_def cap_name_ok_def capability_id_of_def)
  have admits: "admits (demo_id 2) (new_swarm 5 demo_server)" "map_of (sw_attempts (new_swarm 5 demo_server)) 0 = None"
    by (simp_all add: admits_def entry_of_def new_swarm_def new_memory_filter_def filter_allow_def memory_max_peers_def memory_is_banned_def)
  from strangers_leave_no_trace [OF demo_rlp_ok demo_crypto_ok demo_snappy_ok demo_rlp_short x rand(1,2,3,3,4) other(1-3) hello other(4) refl admits,
      of 5 6 "on_peer_connect demo_env" "\<lambda>p c s. (Ok (), s)" "new_swarm 0 ()"]
  show ?thesis using x by (auto simp: dial_result_def new_swarm_def)
qed

end
