(* ===== verification/Examples.thy ===== *)
theory Examples
  imports End_To_End Example_Server
begin

text \<open>
  The example programs \<^verbatim>\<open>devp2p/examples/sentry.rs\<close> and \<^verbatim>\<open>devp2p/examples/local_connect.rs\<close> as far as they put a swarm
  together, and the capability servers that do nothing.
\<close>

section \<open>A server that does nothing\<close>

text \<open>\<open>impl CapabilityServer for ()\<close>, and \<open>DummyServer\<close> but for what it logs: no event ever comes.\<close>

definition unit_on_peer_connect :: "unit connect_fn" where
  "unit_on_peer_connect p caps = st_ret ()"

definition unit_on_peer_event :: "peer_id \<Rightarrow> inbound_event \<Rightarrow> (unit, unit, outbound_event option) st" where
  "unit_on_peer_event p event = st_ret None"

definition unit_next :: "peer_id \<Rightarrow> (unit, unit, outbound_event option) st" where
  "unit_next p = st_ret None"

definition dummy_on_peer_connect :: "unit connect_fn" where
  "dummy_on_peer_connect p caps = st_ret ()"

definition dummy_on_peer_event :: "peer_id \<Rightarrow> inbound_event \<Rightarrow> (unit, unit, outbound_event option) st" where
  "dummy_on_peer_event p event = st_ret None"

definition dummy_next :: "peer_id \<Rightarrow> (unit, unit, outbound_event option) st" where
  "dummy_next p = st_ret None"

text \<open>Such a server never panics, whatever the swarm does.\<close>

lemma unit_server_call:
  "server_call_run unit_on_peer_connect unit_on_peer_event unit_next c () = (Ok None, ())"
  by (cases c) (simp_all add: unit_on_peer_connect_def unit_on_peer_event_def unit_next_def)

lemma unit_server_runs:
  "\<exists>rs. server_run (server_call_run unit_on_peer_connect unit_on_peer_event unit_next) cs () = (Ok rs, ()) \<and> list_all ((=) None) rs"
  by (induction cs) (auto simp: unit_server_call)

section \<open>The two programs\<close>

definition EXAMPLE_CAPABILITIES :: "(capability_id \<times> nat) list" where
  "EXAMPLE_CAPABILITIES = [(\<lparr>id_name = capability_name, id_version = 63\<rparr>, 17)]"

text \<open>\<open>discv4_new\<close> says whether the node of discv4 gets its socket. Everything is unwrapped.\<close>

definition example_sentry :: "(sock_addr \<Rightarrow> bool) \<Rightarrow> (sock_addr \<Rightarrow> bool) \<Rightarrow> node_record list \<Rightarrow> 'sk
    \<Rightarrow> (setup_error, ('sk, example_server) swarm_node) outcome" where
  "example_sentry discv4_new can_bind bootnodes secret_key =
     (let port = 30303
      in if discv4_new (any_addr port)
         then bind_outcome (discv4_build (start_endpoint (any_addr port) None port) bootnodes
                (with_concurrent_lookups 50 (with_cache 20 discv4_builder_default))) (\<lambda>discv4 :: unit discovery.
              case swarm_build can_bind EXAMPLE_CAPABILITIES [] secret_key
                (with_listen_options \<lparr>lo_discovery_tasks = [(''discv4'', discv4)], lo_max_peers = 50, lo_addr = any_addr port, lo_cidr = None\<rparr>
                  swarm_builder_new) of
                Ok node \<Rightarrow> Ok node
              | _ \<Rightarrow> Panic)
         else Panic)"

definition LOCAL_CAPABILITIES :: "(capability_id \<times> nat) list" where
  "LOCAL_CAPABILITIES = [(\<lparr>id_name = capability_name, id_version = 63\<rparr>, 15)]"

text \<open>\<open>add_peer\<close>, up to the connection: the filter is not asked.\<close>

definition call_peer :: "nat \<Rightarrow> peer_id \<Rightarrow> 's swarm \<Rightarrow> 's swarm" where
  "call_peer cid p sw =
     (let sw = add_peer_inner cid p False sw
      in case map_of (sw_attempts sw) cid of None \<Rightarrow> sw | Some a \<Rightarrow> add_peer_start cid a sw)"

text \<open>The program with one of its nodes, up to the connection and from there on; both \<open>unwrap\<close>.\<close>

definition local_connect_start :: "(string \<Rightarrow> peer_id option) \<Rightarrow> (string \<Rightarrow> sock_addr option) \<Rightarrow> (sock_addr \<Rightarrow> bool) \<Rightarrow> string \<Rightarrow> 'sk
    \<Rightarrow> (setup_error, rlpx_record \<times> ('sk, unit) swarm_node) outcome" where
  "local_connect_start parse_id parse_addr can_bind bootnode secret_key =
     (case rlpx_record_from_str parse_id parse_addr bootnode of
        Ok node \<Rightarrow>
          (case swarm_new can_bind LOCAL_CAPABILITIES () secret_key of
             Ok swarm \<Rightarrow> Ok (node, swarm\<lparr>sn_swarm := call_peer 0 (rx_id node) (sn_swarm swarm)\<rparr>)
           | _ \<Rightarrow> Panic)
      | _ \<Rightarrow> Panic)"

definition local_connect_end :: "(peer_error, 's peer_stream) outcome \<Rightarrow> ('sk, unit) swarm_node \<Rightarrow> (setup_error, bool \<times> unit swarm) outcome" where
  "local_connect_end r node =
     (case adopt_peer dummy_on_peer_connect 0 (dial_result r) (sn_swarm node) of
        (Ok added, sw) \<Rightarrow> Ok (added, sw)
      | _ \<Rightarrow> Panic)"

section \<open>What becomes of them\<close>

abbreviation local_version :: bytes where "local_version \<equiv> ascii ''rust-devp2p/0.4.0''"

lemma local_version_ok: "utf8_valid local_version" "length local_version \<le> 100"
  by code_simp+

lemma local_connect_starts:
  assumes "rlpx_record_from_str parse_id parse_addr bootnode = Ok r"
  shows "\<exists>node. local_connect_start parse_id parse_addr can_bind bootnode k = Ok (r, node) \<and>
    sn_secret_key node = k \<and> sn_version node = V5 \<and> sn_client_version node = local_version \<and>
    get_capabilities (sn_capabilities node) = [\<lparr>ci_name = eth_name, ci_version = 63, ci_length = 15\<rparr>] \<and> sn_port node = 0 \<and>
    entry_of (rx_id r) (sn_swarm node) = Some (Connecting 0) \<and> \<not> dialer_wants (sn_swarm node) \<and>
    map_of (sw_attempts (sn_swarm node)) 0 =
      Some \<lparr>at_peer = rx_id r, at_check = False, at_phase = Dialing, at_polled = True, at_reaped = False\<rparr>"
  using assms
  by (simp add: local_connect_start_def swarm_new_def swarm_build_def swarm_new_inner_def swarm_builder_new_def new_swarm_def
      call_peer_def swarm_ops entry_of_def dialer_wants_def memory_max_peers_def new_memory_filter_def get_capabilities_def
      capability_set_from_def LOCAL_CAPABILITIES_def eth_name_def capability_name_def Let_def)

text \<open>
  The example that connects to a node fails at a sentry of this repository: it speaks eth/63 only, the sentry
  eth/65 only. Both ends leave with a disconnect, and the example panics.
\<close>

theorem local_connect_fails:
  fixes y :: "('sk, 'ff, 'enr) sentry"
  assumes ok: "rlp_ok R" "crypto_ok C" "snappy_ok Z" "rlp_short R" and started: "sentry_setup Sy cy = Ok y"
    and rand: "length nx = 32" "length ny = 32" "length (er_iv rx) = 16" "length (er_iv ry) = 16" "er_pad rx \<le> 300"
    and bootnode: "rlpx_record_from_str parse_id parse_addr bootnode = Ok r" "rx_id r = pk2id C (cr_public C (sn_secret_key (st_node y)))"
  shows "\<exists>node out_x bye_x out_y bye_y. local_connect_start parse_id parse_addr can_bind bootnode kx = Ok (r, node) \<and> (\<forall>u w. \<exists>rx' ry'.
    peer_connect R C Z kx (rx_id r) nx ex rx (sn_version node) (sn_client_version node) (get_capabilities (sn_capabilities node))
      (unat (sn_port node)) (out_y @ u) = (rx', out_x @ bye_x, u) \<and>
    peer_incoming R C Z (sn_secret_key (st_node y)) ny ey ry (sn_version (st_node y)) (sn_client_version (st_node y))
      (get_capabilities (sn_capabilities (st_node y))) (unat (sn_port (st_node y))) (out_x @ w) = (ry', out_y @ bye_y, w) \<and>
    rx' = Err NoSharedCapabilities \<and> ry' = Err NoSharedCapabilities \<and> local_connect_end rx' node = Panic)"
proof -
  let ?cap = "\<lparr>ci_name = eth_name, ci_version = 63, ci_length = 15\<rparr>"
  obtain node where n: "local_connect_start parse_id parse_addr can_bind bootnode kx = Ok (r, node)" "sn_version node = V5"
    "sn_client_version node = local_version" "get_capabilities (sn_capabilities node) = [?cap]" "sn_port node = 0"
    "entry_of (rx_id r) (sn_swarm node) = Some (Connecting 0)"
    "map_of (sw_attempts (sn_swarm node)) 0 =
      Some \<lparr>at_peer = rx_id r, at_check = False, at_phase = Dialing, at_polled = True, at_reaped = False\<rparr>"
    using local_connect_starts [OF bootnode(1), of can_bind kx] by blast
  obtain ky where y: "st_node y = \<lparr>sn_secret_key = ky, sn_version = V5, sn_client_version = ascii ''sentry/v0.1.0'',
      sn_capabilities = capability_set_from SENTRY_CAPABILITIES, sn_port = cf_listen_port cy, sn_cidr = cf_cidr cy,
      sn_swarm = new_swarm (cf_max_peers cy) new_cap_server\<rparr>"
    using sentry_setup_parts [OF started] by blast
  have port: "unat (p :: u16) < 2 ^ 16" for p using unsigned_less [of p] by simp
  have caps: "\<forall>c \<in> set [?cap]. cap_name_ok (ci_name c) \<and> ci_version c < 2 ^ 64" "\<forall>c \<in> set [eth_cap 65]. cap_name_ok (ci_name c) \<and> ci_version c < 2 ^ 64"
    "capability_id_of ` set [?cap] \<inter> capability_id_of ` set [eth_cap 65] = {}"
    by (simp_all add: eth_cap_def eth_name_def cap_name_ok_def capability_id_of_def)
  have hello: "length (outbound_hello R (own_hello C kx V5 local_version [?cap] (unat (0 :: u16)))) < 2 ^ 24"
    by (rule eth_hello_short [OF ok(1,2,4) local_version_ok(2)]) simp_all
  obtain out_x bye_x out_y bye_y where c: "\<forall>u w.
    peer_connect R C Z kx (pk2id C (cr_public C ky)) nx ex rx V5 local_version [?cap] (unat (0 :: u16)) (out_y @ u) =
      (Err NoSharedCapabilities, out_x @ bye_x, u) \<and>
    peer_incoming R C Z ky ny ey ry V5 (ascii ''sentry/v0.1.0'') [eth_cap 65] (unat (cf_listen_port cy)) (out_x @ w) =
      (Err NoSharedCapabilities, out_y @ bye_y, w)"
    using strangers_part [OF ok(1-3) rand local_version_ok(1) port [of 0] caps(1) hello sentry_version(1) port [of "cf_listen_port cy"] caps(2)
        sentry_hello_short [OF ok(1,2,4)] caps(3), of ky ex ey] by blast
  have "local_connect_end (Err NoSharedCapabilities :: (peer_error, ('sk, 'pk, 'c) codec peer_stream) outcome) node = Panic"
    using n(6,7) by (simp add: local_connect_end_def dial_result_def adopt_peer_def add_peer_finish_def entry_of_def set_attempt_def Let_def)
  with c n show ?thesis
    by (intro exI [of _ node] exI [of _ out_x] exI [of _ bye_x] exI [of _ out_y] exI [of _ bye_y] conjI allI)
      (simp_all add: bootnode(2) y sentry_capabilities)
qed

end
