(* ===== verification/Dns_Tests.thy ===== *)
theory Dns_Tests
  imports Dns_Resolve "HOL-Library.Multiset"
begin

text \<open>
  The unit tests of \<^verbatim>\<open>dnsdisc/src/lib.rs\<close>, with their zones, as theorems: they hold for every interleaving of the
  resolver's tasks and for every library that decodes the texts of the zones the way the tests need it.
\<close>

section \<open>Zones of the tests\<close>

definition test_records_to_hashmap :: "string \<Rightarrow> (string option \<times> string) list \<Rightarrow> (string \<times> string) list" where
  "test_records_to_hashmap domain records =
     fold (\<lambda>(sub, entry). AList.update ((case sub of None \<Rightarrow> [] | Some s \<Rightarrow> s @ ''.'') @ domain) entry) records []"

definition test_records_to_hashmap_geth :: "(string \<times> string) list \<Rightarrow> (string \<times> string) list" where
  "test_records_to_hashmap_geth records = fold (\<lambda>(domain, entry). AList.update domain entry) records []"

definition EIP_DOMAIN :: string where "EIP_DOMAIN = ''mynodes.org''"

text \<open>The three records the test expects.\<close>

definition eip_enrs :: "string list" where
  "eip_enrs =
     [''enr:-HW4QOFzoVLaFJnNhbgMoDXPnOvcdVuj7pDpqRvh6BRDO68aVi5ZcjB3vzQRZH2IcLBGHzo8uUN3snqmgTiE56CH3AMBgmlkgnY0iXNlY3AyNTZrMaECC2_24YYkYHEgdzxlSNKQEnHhuNAbNlMlWJxrJxbAFvA'',
      ''enr:-HW4QAggRauloj2SDLtIHN1XBkvhFZ1vtf1raYQp9TBW2RD5EEawDzbtSmlXUfnaHcvwOizhVYLtr7e6vw7NAf6mTuoCgmlkgnY0iXNlY3AyNTZrMaECjrXI8TLNXU0f8cthpAMxEshUyQlK-AM0PW2wfrnacNI'',
      ''enr:-HW4QLAYqmrwllBEnzWWs7I5Ev2IAs7x_dZlbYdRdMUx5EyKHDXp7AV5CkuPGUPdvbv1_Ms1CPfhcGCvSElSosZmyoqAgmlkgnY0iXNlY3AyNTZrMaECriawHKWdDRk2xeZkrOXBQ0dfMFLHY4eENZwdufn1S1o'']"

definition eip_records :: "(string option \<times> string) list" where
  "eip_records =
     [(None, ''enrtree-root:v1 e=JWXYDBPXYWG6FX3GMDIBFA6CJ4 l=C7HRFPF3BLGF3YR4DY5KX3SMBE seq=1 sig=o908WmNp7LibOfPsr4btQwatZJ5URBr2ZAuxvK4UWHlsB9sUOTJQaGAlLPVAhM__XJesCHxLISo94z5Z2a463gA''),
      (Some ''C7HRFPF3BLGF3YR4DY5KX3SMBE'', ''enrtree://AM5FCQLWIZX2QFPNJAP7VUERCCRNGRHWZG3YYHIUV7BVDQ5FDPRT2@morenodes.example.org''),
      (Some ''JWXYDBPXYWG6FX3GMDIBFA6CJ4'', ''enrtree-branch:2XS2367YHAXJFGLZHVAWLQD4ZY,H4FHT4B454P6UXFD7JCYQ5PWDY,MHTDO6TMUBRIA2XWG5LUDACK24''),
      (Some ''2XS2367YHAXJFGLZHVAWLQD4ZY'', eip_enrs ! 0), (Some ''H4FHT4B454P6UXFD7JCYQ5PWDY'', eip_enrs ! 1),
      (Some ''MHTDO6TMUBRIA2XWG5LUDACK24'', eip_enrs ! 2)]"

definition eip_example :: "('pk, 'enr) dns_api \<Rightarrow> 'pk \<Rightarrow> bool \<Rightarrow> 'enr item list \<Rightarrow> bool" where
  "eip_example A key =
     query A (with_remote_whitelist [(''morenodes.example.org'', key)]
       (new_resolver (memory_backend (test_records_to_hashmap EIP_DOMAIN eip_records)))) EIP_DOMAIN None"

definition bad_records :: "(string \<times> string) list" where
  "bad_records =
     [(''n'', ''enrtree-root:v1 e=INDMVBZEEQ4ESVYAKGIYU74EAA l=C7HRFPF3BLGF3YR4DY5KX3SMBE seq=3 sig=Vl3AmunLur0JZ3sIyJPSH6A3Vvdp4F40jWQeCmkIhmcgwE4VC5U9wpK8C_uL_CMY29fd6FAhspRvq2z_VysTLAA''),
      (''C7HRFPF3BLGF3YR4DY5KX3SMBE.n'', ''enrtree://AM5FCQLWIZX2QFPNJAP7VUERCCRNGRHWZG3YYHIUV7BVDQ5FDPRT2@morenodes.example.org''),
      (''INDMVBZEEQ4ESVYAKGIYU74EAA.n'', ''enr:-----'')]"

definition bad_node :: "('pk, 'enr) dns_api \<Rightarrow> bool \<Rightarrow> 'enr item list \<Rightarrow> bool" where
  "bad_node A =
     query_tree A (new_resolver (memory_backend (test_records_to_hashmap_geth bad_records))) ''enrtree://AKPYQIUQIL7PSIACI32J7FGZW56E5FKHEFCCOFHILBIMW3M6LWXS2@n''"

text \<open>The key of a link, from its text.\<close>

definition decodes_key :: "('pk, 'enr) dns_api \<Rightarrow> string \<Rightarrow> 'pk \<Rightarrow> bool" where
  "decodes_key A s k \<longleftrightarrow> Option.bind (base32_nopad_decode A s) (decode_public A) = Some k"

section \<open>Runs whose plans are known\<close>

lemma child_run_done:
  assumes "child_run A B kind host c ended xs" "child_plan A B kind host c = Done items"
  shows "ended \<and> xs = items \<or> \<not> ended \<and> xs = []"
  using assms by (cases rule: child_run.cases) auto

lemma child_run_descend:
  assumes "child_run A B kind host c ended xs" "child_plan A B kind host c = Descend children"
  shows "\<not> ended \<and> xs = [] \<or> (\<exists>cs e ys. distinct cs \<and> set cs = children \<and> branch_run A B kind host cs e ys \<and>
    ended = (e \<or> has_err ys) \<and> xs = until_err ys)"
  using assms(1)
proof (cases rule: child_run.cases)
  case (child_descend children' cs e ys)
  moreover from this have "children' = children" using assms(2) by simp
  ultimately show ?thesis by (intro disjI2 exI [of _ cs] exI [of _ e] exI [of _ ys]) simp
qed (use assms(2) in simp_all)

lemma single_branch_run:
  assumes "branch_run A B kind host [c] ended xs"
  shows "child_run A B kind host c ended xs"
  using assms by (cases rule: branch_run.cases) (auto elim: branch_run.cases)

lemma branch_run_leaves:
  assumes "branch_run A B kind host cs ended xs" "\<forall>c \<in> set cs. child_plan A B kind host c = Done [f c]"
  shows "mset xs \<subseteq># mset (map f cs) \<and> (ended \<longrightarrow> mset xs = mset (map f cs))"
  using assms
proof (induction cs arbitrary: ended xs)
  case Nil
  then show ?case by (auto elim: branch_run.cases)
next
  case (Cons c cs)
  from Cons.prems(1) obtain e e' ys zs where run: "child_run A B kind host c e ys" "branch_run A B kind host cs e' zs"
    "xs \<in> shuffles ys zs" "ended = (e \<and> e')"
    by (cases rule: branch_run.cases) auto
  have "mset xs = mset ys + mset zs" using run(3) by (rule mset_shuffles)
  moreover have "e \<and> ys = [f c] \<or> \<not> e \<and> ys = []" using child_run_done [OF run(1)] Cons.prems(2) by auto
  moreover have "mset zs \<subseteq># mset (map f cs) \<and> (e' \<longrightarrow> mset zs = mset (map f cs))"
    using Cons.IH [OF run(2)] Cons.prems(2) by simp
  moreover have "M \<subseteq># N \<Longrightarrow> M \<subseteq># add_mset x N" for M N x
    by (metis add_mset_add_single mset_subset_eq_add_left subset_mset.order_trans)
  ultimately show ?case using run(4) by auto
qed

section \<open>Texts of the zones\<close>

lemma link_plain:
  assumes "CHR ''@'' \<notin> set key" "CHR ''@'' \<notin> set domain" "decodes_key A key k"
  shows "parse_record A (LINK_PREFIX @ key @ ''@'' @ domain) = Ok (Link k domain)"
proof -
  have root: "strip_prefix ROOT_PREFIX (LINK_PREFIX @ s) = None" for s
    by (simp add: strip_prefix_def ROOT_PREFIX_def LINK_PREFIX_def)
  have split: "split_char CHR ''@'' (key @ ''@'' @ domain) = [key, domain]"
    using split_char_sep [OF assms(1), of domain] split_char_word [OF assms(2)] by simp
  show ?thesis
    unfolding parse_record_def root option.case strip_prefix_append parse_link_def split list.case
    using assms(3) by (simp add: decodes_key_def)
qed

lemma enr_plain: "parse_record A (ENR_PREFIX @ s) = bind_outcome (of_option InvalidEnr (enr_parse A (ENR_PREFIX @ s))) (\<lambda>r. Ok (EnrRecord r))"
proof -
  have "strip_prefix ROOT_PREFIX (ENR_PREFIX @ t) = None" "strip_prefix LINK_PREFIX (ENR_PREFIX @ t) = None"
    "strip_prefix BRANCH_PREFIX (ENR_PREFIX @ t) = None" for t
    by (simp_all add: strip_prefix_def ENR_PREFIX_def ROOT_PREFIX_def LINK_PREFIX_def BRANCH_PREFIX_def)
  then show ?thesis unfolding parse_record_def by simp
qed

text \<open>What the tests need of the libraries: the texts of their zones decode.\<close>

definition eip_decodes :: "('pk, 'enr) dns_api \<Rightarrow> 'enr list \<Rightarrow> bool" where
  "eip_decodes A rs \<longleftrightarrow>
     base64url_nopad_decode A ''o908WmNp7LibOfPsr4btQwatZJ5URBr2ZAuxvK4UWHlsB9sUOTJQaGAlLPVAhM__XJesCHxLISo94z5Z2a463gA'' \<noteq> None \<and>
     (\<exists>k. decodes_key A ''AM5FCQLWIZX2QFPNJAP7VUERCCRNGRHWZG3YYHIUV7BVDQ5FDPRT2'' k) \<and>
     list_all2 (\<lambda>t r. enr_parse A t = Some r \<and> enr_to_base64 A r = t) eip_enrs rs"

definition bad_decodes :: "('pk, 'enr) dns_api \<Rightarrow> bool" where
  "bad_decodes A \<longleftrightarrow>
     (\<exists>sig k. base64url_nopad_decode A ''Vl3AmunLur0JZ3sIyJPSH6A3Vvdp4F40jWQeCmkIhmcgwE4VC5U9wpK8C_uL_CMY29fd6FAhspRvq2z_VysTLAA'' = Some sig \<and>
        decodes_key A ''AKPYQIUQIL7PSIACI32J7FGZW56E5FKHEFCCOFHILBIMW3M6LWXS2'' k \<and>
        pk_verify_v4 A k (show_unsigned_root \<lparr>enr_root = ''INDMVBZEEQ4ESVYAKGIYU74EAA'', link_root = ''C7HRFPF3BLGF3YR4DY5KX3SMBE'',
          sequence = 3\<rparr>) (take 64 sig)) \<and>
     (\<exists>k. decodes_key A ''AM5FCQLWIZX2QFPNJAP7VUERCCRNGRHWZG3YYHIUV7BVDQ5FDPRT2'' k) \<and>
     enr_parse A ''enr:-----'' = None"

lemma link_record:
  assumes "decodes_key A ''AM5FCQLWIZX2QFPNJAP7VUERCCRNGRHWZG3YYHIUV7BVDQ5FDPRT2'' k"
  shows "parse_record A ''enrtree://AM5FCQLWIZX2QFPNJAP7VUERCCRNGRHWZG3YYHIUV7BVDQ5FDPRT2@morenodes.example.org'' = Ok (Link k ''morenodes.example.org'')"
  using link_plain [OF _ _ assms, of "''morenodes.example.org''"] by (simp add: LINK_PREFIX_def)

lemma show_small: "show_nat (Suc 0) = ''1''" "show_nat 3 = ''3''"
  by code_simp+

lemma eip_root:
  assumes "base64url_nopad_decode A ''o908WmNp7LibOfPsr4btQwatZJ5URBr2ZAuxvK4UWHlsB9sUOTJQaGAlLPVAhM__XJesCHxLISo94z5Z2a463gA'' = Some s"
  shows "parse_record A ''enrtree-root:v1 e=JWXYDBPXYWG6FX3GMDIBFA6CJ4 l=C7HRFPF3BLGF3YR4DY5KX3SMBE seq=1 sig=o908WmNp7LibOfPsr4btQwatZJ5URBr2ZAuxvK4UWHlsB9sUOTJQaGAlLPVAhM__XJesCHxLISo94z5Z2a463gA'' =
    Ok (Root \<lparr>rr_base = \<lparr>enr_root = ''JWXYDBPXYWG6FX3GMDIBFA6CJ4'', link_root = ''C7HRFPF3BLGF3YR4DY5KX3SMBE'', sequence = 1\<rparr>, rr_signature = s\<rparr>)"
proof -
  let ?u = "\<lparr>enr_root = ''JWXYDBPXYWG6FX3GMDIBFA6CJ4'', link_root = ''C7HRFPF3BLGF3YR4DY5KX3SMBE'', sequence = 1\<rparr>"
  have "root_ok ?u" "tight ''o908WmNp7LibOfPsr4btQwatZJ5URBr2ZAuxvK4UWHlsB9sUOTJQaGAlLPVAhM__XJesCHxLISo94z5Z2a463gA''" by (simp_all add: root_ok_def is_white_def BASE32_HASH_LEN_def)
  from root_text [OF this, of A] assms show ?thesis by (simp add: show_unsigned_root_def ROOT_PREFIX_def show_small)
qed

lemma bad_root:
  assumes "base64url_nopad_decode A ''Vl3AmunLur0JZ3sIyJPSH6A3Vvdp4F40jWQeCmkIhmcgwE4VC5U9wpK8C_uL_CMY29fd6FAhspRvq2z_VysTLAA'' = Some s"
  shows "parse_record A ''enrtree-root:v1 e=INDMVBZEEQ4ESVYAKGIYU74EAA l=C7HRFPF3BLGF3YR4DY5KX3SMBE seq=3 sig=Vl3AmunLur0JZ3sIyJPSH6A3Vvdp4F40jWQeCmkIhmcgwE4VC5U9wpK8C_uL_CMY29fd6FAhspRvq2z_VysTLAA'' =
    Ok (Root \<lparr>rr_base = \<lparr>enr_root = ''INDMVBZEEQ4ESVYAKGIYU74EAA'', link_root = ''C7HRFPF3BLGF3YR4DY5KX3SMBE'', sequence = 3\<rparr>, rr_signature = s\<rparr>)"
proof -
  let ?u = "\<lparr>enr_root = ''INDMVBZEEQ4ESVYAKGIYU74EAA'', link_root = ''C7HRFPF3BLGF3YR4DY5KX3SMBE'', sequence = 3\<rparr>"
  have "root_ok ?u" "tight ''Vl3AmunLur0JZ3sIyJPSH6A3Vvdp4F40jWQeCmkIhmcgwE4VC5U9wpK8C_uL_CMY29fd6FAhspRvq2z_VysTLAA''" by (simp_all add: root_ok_def is_white_def BASE32_HASH_LEN_def)
  from root_text [OF this, of A] assms show ?thesis by (simp add: show_unsigned_root_def ROOT_PREFIX_def show_small)
qed

lemma eip_branch:
  "parse_record A ''enrtree-branch:2XS2367YHAXJFGLZHVAWLQD4ZY,H4FHT4B454P6UXFD7JCYQ5PWDY,MHTDO6TMUBRIA2XWG5LUDACK24'' =
    Ok (Branch {''2XS2367YHAXJFGLZHVAWLQD4ZY'', ''H4FHT4B454P6UXFD7JCYQ5PWDY'', ''MHTDO6TMUBRIA2XWG5LUDACK24''})"
proof -
  let ?hs = "[''2XS2367YHAXJFGLZHVAWLQD4ZY'', ''H4FHT4B454P6UXFD7JCYQ5PWDY'', ''MHTDO6TMUBRIA2XWG5LUDACK24'']"
  have "\<forall>h \<in> set ?hs. hash_ok h" by (simp add: hash_ok_def is_white_def BASE32_HASH_LEN_def)
  from branch_text [OF this, of "\<lambda>_. ?hs" A] show ?thesis by (simp add: BRANCH_PREFIX_def)
qed

lemma eip_lookups:
  defines "B \<equiv> memory_backend (test_records_to_hashmap EIP_DOMAIN eip_records)"
  shows "B EIP_DOMAIN = Inr (Some ''enrtree-root:v1 e=JWXYDBPXYWG6FX3GMDIBFA6CJ4 l=C7HRFPF3BLGF3YR4DY5KX3SMBE seq=1 sig=o908WmNp7LibOfPsr4btQwatZJ5URBr2ZAuxvK4UWHlsB9sUOTJQaGAlLPVAhM__XJesCHxLISo94z5Z2a463gA'')"
    "B (fqdn ''C7HRFPF3BLGF3YR4DY5KX3SMBE'' EIP_DOMAIN) = Inr (Some ''enrtree://AM5FCQLWIZX2QFPNJAP7VUERCCRNGRHWZG3YYHIUV7BVDQ5FDPRT2@morenodes.example.org'')"
    "B (fqdn ''JWXYDBPXYWG6FX3GMDIBFA6CJ4'' EIP_DOMAIN) =
      Inr (Some ''enrtree-branch:2XS2367YHAXJFGLZHVAWLQD4ZY,H4FHT4B454P6UXFD7JCYQ5PWDY,MHTDO6TMUBRIA2XWG5LUDACK24'')"
    "B (fqdn ''2XS2367YHAXJFGLZHVAWLQD4ZY'' EIP_DOMAIN) = Inr (Some (eip_enrs ! 0))"
    "B (fqdn ''H4FHT4B454P6UXFD7JCYQ5PWDY'' EIP_DOMAIN) = Inr (Some (eip_enrs ! 1))"
    "B (fqdn ''MHTDO6TMUBRIA2XWG5LUDACK24'' EIP_DOMAIN) = Inr (Some (eip_enrs ! 2))"
    "B ''morenodes.example.org'' = Inr None"
  by (simp_all add: B_def memory_backend_def test_records_to_hashmap_def eip_records_def EIP_DOMAIN_def fqdn_def update_conv')

lemma bad_lookups:
  defines "B \<equiv> memory_backend (test_records_to_hashmap_geth bad_records)"
  shows "B ''n'' = Inr (Some ''enrtree-root:v1 e=INDMVBZEEQ4ESVYAKGIYU74EAA l=C7HRFPF3BLGF3YR4DY5KX3SMBE seq=3 sig=Vl3AmunLur0JZ3sIyJPSH6A3Vvdp4F40jWQeCmkIhmcgwE4VC5U9wpK8C_uL_CMY29fd6FAhspRvq2z_VysTLAA'')"
    "B (fqdn ''C7HRFPF3BLGF3YR4DY5KX3SMBE'' ''n'') = Inr (Some ''enrtree://AM5FCQLWIZX2QFPNJAP7VUERCCRNGRHWZG3YYHIUV7BVDQ5FDPRT2@morenodes.example.org'')"
    "B (fqdn ''INDMVBZEEQ4ESVYAKGIYU74EAA'' ''n'') = Inr (Some ''enr:-----'')" "B ''morenodes.example.org'' = Inr None"
  by (simp_all add: B_def memory_backend_def test_records_to_hashmap_geth_def bad_records_def fqdn_def update_conv')

section \<open>The example of the standard\<close>

lemma parse_eip_enrs:
  assumes "eip_decodes A rs"
  shows "length rs = 3" "i < 3 \<Longrightarrow> parse_record A (eip_enrs ! i) = Ok (EnrRecord (rs ! i))" "map (enr_to_base64 A) rs = eip_enrs"
proof -
  have l: "list_all2 (\<lambda>t r. enr_parse A t = Some r \<and> enr_to_base64 A r = t) eip_enrs rs" using assms by (simp add: eip_decodes_def)
  have n: "length eip_enrs = 3" by (simp add: eip_enrs_def)
  then show len: "length rs = 3" using list_all2_lengthD [OF l] by simp
  have "\<forall>t \<in> set eip_enrs. take 4 t = ENR_PREFIX" by (simp add: eip_enrs_def ENR_PREFIX_def)
  then have prefix: "eip_enrs ! i = ENR_PREFIX @ drop 4 (eip_enrs ! i)" if "i < 3" for i
    using that n nth_mem [of i eip_enrs] by (metis append_take_drop_id)
  show "parse_record A (eip_enrs ! i) = Ok (EnrRecord (rs ! i))" if "i < 3"
    using enr_plain [of A "drop 4 (eip_enrs ! i)"] prefix [OF that] list_all2_nthD [OF l, of i] that n by simp
  show "map (enr_to_base64 A) rs = eip_enrs"
    using l len n by (intro nth_equalityI) (auto dest: list_all2_nthD2)
qed

text \<open>The plans of the tasks.\<close>

definition eip_leaf :: "'enr list \<Rightarrow> string \<Rightarrow> 'enr" where
  "eip_leaf rs c = (if c = ''2XS2367YHAXJFGLZHVAWLQD4ZY'' then rs ! 0 else if c = ''H4FHT4B454P6UXFD7JCYQ5PWDY'' then rs ! 1 else rs ! 2)"

lemma eip_plans:
  defines "B \<equiv> memory_backend (test_records_to_hashmap EIP_DOMAIN eip_records)"
  assumes "eip_decodes A rs"
  shows "tree_plan A B EIP_DOMAIN None None = Subtrees ''C7HRFPF3BLGF3YR4DY5KX3SMBE'' ''JWXYDBPXYWG6FX3GMDIBFA6CJ4''"
    "(\<exists>k. child_plan A B (LinkKind wl) EIP_DOMAIN ''C7HRFPF3BLGF3YR4DY5KX3SMBE'' = Follow k ''morenodes.example.org'' wl) \<or>
      child_plan A B (LinkKind wl) EIP_DOMAIN ''C7HRFPF3BLGF3YR4DY5KX3SMBE'' = Done []"
    "tree_plan A B ''morenodes.example.org'' pk seen = TreeDone []"
    "child_plan A B EnrKind EIP_DOMAIN ''JWXYDBPXYWG6FX3GMDIBFA6CJ4'' =
      Descend {''2XS2367YHAXJFGLZHVAWLQD4ZY'', ''H4FHT4B454P6UXFD7JCYQ5PWDY'', ''MHTDO6TMUBRIA2XWG5LUDACK24''}"
    "c \<in> {''2XS2367YHAXJFGLZHVAWLQD4ZY'', ''H4FHT4B454P6UXFD7JCYQ5PWDY'', ''MHTDO6TMUBRIA2XWG5LUDACK24''} \<Longrightarrow>
      child_plan A B EnrKind EIP_DOMAIN c = Done [Inr (eip_leaf rs c)]"
proof -
  note look = eip_lookups [folded B_def]
  obtain s k where d: "base64url_nopad_decode A ''o908WmNp7LibOfPsr4btQwatZJ5URBr2ZAuxvK4UWHlsB9sUOTJQaGAlLPVAhM__XJesCHxLISo94z5Z2a463gA'' = Some s" "decodes_key A ''AM5FCQLWIZX2QFPNJAP7VUERCCRNGRHWZG3YYHIUV7BVDQ5FDPRT2'' k"
    using assms(2) by (auto simp: eip_decodes_def)
  show "tree_plan A B EIP_DOMAIN None None = Subtrees ''C7HRFPF3BLGF3YR4DY5KX3SMBE'' ''JWXYDBPXYWG6FX3GMDIBFA6CJ4''"
    by (simp add: tree_plan_def look eip_root [OF d(1)])
  show "(\<exists>k. child_plan A B (LinkKind wl) EIP_DOMAIN ''C7HRFPF3BLGF3YR4DY5KX3SMBE'' = Follow k ''morenodes.example.org'' wl) \<or>
      child_plan A B (LinkKind wl) EIP_DOMAIN ''C7HRFPF3BLGF3YR4DY5KX3SMBE'' = Done []"
    by (simp add: child_plan_def look link_record [OF d(2)])
  show "tree_plan A B ''morenodes.example.org'' pk seen = TreeDone []" by (simp add: tree_plan_def look)
  show "child_plan A B EnrKind EIP_DOMAIN ''JWXYDBPXYWG6FX3GMDIBFA6CJ4'' =
      Descend {''2XS2367YHAXJFGLZHVAWLQD4ZY'', ''H4FHT4B454P6UXFD7JCYQ5PWDY'', ''MHTDO6TMUBRIA2XWG5LUDACK24''}"
    by (simp add: child_plan_def look eip_branch)
  have "child_plan A B EnrKind EIP_DOMAIN ''2XS2367YHAXJFGLZHVAWLQD4ZY'' = Done [Inr (rs ! 0)]"
    "child_plan A B EnrKind EIP_DOMAIN ''H4FHT4B454P6UXFD7JCYQ5PWDY'' = Done [Inr (rs ! 1)]"
    "child_plan A B EnrKind EIP_DOMAIN ''MHTDO6TMUBRIA2XWG5LUDACK24'' = Done [Inr (rs ! 2)]"
    by (simp_all add: child_plan_def look parse_eip_enrs(2) [OF assms(2)])
  then show "c \<in> {''2XS2367YHAXJFGLZHVAWLQD4ZY'', ''H4FHT4B454P6UXFD7JCYQ5PWDY'', ''MHTDO6TMUBRIA2XWG5LUDACK24''} \<Longrightarrow>
      child_plan A B EnrKind EIP_DOMAIN c = Done [Inr (eip_leaf rs c)]"
    by (auto simp: eip_leaf_def)
qed

lemma eip_links_silent:
  assumes "eip_decodes A rs"
    and "branch_run A (memory_backend (test_records_to_hashmap EIP_DOMAIN eip_records)) (LinkKind wl) EIP_DOMAIN
      [''C7HRFPF3BLGF3YR4DY5KX3SMBE''] ended xs"
  shows "xs = []"
  using eip_plans(2) [OF assms(1), of wl]
proof (elim disjE exE)
  fix k
  assume follow: "child_plan A (memory_backend (test_records_to_hashmap EIP_DOMAIN eip_records)) (LinkKind wl) EIP_DOMAIN
    ''C7HRFPF3BLGF3YR4DY5KX3SMBE'' = Follow k ''morenodes.example.org'' wl"
  from single_branch_run [OF assms(2)] show ?thesis
  proof (cases rule: child_run.cases)
    case (child_follow k' domain wl' e ys)
    from child_follow(4) show ?thesis
      by (cases rule: tree_run.cases) (use child_follow follow eip_plans(3) [OF assms(1)] in auto)
  qed (use follow in auto)
qed (use child_run_done [OF single_branch_run [OF assms(2)]] in auto)

lemma eip_links_end:
  assumes "eip_decodes A rs"
  shows "branch_run A (memory_backend (test_records_to_hashmap EIP_DOMAIN eip_records)) (LinkKind wl) EIP_DOMAIN
      [''C7HRFPF3BLGF3YR4DY5KX3SMBE''] True []"
  using eip_plans(2) [OF assms, of wl]
proof (elim disjE exE)
  fix k
  assume follow: "child_plan A (memory_backend (test_records_to_hashmap EIP_DOMAIN eip_records)) (LinkKind wl) EIP_DOMAIN
    ''C7HRFPF3BLGF3YR4DY5KX3SMBE'' = Follow k ''morenodes.example.org'' wl"
  show ?thesis
    using child_follow [OF follow tree_done [OF eip_plans(3) [OF assms]]] by (intro single_branch) simp
qed (intro single_branch child_done)

abbreviation eip_children :: "string list" where
  "eip_children \<equiv> [''2XS2367YHAXJFGLZHVAWLQD4ZY'', ''H4FHT4B454P6UXFD7JCYQ5PWDY'', ''MHTDO6TMUBRIA2XWG5LUDACK24'']"

lemma eip_leaves: "length rs = 3 \<Longrightarrow> map (eip_leaf rs) eip_children = rs"
  by (rule nth_equalityI) (auto simp: eip_leaf_def less_Suc_eq numeral_3_eq_3 numeral_2_eq_2)

lemma eip_output:
  assumes "eip_decodes A rs" "f \<or> has_err ys"
    and "branch_run A (memory_backend (test_records_to_hashmap EIP_DOMAIN eip_records)) EnrKind EIP_DOMAIN
      [''JWXYDBPXYWG6FX3GMDIBFA6CJ4''] f ys"
  shows "\<exists>out. until_err ys = map Inr out \<and> distinct (map (enr_to_base64 A) out) \<and> set (map (enr_to_base64 A) out) = set eip_enrs"
proof -
  note plans = eip_plans [OF assms(1)] and enrs = parse_eip_enrs [OF assms(1)]
  have "\<not> f \<longrightarrow> ys \<noteq> []" using assms(2) by auto
  then obtain cs e zs where cs: "distinct cs" "set cs = set eip_children" and f: "f = (e \<or> has_err zs)" "ys = until_err zs"
    and run: "branch_run A (memory_backend (test_records_to_hashmap EIP_DOMAIN eip_records)) EnrKind EIP_DOMAIN cs e zs"
    using child_run_descend [OF single_branch_run [OF assms(3)] plans(4)] by auto
  have leaves: "mset zs \<subseteq># mset (map (Inr \<circ> eip_leaf rs) cs)" "e \<longrightarrow> mset zs = mset (map (Inr \<circ> eip_leaf rs) cs)"
    using branch_run_leaves [OF run, of "Inr \<circ> eip_leaf rs"] plans(5) cs(2) by auto
  have "set zs \<subseteq> range Inr" using set_mset_mono [OF leaves(1)] by auto
  then have zs: "\<not> has_err zs" "zs = map Inr (map projr zs)" by (auto intro!: map_idI [symmetric])
  let ?out = "map projr zs"
  have e: e using assms(2) f zs(1) by simp
  have "mset ?out = mset (map (eip_leaf rs) cs)" using leaves(2) e by (simp add: multiset.map_comp comp_def)
  also have "\<dots> = mset (map (eip_leaf rs) eip_children)"
  proof -
    have "distinct eip_children" by simp
    with cs have "mset cs = mset eip_children" using set_eq_iff_mset_eq_distinct by blast
    then show ?thesis unfolding mset_map by (rule arg_cong)
  qed
  also have "\<dots> = mset rs" by (simp only: eip_leaves [OF enrs(1)])
  finally have "mset (map (enr_to_base64 A) ?out) = mset eip_enrs" using enrs(3) by (metis mset_map)
  moreover have "distinct eip_enrs" by (simp add: eip_enrs_def)
  ultimately have "distinct (map (enr_to_base64 A) ?out)" "set (map (enr_to_base64 A) ?out) = set eip_enrs"
    using mset_eq_imp_distinct_iff mset_eq_setD by blast+
  moreover have "until_err ys = map Inr ?out"
    using f(2) until_err_id [OF zs(1)] zs by simp
  ultimately show ?thesis by blast
qed

text \<open>
  C14. The test \<open>eip_example\<close> passes. For every decoding of the texts of its zone and every key in the
  whitelist, whether or not it is that of the link, and for every interleaving of the tasks: the query
  can end, and when it has ended it has yielded the three node records of the zone, each once and none
  else, without an error.
\<close>

theorem eip_example_passes:
  assumes "eip_decodes A rs"
  shows "(\<exists>items. eip_example A key True items) \<and>
    (\<forall>items. eip_example A key True items \<longrightarrow>
       (\<exists>out. items = map Inr out \<and> distinct (map (enr_to_base64 A) out) \<and> set (map (enr_to_base64 A) out) = set eip_enrs))"
proof (intro conjI allI impI)
  let ?B = "memory_backend (test_records_to_hashmap EIP_DOMAIN eip_records)"
  let ?wl = "Some [(''morenodes.example.org'', key)]"
  note plans = eip_plans [OF assms] and enrs = parse_eip_enrs [OF assms]
  have query: "eip_example A key = tree_run A ?B EIP_DOMAIN None None ?wl"
    by (simp add: eip_example_def query_def with_remote_whitelist_def new_resolver_def)
  have children: "distinct eip_children" "set eip_children = {''2XS2367YHAXJFGLZHVAWLQD4ZY'', ''H4FHT4B454P6UXFD7JCYQ5PWDY'', ''MHTDO6TMUBRIA2XWG5LUDACK24''}"
    by simp_all
  have "branch_run A ?B EnrKind EIP_DOMAIN eip_children True (concat (map (\<lambda>c. [Inr (eip_leaf rs c)]) eip_children))"
    by (rule branch_run_concat [where child_run_ended = "\<lambda>c xs. c \<in> set eip_children \<and> xs = [Inr (eip_leaf rs c)]"])
      (simp, use plans(5) in \<open>auto intro!: child_done\<close>)
  from tree_records [OF plans(1) eip_links_end [OF assms] _ single_branch [OF child_descend [OF plans(4) children this]], of ?wl]
  show "\<exists>items. eip_example A key True items" unfolding query by auto
  fix items
  assume "eip_example A key True items"
  then show "\<exists>out. items = map Inr out \<and> distinct (map (enr_to_base64 A) out) \<and> set (map (enr_to_base64 A) out) = set eip_enrs"
    unfolding query
  proof (cases rule: tree_run.cases)
    case (tree_links l e f xs)
    then have l: "l = ''C7HRFPF3BLGF3YR4DY5KX3SMBE''" using plans(1) by simp
    have "xs = []" using tree_links(4) eip_links_silent [OF assms] unfolding l by blast
    with tree_links show ?thesis by simp
  next
    case (tree_records l e xs f ys)
    then have le: "l = ''C7HRFPF3BLGF3YR4DY5KX3SMBE''" "e = ''JWXYDBPXYWG6FX3GMDIBFA6CJ4''" using plans(1) by simp_all
    have xs: "xs = []" using tree_records(4) eip_links_silent [OF assms] unfolding le by blast
    from eip_output [OF assms _ tree_records(6) [unfolded le]] tree_records(1,2) xs show ?thesis by auto
  qed (use plans(1) in auto)
qed

section \<open>A node record that does not parse\<close>

lemma tree_link_record:
  assumes "decodes_key A ''AKPYQIUQIL7PSIACI32J7FGZW56E5FKHEFCCOFHILBIMW3M6LWXS2'' k"
  shows "parse_record A ''enrtree://AKPYQIUQIL7PSIACI32J7FGZW56E5FKHEFCCOFHILBIMW3M6LWXS2@n'' = Ok (Link k ''n'')"
  using link_plain [OF _ _ assms, of "''n''"] by (simp add: LINK_PREFIX_def)

lemma bad_links:
  assumes "decodes_key A ''AM5FCQLWIZX2QFPNJAP7VUERCCRNGRHWZG3YYHIUV7BVDQ5FDPRT2'' k"
  defines "B \<equiv> memory_backend (test_records_to_hashmap_geth bad_records)"
  shows "child_plan A B (LinkKind None) ''n'' ''C7HRFPF3BLGF3YR4DY5KX3SMBE'' = Follow k ''morenodes.example.org'' None"
    "tree_plan A B ''morenodes.example.org'' pk seen = TreeDone []"
  using link_record [OF assms(1)] by (simp_all add: B_def child_plan_def tree_plan_def bad_lookups domain_is_allowed_def)

lemma bad_links_silent:
  assumes "decodes_key A ''AM5FCQLWIZX2QFPNJAP7VUERCCRNGRHWZG3YYHIUV7BVDQ5FDPRT2'' k"
    and "branch_run A (memory_backend (test_records_to_hashmap_geth bad_records)) (LinkKind None) ''n'' [''C7HRFPF3BLGF3YR4DY5KX3SMBE''] ended xs"
  shows "xs = []"
  using single_branch_run [OF assms(2)]
proof (cases rule: child_run.cases)
  case (child_follow k' domain wl' e ys)
  from child_follow(4) show ?thesis
    by (cases rule: tree_run.cases) (use child_follow bad_links [OF assms(1)] in auto)
qed (use bad_links [OF assms(1)] in auto)

text \<open>
  C8. The test \<open>bad_node\<close> passes. Its root is trusted under the key of the tree's URL, its record tree is a
  node record that does not parse: however the tasks interleave, the query can end, and when it has
  ended it has yielded one item, the \<open>InvalidEnr\<close> error.
\<close>

theorem bad_node_fails:
  assumes "bad_decodes A"
  shows "(\<exists>items. bad_node A True items) \<and> (\<forall>items. bad_node A True items \<longrightarrow> items = [Inl InvalidEnr])"
proof -
  let ?B = "memory_backend (test_records_to_hashmap_geth bad_records)"
  obtain sig k l where d: "base64url_nopad_decode A ''Vl3AmunLur0JZ3sIyJPSH6A3Vvdp4F40jWQeCmkIhmcgwE4VC5U9wpK8C_uL_CMY29fd6FAhspRvq2z_VysTLAA'' = Some sig"
    "decodes_key A ''AKPYQIUQIL7PSIACI32J7FGZW56E5FKHEFCCOFHILBIMW3M6LWXS2'' k" "decodes_key A ''AM5FCQLWIZX2QFPNJAP7VUERCCRNGRHWZG3YYHIUV7BVDQ5FDPRT2'' l" "enr_parse A ''enr:-----'' = None"
    "pk_verify_v4 A k (show_unsigned_root \<lparr>enr_root = ''INDMVBZEEQ4ESVYAKGIYU74EAA'', link_root = ''C7HRFPF3BLGF3YR4DY5KX3SMBE'',
          sequence = 3\<rparr>) (take 64 sig)"
    using assms unfolding bad_decodes_def by blast
  have query: "bad_node A = tree_run A ?B ''n'' (Some k) None None"
    by (intro ext) (simp add: bad_node_def query_tree_def query_def new_resolver_def tree_link_record [OF d(2)])
  have plan: "tree_plan A ?B ''n'' (Some k) None = Subtrees ''C7HRFPF3BLGF3YR4DY5KX3SMBE'' ''INDMVBZEEQ4ESVYAKGIYU74EAA''"
    by (simp add: tree_plan_def bad_lookups bad_root [OF d(1)] root_verify_def d(5))
  have enr: "child_plan A ?B EnrKind ''n'' ''INDMVBZEEQ4ESVYAKGIYU74EAA'' = Done [Inl InvalidEnr]"
    using enr_plain [of A "''-----''"] d(4) by (simp add: child_plan_def bad_lookups ENR_PREFIX_def)
  have links: "branch_run A ?B (LinkKind None) ''n'' [''C7HRFPF3BLGF3YR4DY5KX3SMBE''] True []"
    using child_follow [OF bad_links(1) [OF d(3)] tree_done [OF bad_links(2) [OF d(3)]]] by (intro single_branch) simp
  have "bad_node A True [Inl InvalidEnr]"
    using tree_records [OF plan links _ single_branch [OF child_done [OF enr]]] unfolding query by simp
  moreover have "items = [Inl InvalidEnr]" if "bad_node A True items" for items
    using that unfolding query
  proof (cases rule: tree_run.cases)
    case (tree_links l e f xs)
    then have l: "l = ''C7HRFPF3BLGF3YR4DY5KX3SMBE''" using plan by simp
    have "xs = []" using tree_links(4) bad_links_silent [OF d(3)] unfolding l by blast
    with tree_links show ?thesis by simp
  next
    case (tree_records l e xs f ys)
    then have le: "l = ''C7HRFPF3BLGF3YR4DY5KX3SMBE''" "e = ''INDMVBZEEQ4ESVYAKGIYU74EAA''" using plan by simp_all
    have "xs = []" using tree_records(4) bad_links_silent [OF d(3)] unfolding le by blast
    moreover have "f \<and> ys = [Inl InvalidEnr] \<or> \<not> f \<and> ys = []"
      using child_run_done [OF single_branch_run [OF tree_records(6) [unfolded le]] enr] .
    ultimately show ?thesis using tree_records(1,2) by auto
  qed (use plan in auto)
  ultimately show ?thesis by blast
qed

section \<open>Witnesses\<close>

definition test_dns :: "(bytes, string) dns_api" where
  "test_dns = demo_dns\<lparr>base64url_nopad_decode := (\<lambda>s. Some [1]), base32_nopad_decode := (\<lambda>s. Some [1]),
     enr_parse := (\<lambda>s. if s = ''enr:-----'' then None else Some s), enr_to_base64 := id\<rparr>"

theorem eip_example_passes_witness:
  "\<exists>out. eip_example test_dns [2] True (map Inr out) \<and> set out = set eip_enrs"
proof -
  have "eip_decodes test_dns eip_enrs"
    by (simp add: eip_decodes_def decodes_key_def test_dns_def demo_dns_def eip_enrs_def)
  from eip_example_passes [OF this, of "[2]"] show ?thesis by (auto simp: test_dns_def)
qed

theorem bad_node_fails_witness: "bad_node test_dns True [Inl InvalidEnr]"
proof -
  have "bad_decodes test_dns" by (simp add: bad_decodes_def decodes_key_def test_dns_def demo_dns_def)
  from bad_node_fails [OF this] show ?thesis by auto
qed

end
