(* ===== verification/Ecies_Tests.thy ===== *)
theory Ecies_Tests
  imports Ecies Api_Instances
begin

text \<open>
  The unit tests of \<^verbatim>\<open>devp2p/src/ecies/algorithm.rs\<close>, with the helpers the code has for them. A failed assertion
  and an \<open>unwrap\<close> of an error are \<open>Panic\<close>. The test vectors of EIP-8 are parameters: what the tests need of them
  is that they are messages of the format of EIP-8 for the keys of the test.
\<close>

section \<open>The helpers of the tests\<close>

definition create_auth :: "rlp_api \<Rightarrow> ('sk, 'pk, 'c) crypto \<Rightarrow> 'sk \<Rightarrow> bytes \<Rightarrow> nat \<Rightarrow> (('sk, 'pk, 'c) ecies, ecies_error, bytes) st" where
  "create_auth R C sk iv pad = write_auth R C sk iv pad []"

definition create_ack :: "rlp_api \<Rightarrow> ('sk, 'pk, 'c) crypto \<Rightarrow> 'sk \<Rightarrow> bytes \<Rightarrow> (('sk, 'pk, 'c) ecies, ecies_error, bytes) st" where
  "create_ack R C sk iv = write_ack R C sk iv []"

definition create_header :: "('sk, 'pk, 'c) crypto \<Rightarrow> nat \<Rightarrow> (('sk, 'pk, 'c) ecies, ecies_error, bytes) st" where
  "create_header C n = write_header C [] n"

definition create_body :: "('sk, 'pk, 'c) crypto \<Rightarrow> bytes \<Rightarrow> (('sk, 'pk, 'c) ecies, ecies_error, bytes) st" where
  "create_body C data = write_body C [] data"

text \<open>A result that is unwrapped, and an assertion.\<close>

definition unwrapped :: "(ecies_error, 'a) outcome \<times> 's \<Rightarrow> (ecies_error, 'a \<times> 's) outcome" where
  "unwrapped r = (case r of (Ok a, s) \<Rightarrow> Ok (a, s) | _ \<Rightarrow> Panic)"

definition assert_ok :: "bool \<Rightarrow> (ecies_error, unit) outcome" where
  "assert_ok b = (if b then Ok () else Panic)"

lemma test_simps [simp]: "unwrapped (Ok a, s) = Ok (a, s)" "assert_ok True = Ok ()"
  by (simp_all add: unwrapped_def assert_ok_def)

section \<open>The test of a conversation\<close>

type_synonym ('sk, 'pk, 'c) ends = "('sk, 'pk, 'c) ecies \<times> ('sk, 'pk, 'c) ecies"

definition handshake_test :: "rlp_api \<Rightarrow> ('sk, 'pk, 'c) crypto \<Rightarrow> 'sk \<Rightarrow> bytes \<Rightarrow> nat \<Rightarrow> 'sk \<Rightarrow> bytes \<Rightarrow> ('sk, 'pk, 'c) ends
    \<Rightarrow> (ecies_error, ('sk, 'pk, 'c) ends) outcome" where
  "handshake_test R C k1 iv1 pad k2 iv2 = (\<lambda>(server, client).
     bind_outcome (unwrapped (create_auth R C k1 iv1 pad client)) (\<lambda>(auth, client).
     bind_outcome (unwrapped (read_auth R C auth server)) (\<lambda>(_, server).
     bind_outcome (unwrapped (create_ack R C k2 iv2 server)) (\<lambda>(ack, server).
     bind_outcome (unwrapped (read_ack R C ack client)) (\<lambda>(_, client).
     Ok (server, client))))))"

text \<open>One frame from the first to the second; only the first of the test has its lengths checked.\<close>

definition frame_test :: "('sk, 'pk, 'c) crypto \<Rightarrow> bool \<Rightarrow> bytes \<Rightarrow> ('sk, 'pk, 'c) ends
    \<Rightarrow> (ecies_error, ('sk, 'pk, 'c) ends) outcome" where
  "frame_test C lengths data = (\<lambda>(sender, receiver).
     bind_outcome (unwrapped (create_header C (length data) sender)) (\<lambda>(header, sender).
     bind_outcome (assert_ok (\<not> lengths \<or> length header = header_len)) (\<lambda>_.
     bind_outcome (unwrapped (read_header C header receiver)) (\<lambda>(_, receiver).
     bind_outcome (unwrapped (create_body C data sender)) (\<lambda>(body, sender).
     bind_outcome (assert_ok (\<not> lengths \<or> body_len receiver = Ok (length body))) (\<lambda>_.
     bind_outcome (unwrapped (read_body C body receiver)) (\<lambda>(ret, receiver).
     bind_outcome (assert_ok (ret = data)) (\<lambda>_.
     Ok (sender, receiver)))))))))"

definition swapped :: "(ecies_error, 'a \<times> 'b) outcome \<Rightarrow> (ecies_error, 'b \<times> 'a) outcome" where
  "swapped r = bind_outcome r (\<lambda>(a, b). Ok (b, a))"

definition server_frame :: "('sk, 'pk, 'c) crypto \<Rightarrow> bool \<Rightarrow> bytes \<Rightarrow> ('sk, 'pk, 'c) ends \<Rightarrow> (ecies_error, ('sk, 'pk, 'c) ends) outcome" where
  "server_frame C lengths data = (\<lambda>(server, client). frame_test C lengths data (server, client))"

definition client_frame :: "('sk, 'pk, 'c) crypto \<Rightarrow> bool \<Rightarrow> bytes \<Rightarrow> ('sk, 'pk, 'c) ends \<Rightarrow> (ecies_error, ('sk, 'pk, 'c) ends) outcome" where
  "client_frame C lengths data = (\<lambda>(server, client). swapped (frame_test C lengths data (client, server)))"

text \<open>The keys, nonces and initialisation vectors the libraries draw at random.\<close>

record 'sk test_rand =
  tr_server_key :: 'sk
  tr_server_nonce :: bytes
  tr_server_ephemeral :: 'sk
  tr_client_key :: 'sk
  tr_client_nonce :: bytes
  tr_client_ephemeral :: 'sk
  tr_auth :: "'sk \<times> bytes \<times> nat"
  tr_ack :: "'sk \<times> bytes"

definition communicate :: "rlp_api \<Rightarrow> ('sk, 'pk, 'c) crypto \<Rightarrow> 'sk test_rand \<Rightarrow> (ecies_error, ('sk, 'pk, 'c) ends) outcome" where
  "communicate R C t =
     (let server_to_client_data = [0, 1, 2, 3, 4]; client_to_server_data = [5, 6, 7]; (k1, iv1, pad) = tr_auth t; (k2, iv2) = tr_ack t in
     bind_outcome (new_static_server C (tr_server_key t) (tr_server_nonce t) (tr_server_ephemeral t)) (\<lambda>server_ecies.
     bind_outcome (new_static_client C (tr_client_key t) (pk2id C (cr_public C (tr_server_key t))) (tr_client_nonce t)
       (tr_client_ephemeral t)) (\<lambda>client_ecies.
     bind_outcome (handshake_test R C k1 iv1 pad k2 iv2 (server_ecies, client_ecies)) (\<lambda>ends.
     bind_outcome (server_frame C True server_to_client_data ends) (\<lambda>ends.
     bind_outcome (client_frame C False client_to_server_data ends) (\<lambda>ends.
     bind_outcome (server_frame C False server_to_client_data ends) (\<lambda>ends.
     bind_outcome (server_frame C False server_to_client_data ends) (\<lambda>ends.
     bind_outcome (client_frame C False client_to_server_data ends) (\<lambda>ends.
     client_frame C False client_to_server_data ends)))))))))"

definition test_rand_ok :: "'sk test_rand \<Rightarrow> bool" where
  "test_rand_ok t \<longleftrightarrow> length (tr_server_nonce t) = 32 \<and> length (tr_client_nonce t) = 32 \<and>
     length (fst (snd (tr_auth t))) = 16 \<and> snd (snd (tr_auth t)) \<le> 300 \<and> length (snd (tr_ack t)) = 16"

lemma frame_test_ok:
  assumes C: "crypto_ok C" and l: "linked a b" "linked b a" and n: "length d < 2 ^ 24"
  shows "\<exists>a' b'. frame_test C lengths d (a, b) = Ok (a', b') \<and> linked a' b' \<and> linked b' a'"
proof -
  obtain h a1 b1 where h: "length h = 32" "\<And>out. write_header C out (length d) a = (Ok (out @ h), a1)"
    "read_header C h b = (Ok (length d), b1)" "linked a1 b1" "ec_body_size b1 = Some (length d)" "one_way a a1 b b1"
    using header_roundtrip [OF C l(1) n] by blast
  obtain f a2 b2 where f: "body_len b1 = Ok (length f)" "\<And>out. write_body C out d a1 = (Ok (out @ f), a2)"
    "read_body C f b1 = (Ok d, b2)" "linked a2 b2" "one_way a1 a2 b1 b2"
    using body_roundtrip [OF C h(4,5)] by blast
  have "linked b2 a2" using one_way_linked [OF one_way_trans [OF h(6) f(5)] l(2)] .
  then show ?thesis using h(1-3) f
    by (simp add: frame_test_def create_header_def create_body_def header_len_def)
qed

text \<open>Both directions of a connection are linked; a frame either way keeps it so.\<close>

definition both_linked :: "('sk, 'pk, 'c) ends \<Rightarrow> bool" where
  "both_linked ends \<longleftrightarrow> linked (fst ends) (snd ends) \<and> linked (snd ends) (fst ends)"

lemma frames_ok:
  assumes "crypto_ok C" "both_linked ends" "length d < 2 ^ 24"
  shows "\<exists>ends'. server_frame C lengths d ends = Ok ends' \<and> both_linked ends'"
    and "\<exists>ends'. client_frame C lengths d ends = Ok ends' \<and> both_linked ends'"
proof -
  obtain s c where e: "ends = (s, c)" by (cases ends)
  show "\<exists>ends'. server_frame C lengths d ends = Ok ends' \<and> both_linked ends'"
    using frame_test_ok [of C s c d lengths] assms by (auto simp: e server_frame_def both_linked_def)
  show "\<exists>ends'. client_frame C lengths d ends = Ok ends' \<and> both_linked ends'"
    using frame_test_ok [of C c s d lengths] assms by (auto simp: e client_frame_def both_linked_def swapped_def)
qed

lemma frames_then:
  assumes C: "crypto_ok C" "both_linked ends" "length d < 2 ^ 24"
    and rest: "\<And>ends'. both_linked ends' \<Longrightarrow> \<exists>e. k ends' = Ok e \<and> both_linked e"
  shows "\<exists>e. bind_outcome (server_frame C lengths d ends) k = Ok e \<and> both_linked e"
    and "\<exists>e. bind_outcome (client_frame C lengths d ends) k = Ok e \<and> both_linked e"
  using frames_ok [OF C, of lengths] rest by fastforce+

text \<open>
  C11. The test \<open>communicate\<close> passes, for all keys, nonces and initialisation vectors: the handshake goes
  through, all six frames are read as they were sent, the lengths are as announced, and the two ends can
  go on talking.
\<close>

theorem communicate_passes:
  assumes "crypto_ok C" "rlp_ok R" "test_rand_ok t"
  shows "\<exists>ends. communicate R C t = Ok ends \<and> both_linked ends"
proof -
  obtain k1 iv1 pad k2 iv2 where r: "tr_auth t = (k1, iv1, pad)" "tr_ack t = (k2, iv2)" by (metis prod_cases3 surj_pair)
  have len: "length iv1 = 16" "pad \<le> 300" "length iv2 = 16" "length (tr_server_nonce t) = 32" "length (tr_client_nonce t) = 32"
    using assms(3) r by (simp_all add: test_rand_ok_def)
  obtain s where s: "new_static_server C (tr_server_key t) (tr_server_nonce t) (tr_server_ephemeral t) = Ok s"
    "ec_secret_key s = tr_server_key t"
    by (simp add: new_static_server_def)
  obtain c where c: "new_static_client C (tr_client_key t) (pk2id C (cr_public C (tr_server_key t))) (tr_client_nonce t)
      (tr_client_ephemeral t) = Ok c" "ec_remote_public_key c = Some (cr_public C (tr_server_key t))"
    by (simp add: new_static_client_def id2pk_pk2id [OF assms(1)])
  obtain m1 m2 c1 s1 c2 s2 where h: "\<And>buf. write_auth R C k1 iv1 pad buf c = (Ok (buf @ m1), c1)" "read_auth R C m1 s = (Ok (), s1)"
    "\<And>buf. write_ack R C k2 iv2 buf s1 = (Ok (buf @ m2), s2)" "read_ack R C m2 c1 = (Ok (), c2)" "linked c2 s2" "linked s2 c2"
    using handshake_links [OF assms(1,2) new_static_client_wf [OF c(1) len(5)] new_static_server_wf [OF s(1) len(4)]
        c(2) [folded s(2)] len(1,3,2)] by metis
  have "handshake_test R C k1 iv1 pad k2 iv2 (s, c) = Ok (s2, c2)"
    using h(1-4) by (simp add: handshake_test_def create_auth_def create_ack_def)
  moreover have "both_linked (s2, c2)" using h(5,6) by (simp add: both_linked_def)
  ultimately show ?thesis
    by (simp add: communicate_def s(1) c(1) r Let_def del: split_paired_Ex) (intro frames_then frames_ok assms(1); simp)
qed

section \<open>The test of EIP-8\<close>

text \<open>
  The messages EIP-8 allows: an \<open>auth\<close> or an \<open>ack\<close> whose list goes on after the fields the handshake
  needs (with a version, and whatever a later one adds) and whose list is followed by padding.
\<close>

definition eip8_message :: "('sk, 'pk, 'c) crypto \<Rightarrow> ('sk, 'pk, 'c) ecies \<Rightarrow> 'sk \<Rightarrow> bytes \<Rightarrow> bytes \<Rightarrow> (ecies_error, bytes) outcome" where
  "eip8_message C e sk iv payload =
     bind_outcome (encrypt_message C e sk iv payload) (\<lambda>b. bind_outcome (u16_bytes (length b)) (\<lambda>l. Ok (l @ b)))"

definition eip8_auth :: "rlp_api \<Rightarrow> ('sk, 'pk, 'c) crypto \<Rightarrow> ('sk, 'pk, 'c) ecies \<Rightarrow> 'sk \<Rightarrow> bytes \<Rightarrow> rlp list \<Rightarrow> bytes
    \<Rightarrow> (ecies_error, bytes) outcome" where
  "eip8_auth R C client sk iv extra padding =
     bind_outcome (unwrap (ec_remote_public_key client)) (\<lambda>rpk.
     let (rec_id, sig) = cr_sign C (xor_bytes (ecdh_x C rpk (ec_secret_key client)) (ec_nonce client)) (ec_ephemeral_secret_key client)
     in eip8_message C client sk iv (rl_out R (RList ([RData (sig @ [rec_id]), RData (pk2id C (ec_public_key client)),
          RData (ec_nonce client)] @ extra)) @ padding))"

definition eip8_ack :: "rlp_api \<Rightarrow> ('sk, 'pk, 'c) crypto \<Rightarrow> ('sk, 'pk, 'c) ecies \<Rightarrow> 'sk \<Rightarrow> bytes \<Rightarrow> rlp list \<Rightarrow> bytes
    \<Rightarrow> (ecies_error, bytes) outcome" where
  "eip8_ack R C server sk iv extra padding =
     eip8_message C server sk iv (rl_out R (RList ([RData (pk2id C (ec_ephemeral_public_key server)), RData (ec_nonce server)] @ extra)) @ padding)"

text \<open>The test with its fixed keys and nonces, and with the test vectors as arguments.\<close>

definition eip8_test_server :: "('sk, 'pk, 'c) crypto \<Rightarrow> 'sk test_rand \<Rightarrow> (ecies_error, ('sk, 'pk, 'c) ecies) outcome" where
  "eip8_test_server C t = new_static_server C (tr_server_key t) (tr_server_nonce t) (tr_server_ephemeral t)"

definition eip8_test_client :: "('sk, 'pk, 'c) crypto \<Rightarrow> 'sk test_rand \<Rightarrow> (ecies_error, ('sk, 'pk, 'c) ecies) outcome" where
  "eip8_test_client C t =
     new_static_client C (tr_client_key t) (pk2id C (cr_public C (tr_server_key t))) (tr_client_nonce t) (tr_client_ephemeral t)"

definition eip8_test :: "rlp_api \<Rightarrow> ('sk, 'pk, 'c) crypto \<Rightarrow> 'sk test_rand \<Rightarrow> bytes \<Rightarrow> bytes \<Rightarrow> bytes \<Rightarrow> bytes
    \<Rightarrow> (ecies_error, unit) outcome" where
  "eip8_test R C t auth2 auth3 ack2 ack3 =
     (let (k1, iv1, pad) = tr_auth t; (k2, iv2) = tr_ack t in
     bind_outcome (eip8_test_server C t) (\<lambda>server.
     bind_outcome (unwrapped (read_auth R C auth2 server)) (\<lambda>_.
     bind_outcome (unwrapped (read_auth R C auth3 server)) (\<lambda>_.
     bind_outcome (eip8_test_client C t) (\<lambda>test_client.
     bind_outcome (handshake_test R C k1 iv1 pad k2 iv2 (server, test_client)) (\<lambda>(_, test_client).
     bind_outcome (unwrapped (read_ack R C ack2 test_client)) (\<lambda>(_, test_client).
     bind_outcome (unwrapped (read_ack R C ack3 test_client)) (\<lambda>_.
     Ok ()))))))))"

lemma eip8_message_read:
  assumes "crypto_ok C" "ec_remote_public_key e = Some (cr_public C (ec_secret_key r))" "length iv = 16"
    and "eip8_message C e sk iv payload = Ok m"
  shows "decrypt_message C (r\<lparr>ec_remote_init_msg := Some m\<rparr>) m = Ok payload"
proof -
  from assms(4) obtain b where b: "encrypt_message C e sk iv payload = Ok b" "m = be16 (length b) @ b"
    unfolding eip8_message_def u16_bytes_def bind_outcome_Ok_iff by (auto split: if_splits)
  have "113 + length payload < 2 ^ 16"
  proof (rule ccontr)
    assume long: "\<not> 113 + length payload < 2 ^ 16"
    have "65 + 16 + length payload + 32 = 113 + length payload" by simp
    then have panic: "u16_bytes (65 + 16 + length payload + 32) = Panic" unfolding u16_bytes_def by (simp only: long if_False)
    have "encrypt_message C e sk iv payload = Panic"
      by (simp only: encrypt_message_def assms(2) kdf_32 unwrap_def of_option_def option.case bind_outcome.simps Let_def panic)
    with b(1) show False by simp
  qed
  then obtain b' where "encrypt_message C e sk iv payload = Ok b'" "decrypt_message C r (be16 (length b') @ b') = Ok payload"
    using decrypt_encrypt [OF assms(1-3)] by metis
  moreover have "decrypt_message C (r\<lparr>ec_remote_init_msg := Some m\<rparr>) m = decrypt_message C r m" by (simp add: decrypt_message_def)
  ultimately show ?thesis using b by simp
qed

text \<open>A server reads such an \<open>auth\<close> as it reads the one this code writes.\<close>

lemma eip8_auth_read:
  assumes C: "crypto_ok C" and R: "rlp_ok R" and wf: "ecies_wf C c"
    and rpk: "ec_remote_public_key c = Some (cr_public C (ec_secret_key s))" and iv: "length iv = 16"
    and m: "eip8_auth R C c sk iv extra padding = Ok m"
  shows "read_auth R C m s = (Ok (), after_auth C c m s)"
proof -
  define msg where "msg = xor_bytes (ecdh_x C (cr_public C (ec_secret_key s)) (ec_secret_key c)) (ec_nonce c)"
  define sig where "sig = cr_sign C msg (ec_ephemeral_secret_key c)"
  define u where "u = rl_out R (RList ([RData (snd sig @ [fst sig]), RData (pk2id C (cr_public C (ec_secret_key c))),
      RData (ec_nonce c)] @ extra)) @ padding"
  have len: "length msg = 32" "length (snd sig) = 64" "length (pk2id C (cr_public C (ec_secret_key c))) = 64" "length (ec_nonce c) = 32"
    using wf by (simp_all add: msg_def sig_def length_xor_bytes ecdh_x_length [OF C] ecies_wf_def crypto_lens [OF C] length_pk2id [OF C])
  have "eip8_message C c sk iv u = Ok m"
    using m rpk wf by (simp add: eip8_auth_def msg_def [symmetric] sig_def [symmetric] u_def ecies_wf_def split_beta)
  then have dec: "decrypt_message C (s\<lparr>ec_remote_init_msg := Some m\<rparr>) m = Ok u" by (rule eip8_message_read [OF C rpk iv])
  obtain g where g: "cr_signature C (snd sig) (fst sig) = Some g" "cr_recover C msg g = Some (cr_public C (ec_ephemeral_secret_key c))"
    using crypto_okD(6) [OF C len(1), of "ec_ephemeral_secret_key c"] by (auto simp: sig_def bind_eq_Some_conv)
  have msg: "xor_bytes (ecdh_x C (cr_public C (ec_secret_key c)) (ec_secret_key s)) (ec_nonce c) = msg"
    by (simp add: msg_def ecdh_x_sym [OF C, of "ec_secret_key c"])
  have "parse_auth_unencrypted R C u (s\<lparr>ec_remote_init_msg := Some m\<rparr>) = (Ok (), after_auth C c m s)"
    unfolding u_def
    by (simp add: parse_auth_unencrypted_def rlp_okD [OF R] rlp_okD_whole [OF R] len g id2pk_pk2id [OF C] msg after_auth_def nth_append Let_def)
  with dec show ?thesis by (simp add: read_auth_def)
qed

text \<open>A client that has sent its \<open>auth\<close> reads such an \<open>ack\<close>, however many it has read before.\<close>

lemma eip8_ack_read:
  assumes C: "crypto_ok C" and R: "rlp_ok R" and wf: "ecies_wf C s"
    and rpk: "ec_remote_public_key s = Some (cr_public C (ec_secret_key c))" and iv: "length iv = 16"
    and m: "eip8_ack R C s sk iv extra padding = Ok m" and sent: "ec_init_msg c = Some m0"
  shows "\<exists>c'. read_ack R C m c = (Ok (), c') \<and> ec_init_msg c' = Some m0 \<and> ec_secret_key c' = ec_secret_key c"
proof -
  define u where "u = rl_out R (RList ([RData (pk2id C (cr_public C (ec_ephemeral_secret_key s))), RData (ec_nonce s)] @ extra)) @ padding"
  have dec: "decrypt_message C (c\<lparr>ec_remote_init_msg := Some m\<rparr>) m = Ok u"
    using eip8_message_read [OF C rpk iv] m wf by (simp add: eip8_ack_def u_def ecies_wf_def)
  have "length (ec_nonce s) = 32" using wf by (simp add: ecies_wf_def)
  then have parse: "parse_ack_unencrypted R C u e =
     (Ok (), e\<lparr>ec_remote_ephemeral_public_key := Some (cr_public C (ec_ephemeral_secret_key s)), ec_remote_nonce := Some (ec_nonce s),
       ec_ephemeral_shared_secret := Some (ecdh_x C (cr_public C (ec_ephemeral_secret_key s)) (ec_ephemeral_secret_key e))\<rparr>)" for e
    unfolding u_def by (simp add: parse_ack_unencrypted_def rlp_okD [OF R] rlp_okD_whole [OF R] length_pk2id [OF C] id2pk_pk2id [OF C])
  show ?thesis using dec sent by (simp add: read_ack_def parse setup_frame_run with_frames_def)
qed

text \<open>The \<open>ack\<close> this code writes is one of them.\<close>

lemma write_ack_eip8:
  assumes "write_ack R C sk iv [] s = (Ok m, s')"
  shows "eip8_ack R C s sk iv [RUint PROTOCOL_VERSION] [] = Ok m"
proof (cases "encrypt_message C s sk iv (create_ack_unencrypted R C s)")
  case (Ok b)
  then have "u16_bytes (length b) = Ok (be16 (length b)) \<and> m = be16 (length b) @ b"
    using assms by (auto simp: write_ack_def st_bind_def u16_bytes_def split: prod.splits outcome.splits if_splits)
  with Ok show ?thesis by (simp add: eip8_ack_def eip8_message_def create_ack_unencrypted_def)
qed (use assms in \<open>simp_all add: write_ack_def\<close>)

text \<open>
  C15. The test of EIP-8 passes on every vectors of its format. The test's server reads two \<open>auth\<close> messages
  of its client and the client, after its own handshake, two \<open>ack\<close> messages of its server, whatever
  version and further elements their lists hold and whatever padding follows, for all keys and nonces.
\<close>

theorem eip8_test_passes:
  assumes C: "crypto_ok C" and R: "rlp_ok R" and t: "test_rand_ok t"
    and ends: "eip8_test_server C t = Ok s" "eip8_test_client C t = Ok c"
    and auths: "eip8_auth R C c k2 iv2 extra2 pad2 = Ok auth2" "eip8_auth R C c k3 iv3 extra3 pad3 = Ok auth3"
      "length iv2 = 16" "length iv3 = 16"
    and acks: "eip8_ack R C (s\<lparr>ec_remote_public_key := Some (cr_public C (tr_client_key t))\<rparr>) k4 iv4 extra4 pad4 = Ok ack2"
      "eip8_ack R C (s\<lparr>ec_remote_public_key := Some (cr_public C (tr_client_key t))\<rparr>) k5 iv5 extra5 pad5 = Ok ack3"
      "length iv4 = 16" "length iv5 = 16"
  shows "eip8_test R C t auth2 auth3 ack2 ack3 = Ok ()"
proof -
  obtain k1 iv1 pad k' iv' where r: "tr_auth t = (k1, iv1, pad)" "tr_ack t = (k', iv')" by (metis prod_cases3 surj_pair)
  have len: "length iv1 = 16" "pad \<le> 300" "length iv' = 16" "length (tr_server_nonce t) = 32" "length (tr_client_nonce t) = 32"
    using t r by (simp_all add: test_rand_ok_def)
  have wf: "ecies_wf C s" "ecies_wf C c"
    using new_static_server_wf [OF ends(1) [unfolded eip8_test_server_def] len(4)]
      new_static_client_wf [OF ends(2) [unfolded eip8_test_client_def] len(5)] .
  have keys: "ec_secret_key s = tr_server_key t" "ec_secret_key c = tr_client_key t"
    "ec_remote_public_key c = Some (cr_public C (ec_secret_key s))"
    using ends by (auto simp: eip8_test_server_def eip8_test_client_def new_static_server_def new_static_client_def id2pk_pk2id [OF C])
  obtain m1 where m1: "\<And>buf. write_auth R C k1 iv1 pad buf c = (Ok (buf @ m1), c\<lparr>ec_init_msg := Some m1\<rparr>)"
    "read_auth R C m1 s = (Ok (), after_auth C c m1 s)"
    using write_read_auth [OF C R wf(2) keys(3) len(1,2)] by metis
  obtain m m2 c1 s1 c2 s2 where h: "\<And>buf. write_auth R C k1 iv1 pad buf c = (Ok (buf @ m), c1)" "read_auth R C m s = (Ok (), s1)"
    "\<And>buf. write_ack R C k' iv' buf s1 = (Ok (buf @ m2), s2)" "read_ack R C m2 c1 = (Ok (), c2)"
    using handshake_links [OF C R wf(2,1) keys(3) len(1,3,2)] by metis
  have "m1 = m \<and> c\<lparr>ec_init_msg := Some m1\<rparr> = c1" using h(1) [of "[]", unfolded m1(1) append_Nil prod.inject outcome.inject] .
  then have eq: "m = m1" "c1 = c\<lparr>ec_init_msg := Some m1\<rparr>" by blast+
  then have s1: "s1 = after_auth C c m1 s" using h(2) m1(2) by simp
  have ack: "eip8_ack R C s1 k' iv' [RUint PROTOCOL_VERSION] [] = Ok m2" using h(3) [of "[]"] by (intro write_ack_eip8) simp
  have wf1: "ecies_wf C s1" "ec_remote_public_key s1 = Some (cr_public C (ec_secret_key c1))"
    using wf(1) by (simp_all add: s1 eq(2) after_auth_def ecies_wf_def)
  have c2: "ec_init_msg c2 = Some m1" "ec_secret_key c2 = tr_client_key t"
    using eip8_ack_read [OF C R wf1 len(3) ack, of m1] h(4) keys(2) by (auto simp: eq(2))
  let ?s = "s\<lparr>ec_remote_public_key := Some (cr_public C (tr_client_key t))\<rparr>"
  have s': "ecies_wf C ?s" using wf(1) by (simp add: ecies_wf_def)
  obtain c3 where c3: "read_ack R C ack2 c2 = (Ok (), c3)" "ec_init_msg c3 = Some m1" "ec_secret_key c3 = tr_client_key t"
    using eip8_ack_read [OF C R s' _ acks(3,1) c2(1)] c2(2) by auto
  obtain c4 where c4: "read_ack R C ack3 c3 = (Ok (), c4)"
    using eip8_ack_read [OF C R s' _ acks(4,2) c3(2)] c3(3) by auto
  have "handshake_test R C k1 iv1 pad k' iv' (s, c) = Ok (s2, c2)"
    using h by (simp add: handshake_test_def create_auth_def create_ack_def)
  then show ?thesis
    using c3(1) c4 eip8_auth_read [OF C R wf(2) keys(3) auths(3,1)] eip8_auth_read [OF C R wf(2) keys(3) auths(4,2)]
    by (simp add: eip8_test_def ends r)
qed

section \<open>Witnesses\<close>

definition demo_test :: "byte test_rand" where
  "demo_test = \<lparr>tr_server_key = 2, tr_server_nonce = replicate 32 9, tr_server_ephemeral = 6, tr_client_key = 1,
     tr_client_nonce = replicate 32 8, tr_client_ephemeral = 5, tr_auth = (3, replicate 16 7, 100), tr_ack = (4, replicate 16 7)\<rparr>"

lemma demo_test_ok: "test_rand_ok demo_test"
  by (simp add: test_rand_ok_def demo_test_def)

text \<open>Messages of the format exist: short lists, with a version and one more element.\<close>

lemma eip8_message_short:
  assumes "crypto_ok C" "ec_remote_public_key e = Some pk" "length iv = 16" "length payload \<le> 1000"
  shows "\<exists>m. eip8_message C e sk iv payload = Ok m"
proof -
  have n: "113 + length payload < 2 ^ 16" using assms(4) by simp
  obtain b where b: "encrypt_message C e sk iv payload = Ok b" "length b = 65 + 16 + length payload + 32"
    using encrypt_message_ok [OF assms(2) n refl refl, of C sk iv] by (simp add: crypto_lens [OF assms(1)] assms(3))
  with assms(4) show ?thesis by (simp add: eip8_message_def u16_bytes_def)
qed

lemma eip8_texts_exist:
  assumes C: "crypto_ok C" and R: "rlp_ok R" and wf: "ecies_wf C e" and rpk: "ec_remote_public_key e = Some (cr_public C k)"
    and short: "length iv = 16" "length padding \<le> 300" "v < 128" "w < 128"
  shows "\<exists>m. eip8_auth R C e sk iv [RUint v, RUint w] padding = Ok m" "\<exists>m. eip8_ack R C e sk iv [RUint v, RUint w] padding = Ok m"
proof -
  let ?msg = "xor_bytes (ecdh_x C (cr_public C k) (ec_secret_key e)) (ec_nonce e)"
  let ?sig = "cr_sign C ?msg (ec_ephemeral_secret_key e)"
  have len: "length ?msg = 32" "length (ec_nonce e) = 32" "length (pk2id C (ec_public_key e)) = 64" "length (pk2id C (ec_ephemeral_public_key e)) = 64"
    using wf by (simp_all add: length_xor_bytes ecdh_x_length [OF C] ecies_wf_def length_pk2id [OF C])
  have sig: "length (snd ?sig) = 64" using crypto_lens(5) [OF C] crypto_okD(5) [OF C len(1)] by simp
  have list: "length (rl_out R (RList xs) @ padding) \<le> 1000" if "\<forall>x \<in> set xs. length (rl_out R x) \<le> 100" "length xs \<le> 5" for xs
    using length_RList_le [OF R that] short(2) by simp
  show "\<exists>m. eip8_auth R C e sk iv [RUint v, RUint w] padding = Ok m"
    using eip8_message_short [OF C rpk short(1) list [of "[RData (snd ?sig @ [fst ?sig]), RData (pk2id C (ec_public_key e)),
        RData (ec_nonce e), RUint v, RUint w]"], of sk] sig len short
    by (simp add: eip8_auth_def rpk split_beta RData_short [OF R] RUint_short [OF R])
  show "\<exists>m. eip8_ack R C e sk iv [RUint v, RUint w] padding = Ok m"
    using eip8_message_short [OF C rpk short(1) list [of "[RData (pk2id C (ec_ephemeral_public_key e)), RData (ec_nonce e), RUint v, RUint w]"],
        of sk] len short
    by (simp add: eip8_ack_def RData_short [OF R] RUint_short [OF R])
qed

theorem communicate_passes_witness: "\<exists>ends. communicate demo_rlp demo_crypto demo_test = Ok ends"
  using communicate_passes [OF demo_crypto_ok demo_rlp_ok demo_test_ok] by blast

theorem eip8_test_passes_witness:
  "\<exists>s c auth2 auth3 ack2 ack3. eip8_test_server demo_crypto demo_test = Ok s \<and> eip8_test_client demo_crypto demo_test = Ok c \<and>
    eip8_auth demo_rlp demo_crypto c 3 (replicate 16 7) [RUint 4, RUint 0] [] = Ok auth2 \<and>
    eip8_auth demo_rlp demo_crypto c 3 (replicate 16 7) [RUint 56, RUint 1] (replicate 100 0) = Ok auth3 \<and>
    eip8_test demo_rlp demo_crypto demo_test auth2 auth3 ack2 ack3 = Ok ()"
proof -
  obtain s c where e: "eip8_test_server demo_crypto demo_test = Ok s" "eip8_test_client demo_crypto demo_test = Ok c"
    "ec_remote_public_key c = Some (cr_public demo_crypto 2)"
    by (simp add: eip8_test_server_def eip8_test_client_def new_static_server_def new_static_client_def demo_test_def id2pk_pk2id [OF demo_crypto_ok])
  let ?s = "s\<lparr>ec_remote_public_key := Some (cr_public demo_crypto (tr_client_key demo_test))\<rparr>"
  have "length (tr_server_nonce demo_test) = 32" "length (tr_client_nonce demo_test) = 32" by (simp_all add: demo_test_def)
  then have wf: "ecies_wf demo_crypto ?s" "ecies_wf demo_crypto c"
    using new_static_server_wf [OF e(1) [unfolded eip8_test_server_def]] new_static_client_wf [OF e(2) [unfolded eip8_test_client_def]]
    by (simp_all add: ecies_wf_def)
  have r: "ec_remote_public_key ?s = Some (cr_public demo_crypto (tr_client_key demo_test))" by simp
  have n: "length (replicate 16 (7 :: byte)) = 16" "length (replicate 100 (0 :: byte)) \<le> 300" "length ([] :: bytes) \<le> 300" by simp_all
  note ok = demo_crypto_ok demo_rlp_ok
  obtain auth2 auth3 ack2 where m: "eip8_auth demo_rlp demo_crypto c 3 (replicate 16 7) [RUint 4, RUint 0] [] = Ok auth2"
    "eip8_auth demo_rlp demo_crypto c 3 (replicate 16 7) [RUint 56, RUint 1] (replicate 100 0) = Ok auth3"
    "eip8_ack demo_rlp demo_crypto ?s 3 (replicate 16 7) [RUint 57, RUint 1] [] = Ok ack2"
    using eip8_texts_exist(1) [OF ok wf(2) e(3) n(1,3), of 4 0 3] eip8_texts_exist(1) [OF ok wf(2) e(3) n(1,2), of 56 1 3]
      eip8_texts_exist(2) [OF ok wf(1) r n(1,3), of 57 1 3] by auto
  from eip8_test_passes [OF ok demo_test_ok e(1,2) m(1,2) n(1,1) m(3,3) n(1,1)] e m show ?thesis by blast
qed

end
