(* ===== verification/Spec2Isabelle.thy ===== *)
theory Spec2Isabelle
  imports Kademlia Discv4_Node Discv4_Lookup Connection Sentry Swarm Peer_Tasks Dns_Resolve Dns_Backend Discovery Provider
    Discv4_Exchange Relay Setup Example_Server End_To_End Examples Dns_Tests Ecies_Tests
begin

text \<open>
  A verification of ethereum-sentry, a program that keeps connections to peers of the Ethereum network
  and relays messages between them and its clients.

  \<^bold>\<open>The parts of the program.\<close> Nodes are found by the discovery protocol (the crate \<^verbatim>\<open>discv4\<close>) and by
  DNS records (the crate \<^verbatim>\<open>dnsdisc\<close>). A dialer takes them one by one and the swarm of \<^verbatim>\<open>devp2p\<close>
  (\<^verbatim>\<open>rlpx.rs\<close>) connects to them: a stream is encrypted and authenticated with ECIES (\<^verbatim>\<open>ecies/\<close>,
  \<^verbatim>\<open>mac.rs\<close>), and on top of it the two peers agree on capabilities and exchange messages (\<^verbatim>\<open>peer.rs\<close>).
  Three tasks serve every connected peer and hand what arrives to the capability server of the
  sentry (\<^verbatim>\<open>src/main.rs\<close>), which answers requests for headers and bodies, keeps track of the blocks
  that peers have, and forwards messages to clients; clients send through the service in
  \<^verbatim>\<open>src/services/sentry.rs\<close>.

  \<^bold>\<open>The theories.\<close>

  \<^item> \<open>Prelude\<close>: machine integers and byte strings; \<open>outcome\<close>, the result of code that may fail or
    panic, and its state monad; sorted maps (\<open>BTreeMap\<close>); the locale of systems with an invariant.
  \<^item> \<open>Rlp_Api\<close>, \<open>Crypto_Api\<close>: the interfaces of the libraries \<^verbatim>\<open>rlp\<close>, \<^verbatim>\<open>secp256k1\<close> and the hash
    functions and ciphers, as records of functions with what the code relies on (\<open>rlp_ok\<close>,
    \<open>crypto_ok\<close>), and the locale \<open>rlp_codec\<close> of types that are written and read back.
    \<open>Api_Instances\<close> has a concrete instance of each, which the witnesses use.
  \<^item> \<open>Discv4_Records\<close>, \<open>Kademlia\<close>: \<^verbatim>\<open>discv4/src/kad.rs\<close>, the routing table. The invariant of the
    table, what its operations return, the sorted list of nearest nodes, duplicates.
  \<^item> \<open>Discv4_Msg\<close>: \<^verbatim>\<open>discv4/src/message.rs\<close> and \<^verbatim>\<open>proto.rs\<close>, an interpretation of \<open>rlp_codec\<close> for each
    record and message.
  \<^item> \<open>Discv4_Node\<close>: the tasks of \<^verbatim>\<open>discv4/src/node.rs\<close>. \<open>disc_node\<close> is the state they share
    (\<open>connected\<close>, \<open>node_endpoint\<close>, \<open>inflight_ping_requests\<close>, \<open>expected_pings\<close>,
    \<open>inflight_find_node_requests\<close> and the timers); each handler returns its effects and the new state;
    \<open>disc_step\<close> interleaves them. Datagrams are understood, nothing panics, what can change the state,
    the life of a ping and what its timeout does to the table, the ping that is never sent.
  \<^item> \<open>Discv4_Lookup\<close>: \<open>lookup_inner\<close> as a loop that may not end (\<open>partial_function\<close>), with the proof
    that it always ends, and an account of what it has asked, who has responded and what it has found.
  \<^item> \<open>Discv4_Exchange\<close>: two nodes that talk to each other. A request at the egress router of one, its
    datagram at the ingress router of the other, and the reply back (\<open>exchange\<close>); the whole query of a
    node (\<open>query_run\<close>): what it ends with, from any states the two can reach, when the other's bucket
    has room and when it is full, the reply from a full bucket that is too long for its datagram, and the
    address the other enters.
  \<^item> \<open>Dns_Records\<close>: the records of \<^verbatim>\<open>dnsdisc/src/lib.rs\<close>, their text and their parser, with round trips.
  \<^item> \<open>Dns_Resolve\<close>: the resolution of a tree as inductive relations of partial and ended runs with every
    interleaving of the tasks. What a query yields; when every run of it can end and none goes on for ever;
    when it cannot end; what is not checked.
  \<^item> \<open>Dns_Backend\<close>: \<^verbatim>\<open>backend/trust_dns.rs\<close>, the backend over the network. On a published zone it is
    the backend in memory with every text cut at 255 bytes, so that long branches lose their children.
  \<^item> \<open>Mac\<close>, \<open>Ecies\<close>, \<open>Ecies_Codec\<close>: \<^verbatim>\<open>devp2p/src/mac.rs\<close>, \<^verbatim>\<open>ecies/algorithm.rs\<close> and \<^verbatim>\<open>ecies/proto.rs\<close>:
    the handshake, frames, the codec and the stream. Both sides derive the same secrets, frames and
    streams of frames are read back however they are cut, what is altered is refused.
  \<^item> \<open>Peer\<close>, \<open>Connection\<close>: \<^verbatim>\<open>devp2p/src/peer.rs\<close> and \<^verbatim>\<open>types.rs\<close>; the hello messages, the shared
    capabilities, both directions of a stream, and the composition with ECIES: two peers that connect
    agree, and what one sends the other receives.
  \<^item> \<open>Node_Filter\<close>, \<open>Swarm\<close>, \<open>Peer_Tasks\<close>: \<^verbatim>\<open>devp2p/src/node_filter.rs\<close> and \<^verbatim>\<open>rlpx.rs\<close>. The map of
    peers with every task that changes it as a step relation (\<open>swarm_step\<close>) and its invariants; the
    ingress router, the egress router and the pinger of a peer as functions of what their inputs yield.
  \<^item> \<open>Discovery\<close>: \<^verbatim>\<open>devp2p/src/disc.rs\<close> and \<^verbatim>\<open>disc/\<close>, what the dialer is given: the stream of reserved peers and
    the pumps of DNS discovery, discv4 and discv5, and the text of node records. What the pumps forward
    is traced back to its source: what a DNS tree vouches for, and what it fails to protect; the stream
    of reserved peers never moves on.
  \<^item> \<open>Eth\<close>: the messages of the eth protocol (\<^verbatim>\<open>src/eth.rs\<close>, \<^verbatim>\<open>grpc.rs\<close>, \<^verbatim>\<open>services/provider.rs\<close>).
  \<^item> \<open>Block_Tracker\<close>, \<open>Cap_Server\<close>, \<open>Sentry\<close>: \<^verbatim>\<open>src/main.rs\<close> and \<^verbatim>\<open>services/sentry.rs\<close>. The tracker
    refines one map from peers to blocks; the server as a system of events, with the requests for headers
    that make it panic; the five requests of the service, whose sends run side by side.
  \<^item> \<open>Provider\<close>: the data providers and control services of \<^verbatim>\<open>src/services/\<close>, as environments of the
    capability server: headers are answered from the chain of the data service; with the dummy provider
    every peer is refused.
  \<^item> \<open>Relay\<close>: two sentries with the stream between them (\<open>sentry_end\<close>, a round of each router as
    \<open>peer_out\<close> and \<open>peer_in\<close>): from the connection to the exchange of statuses, and from the request of
    a client to the headers of the other sentry's chain and back.
  \<^item> \<open>Setup\<close>: \<^verbatim>\<open>src/config.rs\<close>, \<open>main\<close> and the builder of the swarm: when a sentry starts, what it starts
    with (the builders of the swarm and of discv4 included), and that any two that start can connect.
  \<^item> \<open>End_To_End\<close>: two swarms and the connection between them. From the options of two sentries to a
    working relay; a peer without a shared capability leaves no trace; two sentries that dial each other
    at once lose both connections.
  \<^item> \<open>Example_Server\<close>: the capability server of \<^verbatim>\<open>devp2p/examples/sentry.rs\<close>, the second provider of the
    contract that \<open>Cap_Server\<close> states (the locale \<open>capability_server\<close>).
  \<^item> \<open>Examples\<close>: what the programs \<^verbatim>\<open>devp2p/examples/sentry.rs\<close> and \<^verbatim>\<open>local_connect.rs\<close> put together, and
    what becomes of the second when the node it connects to is a sentry; the servers that do nothing.
  \<^item> \<open>Dns_Tests\<close>, \<open>Ecies_Tests\<close>: the unit tests of \<^verbatim>\<open>dnsdisc/src/lib.rs\<close> and of \<^verbatim>\<open>ecies/algorithm.rs\<close> as
    theorems, for every interleaving of the tasks and every library that satisfies what they name.

  \<^bold>\<open>How the code is modelled.\<close> Functions on state return the new state; an operation that fails or panics
  returns \<open>Err\<close> or \<open>Panic\<close>, and the state as it is then. Machine integers are words, so arithmetic on
  them wraps as in a release build; where a peer chooses the operands (the numbers of the headers it asks
  for) the build is a parameter (\<open>build\<close>), and the arithmetic panics in one that checks. Maps that are iterated in an unspecified order are association
  lists, or the order is a parameter. A task is cut at its waits (\<^verbatim>\<open>await\<close>); what it does between
  two waits is one step, and a property of several tasks quantifies over the interleavings of the steps.

  \<^bold>\<open>Bounds and fuel.\<close> There is no fuel. The loop of a lookup is a \<open>partial_function\<close> that is proved to
  end; the resolution of DNS trees is a relation, whose runs are proved to end when the records do not
  refer back to themselves. Every other recursion is structural or has its measure. A vector that is
  reserved at once panics beyond \<open>isize::MAX\<close> bytes (\<open>vec_fits\<close>), a channel with a capacity of 0 or beyond
  \<open>usize::MAX >> 3\<close> (\<open>channel_ok\<close>). The library instances bound nothing in the
  properties, which hold for every instance that satisfies the named hypotheses.

  \<^bold>\<open>Not modelled.\<close> Times and timers (a timeout is a step that may happen); the sockets and the
  runtime; the memory running out; log output and metrics; the search for a gateway and the DNS client (what they answer is a
  parameter) and the connections to the remote services; the merging of the discovery streams by a
  library; the parser of the configuration and of the command line; the build script; the examples
  that only query and print (\<^verbatim>\<open>handshake.rs\<close>, \<^verbatim>\<open>query_bootnodes.rs\<close>, \<^verbatim>\<open>query_ethdisco.rs\<close>); the test of one
  fixed key agreement, which states a number of the library. The transport (\<^verbatim>\<open>transport.rs\<close>) only names
  the address of a socket. The text of socket addresses, identifiers and URLs is parsed by parameters.
\<close>

end
